(* ===== verification/Prelude.thy ===== *)
theory Prelude
  imports Main "HOL-Library.AList" "HOL-Library.Multiset" "HOL-Library.List_Lexorder"
    "HOL-Library.Char_ord" "HOL-Library.Product_Lexorder"
begin

text \<open>
  Shared vocabulary of the development: Go's byte strings, Go's error values with wrapping,
  results of fallible calls, maps with their unspecified iteration order, and the parameters
  that stand for code outside the repository (the Postgres server and its driver types, the
  Ethereum address type, bcrypt, the JSON path writer, floating point formatting).
  The generic lemmas on lists, association lists and permutations that the components share
  are collected here; \<open>hub_simps\<close> is the collection of rewrite rules the component proofs
  use for results and updates.
\<close>

named_theorems hub_simps \<open>rewrite rules for results, maps and responses\<close>

section \<open>Strings and byte slices\<close>

text \<open>Go's \<open>string\<close> and \<open>[]byte\<close> are sequences of bytes, and so is a list of HOL
  characters (a character is an 8-bit value). A nil slice and an empty slice are the same list.\<close>

type_synonym bytes = "char list"

text \<open>A map is the list of its entries, each key once. Where the code tells a nil map from an
  empty one (when it is marshalled), the type is \<open>nmap\<close> and nil is \<open>None\<close>; ranging over nil
  visits nothing.\<close>

type_synonym ('k, 'v) gomap = "('k \<times> 'v) list"
type_synonym ('k, 'v) nmap = "('k \<times> 'v) list option"

definition entries :: "('k, 'v) nmap \<Rightarrow> ('k, 'v) gomap" where
  "entries m = (case m of None \<Rightarrow> [] | Some l \<Rightarrow> l)"

lemma entries_simps [simp]: "entries None = []" "entries (Some l) = l"
  by (simp_all add: entries_def)

section \<open>Error values\<close>

text \<open>The sentinels of the packages \<open>domain\<close>, \<open>application\<close> and \<open>ports\<close>, the errors of the
  standard library and of the clients, as far as the code distinguishes them, and the wrapping
  of \<open>fmt.Errorf\<close> with the verb \<open>%w\<close>. The text of a wrapping message is kept, the formatted
  operands are not.\<close>

datatype go_error =
    ErrNotFound
  | ErrIncorrectBuilder
  | ErrInvalidMeasurement
  | ErrMissingSecret
  | ErrNonStringSecret
  | ErrInvalidAuthData
  | ErrInvalidIPAddress
  | ErrNoRows                 \<comment> \<open>\<open>sql.ErrNoRows\<close>\<close>
  | ErrDriver                 \<comment> \<open>a connection or driver failure\<close>
  | ErrPg string              \<comment> \<open>an error of the server, with the constraint or class\<close>
  | ErrJson                   \<comment> \<open>an error of \<open>encoding/json\<close>\<close>
  | ErrRead                   \<comment> \<open>an error while reading a request body or a file\<close>
  | ErrAws string             \<comment> \<open>an \<open>awserr.Error\<close> with its code\<close>
  | ErrVaultResponse nat      \<comment> \<open>a \<open>vault.ResponseError\<close> with its status code\<close>
  | ErrOther string           \<comment> \<open>any other error, with its text\<close>
  | Wrap string go_error      \<comment> \<open>\<open>fmt.Errorf("... %w", err)\<close>\<close>

text \<open>\<open>errors.Is\<close> walks the chain of wrapped errors.\<close>

fun errors_Is :: "go_error \<Rightarrow> go_error \<Rightarrow> bool" where
  "errors_Is (Wrap m e) t = (Wrap m e = t \<or> errors_Is e t)"
| "errors_Is e t = (e = t)"

type_synonym 'a result = "go_error + 'a"

text \<open>A call either returns or panics (here: a nil pointer dereference).\<close>

datatype 'a outcome = Ret 'a | Panic string

section \<open>Code outside the repository\<close>

text \<open>
  The functions of other packages and services that the hub calls, as the fields of one record
  that every operation using them takes as its first argument:
  \<^item> \<open>inet_value\<close>: \<open>pgtype.Inet.Set\<close> on an address, then the value sent for the parameter
    (\<open>None\<close> is SQL's NULL); \<open>inet_scan\<close>: the address in the scanned \<open>pgtype.Inet\<close> of a
    column value (\<open>None\<close> when its \<open>IPNet\<close> is nil);
  \<^item> \<open>pg_jsonb\<close>: the text the server returns for a \<open>jsonb\<close> column that was given this text
    (\<open>None\<close>: rejected); \<open>pg_collate\<close>: the sort key of a text under the database's collation;
  \<^item> \<open>eth_BytesToAddress\<close>, \<open>eth_UnmarshalJSON\<close>, \<open>eth_MarshalText\<close>: go-ethereum's
    \<open>common.Address\<close>, an address being its 20 bytes;
  \<^item> \<open>bcrypt_Compare\<close>: \<open>bcrypt.CompareHashAndPassword\<close> (hash first);
  \<^item> \<open>jsonparser_Set\<close>: \<open>jsonparser.Set\<close> of document, value and path;
  \<^item> \<open>float64_text\<close>: a number literal read as \<open>float64\<close> and formatted again
    (\<open>None\<close>: out of range);
  \<^item> \<open>error_Error\<close>: the text of an error (\<open>err.Error()\<close>), of which the values of \<open>go_error\<close>
    keep only what the code branches on.
\<close>

record ext =
  inet_value :: "bytes \<Rightarrow> bytes option result"
  inet_scan :: "bytes \<Rightarrow> bytes option"
  pg_jsonb :: "bytes \<Rightarrow> bytes option"
  pg_collate :: "bytes \<Rightarrow> bytes"
  eth_BytesToAddress :: "bytes \<Rightarrow> bytes"
  eth_UnmarshalJSON :: "bytes \<Rightarrow> bytes option"
  eth_MarshalText :: "bytes \<Rightarrow> bytes"
  bcrypt_Compare :: "bytes \<Rightarrow> bytes \<Rightarrow> go_error option"
  jsonparser_Set :: "bytes \<Rightarrow> bytes \<Rightarrow> bytes list \<Rightarrow> bytes result"
  float64_text :: "bytes \<Rightarrow> bytes option"
  error_Error :: "go_error \<Rightarrow> bytes"

text \<open>One concrete instance, on which the theorems are applied to concrete inputs: addresses
  are stored as their bytes (an IPv4 address as four), JSON and float literals come back unchanged, the collation is
  byte order, a password matches the hash equal to it.\<close>

definition sample_ext :: ext where
  "sample_ext = \<lparr>
     inet_value = \<lambda>ip.
       if length ip = 16 \<and> take 12 ip = replicate 10 (CHR 0x00) @ [CHR 0xFF, CHR 0xFF] then Inr (Some (drop 12 ip))
       else if length ip \<in> {4, 16} then Inr (Some ip) else Inl (ErrOther ''inet''),
     inet_scan = Some, pg_jsonb = Some, pg_collate = id,
     eth_BytesToAddress = \<lambda>b. replicate (20 - length b) (CHR 0x00) @ drop (length b - 20) b,
     eth_UnmarshalJSON = Some, eth_MarshalText = id,
     bcrypt_Compare = \<lambda>hash pass. if hash = pass then None else Some (ErrOther ''mismatch''),
     jsonparser_Set = \<lambda>doc val path. Inr val,
     float64_text = Some, error_Error = \<lambda>e. ''error''\<rparr>"

section \<open>Iteration order of maps and scan order of tables\<close>

text \<open>
  The order in which Go ranges over a map, and the order in which the server returns rows
  without an \<open>ORDER BY\<close>, are unspecified. Both are modelled by a number that selects one
  permutation: \<open>permute k xs\<close> is always a permutation of \<open>xs\<close>, and every permutation is
  selected by some \<open>k\<close>. A theorem that holds for all \<open>k\<close> holds for every order.
\<close>

definition insert_nth :: "nat \<Rightarrow> 'a \<Rightarrow> 'a list \<Rightarrow> 'a list" where
  "insert_nth i x ys = take i ys @ x # drop i ys"

fun permute :: "nat \<Rightarrow> 'a list \<Rightarrow> 'a list" where
  "permute k [] = []"
| "permute k (x # xs) =
     insert_nth (k mod Suc (length xs)) x (permute (k div Suc (length xs)) xs)"

lemma mset_insert_nth [simp]: "mset (insert_nth i x ys) = add_mset x (mset ys)"
proof -
  have "mset (take i ys) + mset (drop i ys) = mset ys"
    by (metis append_take_drop_id mset_append)
  then show ?thesis by (simp add: insert_nth_def)
qed

lemma mset_permute [simp]: "mset (permute k xs) = mset xs"
  by (induction k xs rule: permute.induct) simp_all

lemma set_permute [simp]: "set (permute k xs) = set xs"
  by (metis mset_permute set_mset_mset)

lemma length_permute [simp]: "length (permute k xs) = length xs"
  by (metis mset_permute size_mset)

lemma distinct_permute [simp]: "distinct (permute k xs) = distinct xs"
  by (metis mset_permute mset_eq_imp_distinct_iff)

lemma distinct_map_permute [simp]: "distinct (map f (permute k xs)) = distinct (map f xs)"
  by (metis mset_permute mset_map mset_eq_imp_distinct_iff)

lemma permute_eq_Nil [simp]: "permute k xs = [] \<longleftrightarrow> xs = []"
  by (metis length_0_conv length_permute)

lemma permute_surj:
  assumes "mset ys = mset xs"
  shows "\<exists>k. permute k xs = ys"
  using assms
proof (induction xs arbitrary: ys)
  case Nil
  then show ?case by simp
next
  case (Cons x xs)
  then have "x \<in> set ys"
    by (metis list.set_intros(1) set_mset_mset)
  then obtain us vs where ys: "ys = us @ x # vs"
    by (meson split_list)
  with Cons.prems have "mset (us @ vs) = mset xs"
    by simp
  then obtain k where k: "permute k xs = us @ vs"
    using Cons.IH by blast
  let ?n = "Suc (length xs)"
  have "length us < ?n"
    using k by (metis le_add1 length_append length_permute less_Suc_eq_le)
  then have "permute (k * ?n + length us) (x # xs) = ys"
    by (simp add: k ys insert_nth_def del: mult_Suc mult_Suc_right)
  then show ?case by blast
qed

section \<open>Association lists as Go maps\<close>

lemma map_of_mset_eq:
  assumes "mset xs = mset ys" "distinct (map fst xs)"
  shows "map_of xs = map_of ys"
proof -
  have "mset (map fst xs) = mset (map fst ys)"
    using assms(1) by (simp only: mset_map)
  then have "distinct (map fst ys)"
    by (rule mset_eq_imp_distinct_iff [THEN iffD1, OF _ assms(2)])
  then show ?thesis
    using assms(2) mset_eq_setD [OF assms(1)] by (simp only: map_of_inject_set)
qed

lemma map_of_permute: "distinct (map fst xs) \<Longrightarrow> map_of (permute k xs) = map_of xs"
  by (rule map_of_mset_eq) simp_all

lemma map_of_sort_key: "distinct (map fst m) \<Longrightarrow> map_of (sort_key f m) = map_of m"
  using map_of_mset_eq [of m "sort_key f m"] by simp

lemma map_of_filter_fst:
  "map_of (filter (\<lambda>p. P (fst p)) xs) k = (if P k then map_of xs k else None)"
  by (induction xs) auto

lemma fold_update_map_of:
  "map_of (fold (\<lambda>p m. AList.update (fst p) (snd p) m) ps m) =
     map_of m ++ map_of (rev ps)"
  by (induction ps arbitrary: m) (auto simp: update_conv' map_add_assoc [symmetric] fun_eq_iff map_add_def split: option.splits)

lemma fold_update_distinct:
  "distinct (map fst m) \<Longrightarrow>
   distinct (map fst (fold (\<lambda>p m. AList.update (fst p) (snd p) m) ps m))"
  by (induction ps arbitrary: m) (auto simp: distinct_update)

end
