(* ===== verification/Go_Strings.thy ===== *)
theory Go_Strings
  imports Prelude
begin

text \<open>
  The parts of Go's packages \<open>strings\<close>, \<open>strconv\<close> and \<open>unicode/utf8\<close> that the hub uses:
  \<open>strings.Split\<close> with a one-byte separator, \<open>strings.TrimSpace\<close>, \<open>strconv.Itoa\<close> on
  indices, the decoding of UTF-8 and the case folding that \<open>encoding/json\<close> applies to
  object keys.
\<close>

section \<open>strings.Split\<close>

fun split_on :: "char \<Rightarrow> bytes \<Rightarrow> bytes list" where
  "split_on sep [] = [[]]"
| "split_on sep (c # cs) =
     (if c = sep then [] # split_on sep cs
      else (case split_on sep cs of [] \<Rightarrow> [[c]] | w # ws \<Rightarrow> (c # w) # ws))"

text \<open>\<open>strings.Join\<close> with a one-byte separator, the inverse.\<close>

fun join_with :: "char \<Rightarrow> bytes list \<Rightarrow> bytes" where
  "join_with sep [] = []"
| "join_with sep [w] = w"
| "join_with sep (w # ws) = w @ sep # join_with sep ws"

section \<open>UTF-8\<close>

text \<open>The code of a byte.\<close>

abbreviation byte :: "char \<Rightarrow> nat" where
  "byte c \<equiv> of_char c"

definition in_range :: "nat \<Rightarrow> nat \<Rightarrow> char \<Rightarrow> bool" where
  "in_range lo hi c \<longleftrightarrow> lo \<le> byte c \<and> byte c \<le> hi"

abbreviation cont :: "char \<Rightarrow> bool" where
  "cont c \<equiv> in_range 128 191 c"

text \<open>\<open>rune_len s\<close> is the number of bytes of the well-formed UTF-8 sequence at the head of
  \<open>s\<close>, and 0 when there is none (\<open>utf8.DecodeRune\<close> then reports an encoding error of
  width 1). Overlong forms, surrogates and values beyond U+10FFFF are ill-formed.\<close>

definition second3 :: "char \<Rightarrow> char \<Rightarrow> bool" where
  "second3 a b \<longleftrightarrow>
     in_range (if byte a = 224 then 160 else 128) (if byte a = 237 then 159 else 191) b"

definition second4 :: "char \<Rightarrow> char \<Rightarrow> bool" where
  "second4 a b \<longleftrightarrow>
     in_range (if byte a = 240 then 144 else 128) (if byte a = 244 then 143 else 191) b"

fun rune_len :: "bytes \<Rightarrow> nat" where
  "rune_len [] = 0"
| "rune_len (a # s) =
     (if byte a < 128 then 1
      else if in_range 194 223 a then
        (case s of b # _ \<Rightarrow> (if cont b then 2 else 0) | [] \<Rightarrow> 0)
      else if in_range 224 239 a then
        (case s of b # c # _ \<Rightarrow> (if second3 a b \<and> cont c then 3 else 0) | _ \<Rightarrow> 0)
      else if in_range 240 244 a then
        (case s of b # c # d # _ \<Rightarrow> (if second4 a b \<and> cont c \<and> cont d then 4 else 0) | _ \<Rightarrow> 0)
      else 0)"

text \<open>The four shapes of a well-formed sequence.\<close>

lemma rune_len_shape:
  assumes "rune_len s \<noteq> 0"
  obtains (one) a t where "s = [a] @ t" "byte a < 128"
  | (two) a b t where "s = [a, b] @ t" "in_range 194 223 a" "cont b"
  | (three) a b c t where "s = [a, b, c] @ t" "in_range 224 239 a" "second3 a b" "cont c"
  | (four) a b c d t where "s = [a, b, c, d] @ t" "in_range 240 244 a" "second4 a b" "cont c" "cont d"
  using assms that
  by (cases s) (auto split: if_splits list.splits)

lemma rune_len_one: "byte a < 128 \<Longrightarrow> rune_len (a # t) = 1"
  by simp

lemma rune_len_two: "in_range 194 223 a \<Longrightarrow> cont b \<Longrightarrow> rune_len (a # b # t) = 2"
  by (simp add: in_range_def)

lemma rune_len_three:
  "in_range 224 239 a \<Longrightarrow> second3 a b \<Longrightarrow> cont c \<Longrightarrow> rune_len (a # b # c # t) = 3"
  by (simp add: in_range_def)

lemma rune_len_four:
  "in_range 240 244 a \<Longrightarrow> second4 a b \<Longrightarrow> cont c \<Longrightarrow> cont d \<Longrightarrow> rune_len (a # b # c # d # t) = 4"
  by (simp add: in_range_def)

declare rune_len.simps(2) [simp del]

lemmas rune_len_shapes = rune_len_one rune_len_two rune_len_three rune_len_four

lemma rune_len_le: "rune_len s \<le> length s"
proof (cases "rune_len s = 0")
  case False
  then show ?thesis
    by (cases s rule: rune_len_shape) (auto simp: rune_len_shapes)
qed simp

text \<open>Only the bytes of the sequence matter.\<close>

lemma rune_len_take:
  assumes "rune_len s \<noteq> 0"
  shows "rune_len (take (rune_len s) s @ r) = rune_len s"
  using assms by (cases s rule: rune_len_shape) (auto simp: rune_len_shapes)

lemma rune_len_high:
  assumes "rune_len s \<noteq> 0" "128 \<le> byte (hd s)"
  shows "\<forall>c\<in>set (take (rune_len s) s). 128 \<le> byte c"
  using assms
  by (cases s rule: rune_len_shape)
     (auto simp: rune_len_shapes in_range_def second3_def second4_def split: if_splits)

text \<open>The number of code points of a well-formed string; \<open>None\<close> for ill-formed UTF-8.\<close>

function utf8_count :: "bytes \<Rightarrow> nat option" where
  "utf8_count s =
     (case s of [] \<Rightarrow> Some 0
      | c # cs \<Rightarrow>
          (if rune_len s = 0 then None
           else map_option Suc (utf8_count (drop (rune_len s) s))))"
  by pat_completeness auto
termination
  by (relation "measure length") auto

declare utf8_count.simps [simp del]

lemma utf8_count_code [code]:
  "utf8_count s = (case s of [] \<Rightarrow> Some 0
     | c # cs \<Rightarrow> (case rune_len s of 0 \<Rightarrow> None
         | Suc n \<Rightarrow> map_option Suc (utf8_count (drop n cs))))"
  by (subst utf8_count.simps) (auto split: list.splits nat.splits)

definition utf8_valid :: "bytes \<Rightarrow> bool" where
  "utf8_valid s \<longleftrightarrow> utf8_count s \<noteq> None"

text \<open>\<open>utf8.AppendRune\<close>: the encoding of a code point.\<close>

definition encode_rune :: "nat \<Rightarrow> bytes" where
  "encode_rune n =
     (if n < 128 then [char_of n]
      else if n < 2048 then [char_of (192 + n div 64), char_of (128 + n mod 64)]
      else if n < 65536 then
        [char_of (224 + n div 4096), char_of (128 + n div 64 mod 64), char_of (128 + n mod 64)]
      else
        [char_of (240 + n div 262144), char_of (128 + n div 4096 mod 64),
         char_of (128 + n div 64 mod 64), char_of (128 + n mod 64)])"

section \<open>strings.TrimSpace\<close>

text \<open>The encodings of the code points that \<open>unicode.IsSpace\<close> accepts: six ASCII characters
  and U+0085, U+00A0, U+1680, U+2000 to U+200A, U+2028, U+2029, U+202F, U+205F, U+3000.\<close>

definition space_runes :: "bytes list" where
  "space_runes =
     map (\<lambda>c. [c]) [CHR 0x09, CHR 0x0A, CHR 0x0B, CHR 0x0C, CHR 0x0D, CHR 0x20] @
     [[CHR 0xC2, CHR 0x85], [CHR 0xC2, CHR 0xA0], [CHR 0xE1, CHR 0x9A, CHR 0x80]] @
     map (\<lambda>c. [CHR 0xE2, CHR 0x80, c])
       [CHR 0x80, CHR 0x81, CHR 0x82, CHR 0x83, CHR 0x84, CHR 0x85, CHR 0x86, CHR 0x87,
        CHR 0x88, CHR 0x89, CHR 0x8A, CHR 0xA8, CHR 0xA9, CHR 0xAF] @
     [[CHR 0xE2, CHR 0x81, CHR 0x9F], [CHR 0xE3, CHR 0x80, CHR 0x80]]"

fun strip_prefix :: "bytes \<Rightarrow> bytes \<Rightarrow> bytes option" where
  "strip_prefix [] s = Some s"
| "strip_prefix (p # ps) [] = None"
| "strip_prefix (p # ps) (c # cs) = (if p = c then strip_prefix ps cs else None)"

text \<open>One rune of a list removed from the left, \<open>None\<close> when none of them is there.\<close>

fun strip_any :: "bytes list \<Rightarrow> bytes \<Rightarrow> bytes option" where
  "strip_any [] s = None"
| "strip_any (p # ps) s =
     (case strip_prefix p s of Some r \<Rightarrow> Some r | None \<Rightarrow> strip_any ps s)"

lemma strip_prefix_Some: "strip_prefix p s = Some r \<longleftrightarrow> s = p @ r"
  by (induction p s rule: strip_prefix.induct) auto

lemma strip_any_Some: "strip_any ps s = Some r \<Longrightarrow> \<exists>p\<in>set ps. s = p @ r"
  by (induction ps) (auto split: option.splits simp: strip_prefix_Some)

lemma strip_any_None: "strip_any ps s = None \<longleftrightarrow> (\<forall>p\<in>set ps. \<forall>r. s \<noteq> p @ r)"
  by (induction ps)
     (auto split: option.splits simp: strip_prefix_Some [symmetric])

fun trim_left :: "nat \<Rightarrow> bytes list \<Rightarrow> bytes \<Rightarrow> bytes" where
  "trim_left 0 ps s = s"
| "trim_left (Suc n) ps s =
     (case strip_any ps s of None \<Rightarrow> s | Some r \<Rightarrow> trim_left n ps r)"

definition TrimSpace :: "bytes \<Rightarrow> bytes" where
  "TrimSpace s =
     (let t = trim_left (length s) space_runes s
      in rev (trim_left (length t) (map rev space_runes) (rev t)))"

section \<open>strconv.Itoa on indices\<close>

fun itoa :: "nat \<Rightarrow> bytes" where
  "itoa n = (if n < 10 then [char_of (48 + n)]
             else itoa (n div 10) @ [char_of (48 + n mod 10)])"

declare itoa.simps [simp del]

section \<open>Case folding of object keys\<close>

text \<open>\<open>encoding/json\<close> matches an object key with a struct field by its exact name, and
  else by the folded name: every rune is replaced by the smallest rune of its fold set. The
  field names of the hub are ASCII, and the runes that share a fold set with an ASCII letter
  are the letter in the other case, U+017F (with S) and U+212A (with K), so on the question
  whether a key folds to an ASCII name this is the folding of the library.\<close>

definition fold_ascii :: "char \<Rightarrow> char" where
  "fold_ascii c = (if in_range 97 122 c then char_of (byte c - 32) else c)"

fun foldName :: "bytes \<Rightarrow> bytes" where
  "foldName [] = []"
| "foldName [a] = [fold_ascii a]"
| "foldName [a, b] =
     (if a = char_of (197::nat) \<and> b = char_of (191::nat) then ''S'' else fold_ascii a # foldName [b])"
| "foldName (a # b # c # s) =
     (if a = char_of (197::nat) \<and> b = char_of (191::nat) then CHR ''S'' # foldName (c # s)
      else if a = char_of (226::nat) \<and> b = char_of (132::nat) \<and> c = char_of (170::nat)
        then CHR ''K'' # foldName s
      else fold_ascii a # foldName (b # c # s))"

section \<open>Lemmas\<close>

lemma split_on_neq_Nil [simp]: "split_on sep s \<noteq> []"
  by (cases s) (auto split: list.splits)

lemma join_split: "join_with sep (split_on sep s) = s"
proof (induction s)
  case Nil
  then show ?case by simp
next
  case (Cons c cs)
  obtain w ws where w: "split_on sep cs = w # ws"
    by (metis list.exhaust split_on_neq_Nil)
  with Cons show ?case
    by (cases ws) auto
qed

lemma split_on_no_sep: "sep \<notin> set s \<Longrightarrow> split_on sep s = [s]"
  by (induction s) auto

lemma split_on_append_sep:
  "split_on sep (xs @ sep # ys) = split_on sep xs @ split_on sep ys"
proof (induction xs)
  case Nil
  then show ?case by simp
next
  case (Cons c cs)
  then show ?case
    by (cases "split_on sep cs") auto
qed

lemma split_join:
  "ws \<noteq> [] \<Longrightarrow> \<forall>w\<in>set ws. sep \<notin> set w \<Longrightarrow> split_on sep (join_with sep ws) = ws"
  by (induction sep ws rule: join_with.induct)
     (auto simp: split_on_no_sep split_on_append_sep)

text \<open>Only what follows the last separator determines the last element.\<close>

lemma last_split_on: "sep \<notin> set ys \<Longrightarrow> last (split_on sep (xs @ sep # ys)) = ys"
  by (simp add: split_on_append_sep split_on_no_sep)

lemma last_split_on_no_sep: "sep \<notin> set (last (split_on sep s))"
proof (induction s)
  case Nil
  then show ?case by simp
next
  case (Cons c cs)
  then show ?case by (auto split: list.splits)
qed

lemma split_on_elem_no_sep: "w \<in> set (split_on sep s) \<Longrightarrow> sep \<notin> set w"
proof (induction s arbitrary: w)
  case Nil
  then show ?case by simp
next
  case (Cons c cs)
  then show ?case
    by (cases "split_on sep cs") (auto split: if_splits)
qed

lemma utf8_count_Nil [simp]: "utf8_count [] = Some 0"
  by (simp add: utf8_count.simps)

lemma utf8_valid_Nil [simp]: "utf8_valid []"
  by (simp add: utf8_valid_def)

lemma utf8_valid_ascii_Cons [simp]: "byte c < 128 \<Longrightarrow> utf8_valid (c # s) = utf8_valid s"
  by (simp add: utf8_valid_def utf8_count.simps [of "c # s"] rune_len_one)

lemma utf8_count_le: "utf8_count s = Some n \<Longrightarrow> n \<le> length s"
proof (induction s arbitrary: n rule: utf8_count.induct)
  case (1 s)
  show ?case
  proof (cases "s = [] \<or> rune_len s = 0")
    case True
    with "1.prems" show ?thesis
      by (subst (asm) utf8_count.simps) (auto split: if_splits list.splits)
  next
    case False
    with "1.prems" obtain m where m: "utf8_count (drop (rune_len s) s) = Some m" "n = Suc m"
      by (subst (asm) utf8_count.simps) (auto split: if_splits list.splits)
    obtain c cs where "s = c # cs" using False by (cases s) auto
    with False m "1.IH" have "m \<le> length s - rune_len s"
      by simp
    moreover have "0 < rune_len s" using False by simp
    ultimately show ?thesis using m(2) rune_len_le [of s] by linarith
  qed
qed

definition digits_only :: "bytes \<Rightarrow> bool" where
  "digits_only s \<longleftrightarrow> (\<forall>c\<in>set s. in_range 48 57 c)"

lemma of_char_char_of_small [simp]: "n < 256 \<Longrightarrow> of_char (char_of n :: char) = (n :: nat)"
  by (simp add: of_char_of)

lemma itoa_digits: "digits_only (itoa n)"
proof (induction n rule: itoa.induct)
  case (1 n)
  then show ?case
    by (subst itoa.simps) (auto simp: digits_only_def in_range_def)
qed

lemma itoa_neq_Nil [simp]: "itoa n \<noteq> []"
  by (subst itoa.simps) simp

text \<open>Reading the decimal digits back.\<close>

definition atoi :: "bytes \<Rightarrow> nat" where
  "atoi s = foldl (\<lambda>n c. 10 * n + (byte c - 48)) 0 s"

lemma atoi_itoa [simp]: "atoi (itoa n) = n"
proof (induction n rule: itoa.induct)
  case (1 n)
  show ?case
  proof (cases "n < 10")
    case True
    then show ?thesis by (subst itoa.simps) (simp add: atoi_def)
  next
    case False
    with 1 have "atoi (itoa (n div 10)) = n div 10" by simp
    with False show ?thesis
      by (subst itoa.simps) (simp add: atoi_def)
  qed
qed

lemma itoa_inj: "itoa m = itoa n \<longleftrightarrow> m = n"
  by (metis atoi_itoa)

end
