(* ===== verification/Json_Lex.thy ===== *)
theory Json_Lex
  imports Go_Strings
begin

text \<open>
  The lexical level of Go's package \<open>encoding/json\<close>: white space, punctuation, string and
  number literals and the three names. A string token keeps the text between its quotes, so
  that a document can be reproduced literally, as \<open>json.RawMessage\<close> does.
\<close>

section \<open>Tokens\<close>

datatype tok =
    TLBrace | TRBrace | TLBrack | TRBrack | TColon | TComma
  | TStr bytes | TNum bytes | TTrue | TFalse | TNull

abbreviation dq :: char where "dq \<equiv> CHR 0x22"
abbreviation bsl :: char where "bsl \<equiv> CHR 0x5C"

definition is_digit :: "char \<Rightarrow> bool" where
  "is_digit c \<longleftrightarrow> in_range 48 57 c"

definition is_ws :: "char \<Rightarrow> bool" where
  "is_ws c \<longleftrightarrow> c \<in> {CHR 0x20, CHR 0x09, CHR 0x0A, CHR 0x0D}"

definition hexval :: "char \<Rightarrow> nat option" where
  "hexval c =
     (if in_range 48 57 c then Some (byte c - 48)
      else if in_range 97 102 c then Some (byte c - 87)
      else if in_range 65 70 c then Some (byte c - 55)
      else None)"

text \<open>The four digits of a \<open>\u\<close> escape (\<open>getu4\<close> without the prefix).\<close>

fun hex4 :: "bytes \<Rightarrow> nat option" where
  "hex4 (a # b # c # d # r) =
     (case (hexval a, hexval b, hexval c, hexval d) of
        (Some w, Some x, Some y, Some z) \<Rightarrow> Some (4096 * w + 256 * x + 16 * y + z)
      | _ \<Rightarrow> None)"
| "hex4 _ = None"

definition simple_escapes :: "bytes" where
  "simple_escapes = [dq, bsl, CHR ''/'', CHR ''b'', CHR ''f'', CHR ''n'', CHR ''r'', CHR ''t'']"

text \<open>The length of the next element of a string literal: an ordinary byte, a two-byte escape
  or a \<open>\u\<close> escape; 0 at the closing quote, a control character or an unknown escape.\<close>

fun str_item :: "bytes \<Rightarrow> nat" where
  "str_item [] = 0"
| "str_item (c # cs) =
     (if c = dq \<or> byte c < 32 then 0
      else if c = bsl then
        (case cs of
           [] \<Rightarrow> 0
         | d # ds \<Rightarrow> (if d \<in> set simple_escapes then 2
                     else if d = CHR ''u'' \<and> hex4 ds \<noteq> None then 6 else 0))
      else 1)"

text \<open>The body of a string literal after its opening quote: the text up to the closing quote
  and the rest. Control characters and unknown escapes are syntax errors.\<close>

function scan_str :: "bytes \<Rightarrow> (bytes \<times> bytes) option" where
  "scan_str s =
     (if s = [] then None
      else if hd s = dq then Some ([], tl s)
      else if str_item s = 0 then None
      else map_option (\<lambda>(b, r). (take (str_item s) s @ b, r)) (scan_str (drop (str_item s) s)))"
  by pat_completeness auto
termination
  by (relation "measure length") auto

declare scan_str.simps [simp del]

text \<open>Number literals: an optional sign, an integer part without leading zeros, an optional
  fraction and an optional exponent.\<close>

fun scan_int :: "bytes \<Rightarrow> (bytes \<times> bytes) option" where
  "scan_int [] = None"
| "scan_int (c # cs) =
     (if c = CHR ''0'' then Some ([c], cs)
      else if is_digit c then Some (c # takeWhile is_digit cs, dropWhile is_digit cs)
      else None)"

definition scan_digits1 :: "bytes \<Rightarrow> bytes \<Rightarrow> (bytes \<times> bytes) option" where
  "scan_digits1 p s =
     (if takeWhile is_digit s = [] then None
      else Some (p @ takeWhile is_digit s, dropWhile is_digit s))"

fun scan_frac :: "bytes \<Rightarrow> (bytes \<times> bytes) option" where
  "scan_frac [] = Some ([], [])"
| "scan_frac (c # cs) =
     (if c = CHR ''.'' then scan_digits1 [c] cs else Some ([], c # cs))"

fun scan_exp :: "bytes \<Rightarrow> (bytes \<times> bytes) option" where
  "scan_exp [] = Some ([], [])"
| "scan_exp (c # cs) =
     (if c = CHR ''e'' \<or> c = CHR ''E'' then
        (case cs of
           d # ds \<Rightarrow> (if d = CHR ''+'' \<or> d = CHR ''-'' then scan_digits1 [c, d] ds
                      else scan_digits1 [c] cs)
         | [] \<Rightarrow> None)
      else Some ([], c # cs))"

definition scan_unsigned :: "bytes \<Rightarrow> (bytes \<times> bytes) option" where
  "scan_unsigned s =
     (case scan_int s of None \<Rightarrow> None | Some (i, s1) \<Rightarrow>
     (case scan_frac s1 of None \<Rightarrow> None | Some (f, s2) \<Rightarrow>
     (case scan_exp s2 of None \<Rightarrow> None | Some (e, s3) \<Rightarrow> Some (i @ f @ e, s3))))"

fun scan_number :: "bytes \<Rightarrow> (bytes \<times> bytes) option" where
  "scan_number (c # cs) =
     (if c = CHR ''-'' then map_option (\<lambda>(n, r). (c # n, r)) (scan_unsigned cs)
      else scan_unsigned (c # cs))"
| "scan_number [] = None"

fun tok_text :: "tok \<Rightarrow> bytes" where
  "tok_text TLBrace = ''{''"
| "tok_text TRBrace = ''}''"
| "tok_text TLBrack = ''[''"
| "tok_text TRBrack = '']''"
| "tok_text TColon = '':''"
| "tok_text TComma = '',''"
| "tok_text (TStr b) = dq # b @ [dq]"
| "tok_text (TNum n) = n"
| "tok_text TTrue = ''true''"
| "tok_text TFalse = ''false''"
| "tok_text TNull = ''null''"

definition punct :: "(char \<times> tok) list" where
  "punct = [(CHR ''{'', TLBrace), (CHR ''}'', TRBrace), (CHR ''['', TLBrack),
            (CHR '']'', TRBrack), (CHR '':'', TColon), (CHR '','', TComma)]"

fun lex_token :: "bytes \<Rightarrow> (tok \<times> bytes) option" where
  "lex_token [] = None"
| "lex_token (c # cs) =
     (case map_of punct c of
        Some t \<Rightarrow> Some (t, cs)
      | None \<Rightarrow>
          (if c = dq then map_option (\<lambda>(b, r). (TStr b, r)) (scan_str cs)
           else if c = CHR ''-'' \<or> is_digit c
             then map_option (\<lambda>(n, r). (TNum n, r)) (scan_number (c # cs))
           else if c = CHR ''t'' then map_option (Pair TTrue) (strip_prefix ''rue'' cs)
           else if c = CHR ''f'' then map_option (Pair TFalse) (strip_prefix ''alse'' cs)
           else if c = CHR ''n'' then map_option (Pair TNull) (strip_prefix ''ull'' cs)
           else None))"

lemma scan_str_Some: "scan_str s = Some (b, r) \<Longrightarrow> s = b @ dq # r"
proof (induction s arbitrary: b r rule: scan_str.induct)
  case (1 s)
  show ?case
  proof (cases "s = [] \<or> hd s = dq \<or> str_item s = 0")
    case True
    with "1.prems" have "s \<noteq> [] \<and> hd s = dq \<and> b = [] \<and> r = tl s"
      by (subst (asm) scan_str.simps) (auto split: if_splits)
    then show ?thesis by (cases s) auto
  next
    case False
    with "1.prems" obtain b' where b': "scan_str (drop (str_item s) s) = Some (b', r)"
      "b = take (str_item s) s @ b'"
      by (auto simp: scan_str.simps [of s])
    with False have "drop (str_item s) s = b' @ dq # r"
      by (intro "1.IH") auto
    then show ?thesis
      using b'(2) by (metis append.assoc append_take_drop_id)
  qed
qed

lemma scan_digits1_Some: "scan_digits1 p s = Some (b, r) \<Longrightarrow> p @ s = b @ r \<and> b \<noteq> []"
  by (auto simp: scan_digits1_def split: if_splits)

lemma scan_int_Some: "scan_int s = Some (b, r) \<Longrightarrow> s = b @ r \<and> b \<noteq> []"
  by (cases s) (auto split: if_splits)

lemma scan_frac_Some: "scan_frac s = Some (b, r) \<Longrightarrow> s = b @ r"
  by (cases s) (auto split: if_splits dest: scan_digits1_Some)

lemma scan_exp_Some: "scan_exp s = Some (b, r) \<Longrightarrow> s = b @ r"
  by (cases s) (auto split: if_splits list.splits dest: scan_digits1_Some)

lemma scan_unsigned_Some: "scan_unsigned s = Some (b, r) \<Longrightarrow> s = b @ r \<and> b \<noteq> []"
  by (auto simp: scan_unsigned_def split: option.splits
      dest!: scan_int_Some scan_frac_Some scan_exp_Some)

lemma scan_number_Some: "scan_number s = Some (b, r) \<Longrightarrow> s = b @ r \<and> b \<noteq> []"
  by (cases s) (auto split: if_splits dest!: scan_unsigned_Some)

lemma punct_Some: "map_of punct c = Some t \<Longrightarrow> tok_text t = [c]"
  by (auto simp: punct_def split: if_splits)

lemma lex_token_Some:
  assumes "lex_token s = Some (t, r)"
  shows "s = tok_text t @ r \<and> tok_text t \<noteq> []"
proof (cases s)
  case Nil
  with assms show ?thesis by simp
next
  case (Cons c cs)
  show ?thesis
  proof (cases "map_of punct c")
    case None
    with assms Cons show ?thesis
      by (auto simp del: scan_number.simps simp: strip_prefix_Some
          split: if_splits dest!: scan_str_Some scan_number_Some)
  next
    case (Some t')
    with assms Cons show ?thesis
      by (auto dest: punct_Some)
  qed
qed

text \<open>The lexemes of a document, each with the white space before it, and whether the end of
  the text was reached without a lexical error.\<close>

type_synonym lexeme = "bytes \<times> tok"

function lex :: "bytes \<Rightarrow> lexeme list \<times> bool" where
  "lex s =
     (let w = takeWhile is_ws s; s' = dropWhile is_ws s in
      if s' = [] then ([], True)
      else (case lex_token s' of
              None \<Rightarrow> ([], False)
            | Some (t, r) \<Rightarrow> (let (ls, ok) = lex r in ((w, t) # ls, ok))))"
  by pat_completeness auto
termination
proof (relation "measure length", goal_cases)
  case 1
  then show ?case by simp
next
  case (2 s w s' p t r)
  then have "dropWhile is_ws s = tok_text t @ r \<and> tok_text t \<noteq> []"
    by (intro lex_token_Some) auto
  then have "length r < length (dropWhile is_ws s)"
    by simp
  then show ?case
    using length_dropWhile_le [of is_ws s] by simp
qed

declare lex.simps [simp del]

end
