(* ===== verification/Json_Syntax.thy ===== *)
theory Json_Syntax
  imports Json_Lex
begin

text \<open>
  The syntax level of \<open>encoding/json\<close>: documents, the scanner's pushdown automaton (one step
  per token, an explicit stack of open containers, the nesting limit of 10000), printing
  without white space, and the fact that a printed document is read back unchanged.
  Strings and keys of a document keep the text between their quotes (see \<open>Json_Values\<close> for
  their values).
\<close>

section \<open>Documents\<close>

datatype json =
    JNull
  | JBool bool
  | JNum bytes
  | JStr bytes
  | JArr "json list"
  | JObj "(bytes \<times> json) list"

fun comma_join :: "tok list list \<Rightarrow> tok list" where
  "comma_join [] = []"
| "comma_join [x] = x"
| "comma_join (x # xs) = x @ TComma # comma_join xs"

fun toks_of :: "json \<Rightarrow> tok list" where
  "toks_of JNull = [TNull]"
| "toks_of (JBool b) = [if b then TTrue else TFalse]"
| "toks_of (JNum n) = [TNum n]"
| "toks_of (JStr s) = [TStr s]"
| "toks_of (JArr vs) = TLBrack # comma_join (map toks_of vs) @ [TRBrack]"
| "toks_of (JObj ms) =
     TLBrace # comma_join (map (\<lambda>(k, v). TStr k # TColon # toks_of v) ms) @ [TRBrace]"

text \<open>The text of a document without white space.\<close>

definition json_print :: "json \<Rightarrow> bytes" where
  "json_print v = concat (map tok_text (toks_of v))"

section \<open>The scanner\<close>

text \<open>An open array with the elements read so far, an open object with the members read so far
  and the key whose value is read; both in reverse.\<close>

datatype frame =
    FArr "json list"
  | FObj "(bytes \<times> json) list" bytes

datatype pstate =
    PValue "frame list"                                   \<comment> \<open>a value begins\<close>
  | PFirstElem "frame list"                               \<comment> \<open>after an opening bracket\<close>
  | PFirstKey "frame list"                                \<comment> \<open>after an opening brace\<close>
  | PKey "(bytes \<times> json) list" "frame list"               \<comment> \<open>after a comma in an object\<close>
  | PColon "(bytes \<times> json) list" bytes "frame list"       \<comment> \<open>after a key\<close>
  | PAfter json frame "frame list"                        \<comment> \<open>after a value in a container\<close>
  | PDone json

definition maxNestingDepth :: nat where
  "maxNestingDepth = 10000"

text \<open>For evaluation: a comparison of binary numbers.\<close>

lemma below_maxNestingDepth [code_unfold]: "n < maxNestingDepth \<longleftrightarrow> int n < 10000"
  by (simp add: maxNestingDepth_def)

fun complete :: "json \<Rightarrow> frame list \<Rightarrow> pstate" where
  "complete v [] = PDone v"
| "complete v (f # fs) = PAfter v f fs"

fun begin_value :: "tok \<Rightarrow> frame list \<Rightarrow> pstate option" where
  "begin_value TNull fs = Some (complete JNull fs)"
| "begin_value TTrue fs = Some (complete (JBool True) fs)"
| "begin_value TFalse fs = Some (complete (JBool False) fs)"
| "begin_value (TNum n) fs = Some (complete (JNum n) fs)"
| "begin_value (TStr s) fs = Some (complete (JStr s) fs)"
| "begin_value TLBrack fs =
     (if length fs < maxNestingDepth then Some (PFirstElem fs) else None)"
| "begin_value TLBrace fs =
     (if length fs < maxNestingDepth then Some (PFirstKey fs) else None)"
| "begin_value _ fs = None"

text \<open>One step of the scanner.\<close>

fun feed :: "tok \<Rightarrow> pstate \<Rightarrow> pstate option" where
  "feed t (PValue fs) = begin_value t fs"
| "feed t (PFirstElem fs) =
     (if t = TRBrack then Some (complete (JArr []) fs) else begin_value t (FArr [] # fs))"
| "feed t (PFirstKey fs) =
     (case t of TRBrace \<Rightarrow> Some (complete (JObj []) fs)
      | TStr k \<Rightarrow> Some (PColon [] k fs) | _ \<Rightarrow> None)"
| "feed t (PKey ms fs) = (case t of TStr k \<Rightarrow> Some (PColon ms k fs) | _ \<Rightarrow> None)"
| "feed t (PColon ms k fs) = (if t = TColon then Some (PValue (FObj ms k # fs)) else None)"
| "feed t (PAfter v (FArr vs) fs) =
     (case t of TComma \<Rightarrow> Some (PValue (FArr (v # vs) # fs))
      | TRBrack \<Rightarrow> Some (complete (JArr (rev (v # vs))) fs) | _ \<Rightarrow> None)"
| "feed t (PAfter v (FObj ms k) fs) =
     (case t of TComma \<Rightarrow> Some (PKey ((k, v) # ms) fs)
      | TRBrace \<Rightarrow> Some (complete (JObj (rev ((k, v) # ms))) fs) | _ \<Rightarrow> None)"
| "feed t (PDone v) = None"

text \<open>The first value of a token sequence and the tokens after it.\<close>

fun parse_toks :: "tok list \<Rightarrow> pstate \<Rightarrow> (json \<times> tok list) option" where
  "parse_toks ts (PDone v) = Some (v, ts)"
| "parse_toks [] ps = None"
| "parse_toks (t # ts) ps =
     (case feed t ps of None \<Rightarrow> None | Some ps' \<Rightarrow> parse_toks ts ps')"

text \<open>\<open>json.Unmarshal\<close> and \<open>json.Valid\<close> accept a text that is exactly one value;
  \<open>Decoder.Decode\<close> reads the first value and leaves what follows.\<close>

definition json_parse :: "bytes \<Rightarrow> json option" where
  "json_parse s =
     (case lex s of
        (ls, True) \<Rightarrow>
          (case parse_toks (map snd ls) (PValue []) of Some (v, []) \<Rightarrow> Some v | _ \<Rightarrow> None)
      | _ \<Rightarrow> None)"

definition json_decode_first :: "bytes \<Rightarrow> json option" where
  "json_decode_first s = map_option fst (parse_toks (map snd (fst (lex s))) (PValue []))"

definition json_Valid :: "bytes \<Rightarrow> bool" where
  "json_Valid s \<longleftrightarrow> json_parse s \<noteq> None"

section \<open>Documents that can be written\<close>

fun depth :: "json \<Rightarrow> nat" where
  "depth (JArr vs) = Suc (fold max (map depth vs) 0)"
| "depth (JObj ms) = Suc (fold max (map (\<lambda>(k, v). depth v) ms) 0)"
| "depth _ = 0"

text \<open>A body that stands between quotes, and a number literal.\<close>

definition str_lit :: "bytes \<Rightarrow> bool" where
  "str_lit b \<longleftrightarrow> scan_str (b @ [dq]) = Some (b, [])"

definition num_lit :: "bytes \<Rightarrow> bool" where
  "num_lit n \<longleftrightarrow> scan_number n = Some (n, [])"

fun lits_ok :: "json \<Rightarrow> bool" where
  "lits_ok (JNum n) = num_lit n"
| "lits_ok (JStr s) = str_lit s"
| "lits_ok (JArr vs) = (\<forall>v\<in>set vs. lits_ok v)"
| "lits_ok (JObj ms) = (\<forall>(k, v)\<in>set ms. str_lit k \<and> lits_ok v)"
| "lits_ok _ = True"

definition json_wf :: "json \<Rightarrow> bool" where
  "json_wf v \<longleftrightarrow> lits_ok v \<and> depth v \<le> maxNestingDepth"

section \<open>Reading what was printed\<close>

subsection \<open>The scanner on the tokens of a document\<close>

lemma fold_max_le: "fold max xs n \<le> m \<longleftrightarrow> n \<le> m \<and> (\<forall>x\<in>set xs. x \<le> (m::nat))"
  by (induction xs arbitrary: n) auto

lemma parse_toks_PAfter_step:
  "parse_toks (t # ts) (PAfter v f fs) =
     (case feed t (PAfter v f fs) of None \<Rightarrow> None | Some ps \<Rightarrow> parse_toks ts ps)"
  by simp

definition reads :: "json \<Rightarrow> bool" where
  "reads v \<longleftrightarrow> (\<forall>ts fs. length fs + depth v \<le> maxNestingDepth \<longrightarrow>
     parse_toks (toks_of v @ ts) (PValue fs) = parse_toks ts (complete v fs))"

lemma toks_of_Cons: "\<exists>t ts. toks_of v = t # ts \<and> t \<noteq> TRBrack"
  by (cases v) auto

lemma parse_first_elem:
  "parse_toks (toks_of v @ ts) (PFirstElem fs) = parse_toks (toks_of v @ ts) (PValue (FArr [] # fs))"
  using toks_of_Cons [of v] by auto

lemma parse_elems:
  assumes "\<forall>v\<in>set (v # vs). reads v \<and> Suc (length fs) + depth v \<le> maxNestingDepth"
  shows "parse_toks (comma_join (map toks_of (v # vs)) @ TRBrack # ts) (PValue (FArr acc # fs)) =
    parse_toks ts (complete (JArr (rev acc @ v # vs)) fs)"
  using assms
proof (induction vs arbitrary: v acc)
  case Nil
  then show ?case by (simp add: reads_def)
next
  case (Cons w ws)
  then have "parse_toks (toks_of v @ TComma # comma_join (map toks_of (w # ws)) @ TRBrack # ts)
      (PValue (FArr acc # fs)) =
    parse_toks (comma_join (map toks_of (w # ws)) @ TRBrack # ts) (PValue (FArr (v # acc) # fs))"
    by (simp add: reads_def)
  also have "\<dots> = parse_toks ts (complete (JArr (rev (v # acc) @ w # ws)) fs)"
    using Cons.prems by (intro Cons.IH) auto
  finally show ?case by simp
qed

abbreviation member_toks :: "bytes \<times> json \<Rightarrow> tok list" where
  "member_toks \<equiv> \<lambda>(k, v). TStr k # TColon # toks_of v"

lemma parse_members:
  assumes "\<forall>(k, v)\<in>set (m # ms). reads v \<and> Suc (length fs) + depth v \<le> maxNestingDepth"
  shows "parse_toks (comma_join (map member_toks (m # ms)) @ TRBrace # ts) (PKey acc fs) =
    parse_toks ts (complete (JObj (rev acc @ m # ms)) fs)"
  using assms
proof (induction ms arbitrary: m acc)
  case Nil
  then show ?case by (cases m) (simp add: reads_def)
next
  case (Cons m' ms)
  obtain k v where m: "m = (k, v)" by (cases m)
  with Cons.prems have "parse_toks (toks_of v @ TComma #
        comma_join (map member_toks (m' # ms)) @ TRBrace # ts) (PValue (FObj acc k # fs)) =
      parse_toks (comma_join (map member_toks (m' # ms)) @ TRBrace # ts) (PKey ((k, v) # acc) fs)"
    by (simp add: reads_def)
  also have "\<dots> = parse_toks ts (complete (JObj (rev ((k, v) # acc) @ m' # ms)) fs)"
    using Cons.prems by (intro Cons.IH) auto
  finally show ?case by (simp add: m)
qed

lemma parse_first_key:
  "parse_toks (comma_join (map member_toks (m # ms)) @ ts) (PFirstKey fs) =
   parse_toks (comma_join (map member_toks (m # ms)) @ ts) (PKey [] fs)"
  by (cases ms) (auto split: prod.splits)

lemma fold_max_ge: "x \<in> set xs \<Longrightarrow> x \<le> fold max xs (n::nat)"
  using fold_max_le [of xs n "fold max xs n"] by simp

lemma depth_elem: "v \<in> set vs \<Longrightarrow> Suc (depth v) \<le> depth (JArr vs)"
  by (auto intro: fold_max_ge)

lemma depth_member: "(k, v) \<in> set ms \<Longrightarrow> Suc (depth v) \<le> depth (JObj ms)"
  by (force intro: fold_max_ge)

lemma reads_JArr:
  assumes "\<forall>v\<in>set vs. reads v"
  shows "reads (JArr vs)"
proof (cases vs)
  case Nil
  then show ?thesis by (simp add: reads_def)
next
  case (Cons w ws)
  have "parse_toks (toks_of (JArr vs) @ ts) (PValue fs) = parse_toks ts (complete (JArr vs) fs)"
    if d: "length fs + depth (JArr vs) \<le> maxNestingDepth" for ts fs
  proof -
    have ok: "\<forall>v\<in>set (w # ws). reads v \<and> Suc (length fs) + depth v \<le> maxNestingDepth"
      using assms Cons d depth_elem [of _ vs] by fastforce
    have "toks_of (JArr vs) @ ts = TLBrack # comma_join (map toks_of (w # ws)) @ TRBrack # ts"
      by (simp add: Cons)
    moreover have "parse_toks (TLBrack # comma_join (map toks_of (w # ws)) @ TRBrack # ts) (PValue fs)
      = parse_toks (comma_join (map toks_of (w # ws)) @ TRBrack # ts) (PFirstElem fs)"
      using d by simp
    moreover have "parse_toks (comma_join (map toks_of (w # ws)) @ TRBrack # ts) (PFirstElem fs)
      = parse_toks (comma_join (map toks_of (w # ws)) @ TRBrack # ts) (PValue (FArr [] # fs))"
      by (cases ws) (simp_all add: parse_first_elem)
    ultimately show ?thesis
      using parse_elems [OF ok, of ts "[]"] by (simp add: Cons)
  qed
  then show ?thesis by (simp add: reads_def)
qed

lemma reads_JObj:
  assumes "\<forall>(k, v)\<in>set ms. reads v"
  shows "reads (JObj ms)"
proof (cases ms)
  case Nil
  then show ?thesis by (simp add: reads_def)
next
  case (Cons n ns)
  have "parse_toks (toks_of (JObj ms) @ ts) (PValue fs) = parse_toks ts (complete (JObj ms) fs)"
    if d: "length fs + depth (JObj ms) \<le> maxNestingDepth" for ts fs
  proof -
    have ok: "\<forall>(k, v)\<in>set (n # ns). reads v \<and> Suc (length fs) + depth v \<le> maxNestingDepth"
      using assms Cons d depth_member [of _ _ ms] by fastforce
    have "toks_of (JObj ms) @ ts = TLBrace # comma_join (map member_toks (n # ns)) @ TRBrace # ts"
      by (simp add: Cons)
    moreover have "parse_toks (TLBrace # comma_join (map member_toks (n # ns)) @ TRBrace # ts) (PValue fs)
      = parse_toks (comma_join (map member_toks (n # ns)) @ TRBrace # ts) (PFirstKey fs)"
      using d by simp
    ultimately show ?thesis
      using parse_members [OF ok, of ts "[]"] by (simp only: parse_first_key) (simp add: Cons)
  qed
  then show ?thesis by (simp add: reads_def)
qed

lemma reads_all: "reads v"
proof (induction v)
  case (JArr vs)
  then show ?case by (intro reads_JArr) blast
next
  case (JObj ms)
  then show ?case by (intro reads_JObj) (auto intro: prod_set_simps)
qed (auto simp: reads_def)

subsection \<open>The lexer on the text of tokens\<close>

fun tok_ok :: "tok \<Rightarrow> bool" where
  "tok_ok (TStr b) = str_lit b"
| "tok_ok (TNum n) = num_lit n"
| "tok_ok _ = True"

definition delims :: "tok set" where
  "delims = {TComma, TRBrace, TRBrack}"

text \<open>A number is followed by a delimiter or by the end.\<close>

fun sep_ok :: "tok list \<Rightarrow> bool" where
  "sep_ok [] = True"
| "sep_ok (t # ts) \<longleftrightarrow>
     tok_ok t \<and> ((\<exists>n. t = TNum n) \<longrightarrow> ts = [] \<or> hd ts \<in> delims) \<and> sep_ok ts"

text \<open>A text at which a number literal ends.\<close>

definition stops :: "bytes \<Rightarrow> bool" where
  "stops r \<longleftrightarrow> r = [] \<or> hd r \<in> {CHR '','', CHR '']'', CHR ''}''}"

lemma stops_scans:
  assumes "stops r"
  shows "takeWhile is_digit r = []" "dropWhile is_digit r = r"
    "scan_frac r = Some ([], r)" "scan_exp r = Some ([], r)"
  using assms by (cases r; auto simp: stops_def is_digit_def in_range_def)+

lemma takeWhile_dropWhile_append_stops:
  assumes "stops r"
  shows "takeWhile is_digit (s @ r) = takeWhile is_digit s"
    "dropWhile is_digit (s @ r) = dropWhile is_digit s @ r"
proof -
  have "takeWhile is_digit (s @ r) = takeWhile is_digit s \<and>
    dropWhile is_digit (s @ r) = dropWhile is_digit s @ r"
    using stops_scans(1,2) [OF assms] by (induction s) auto
  then show "takeWhile is_digit (s @ r) = takeWhile is_digit s"
    "dropWhile is_digit (s @ r) = dropWhile is_digit s @ r" by auto
qed

lemmas append_stops = takeWhile_dropWhile_append_stops

lemma scan_digits1_append:
  "scan_digits1 p s = Some (b, q) \<Longrightarrow> stops r \<Longrightarrow> scan_digits1 p (s @ r) = Some (b, q @ r)"
  by (auto simp: scan_digits1_def append_stops split: if_splits)

lemma scan_int_append:
  "scan_int s = Some (b, q) \<Longrightarrow> stops r \<Longrightarrow> scan_int (s @ r) = Some (b, q @ r)"
  by (cases s) (auto simp: append_stops split: if_splits)

lemma scan_frac_append:
  "scan_frac s = Some (b, q) \<Longrightarrow> stops r \<Longrightarrow> scan_frac (s @ r) = Some (b, q @ r)"
  by (cases s) (auto simp: scan_digits1_append stops_scans split: if_splits)

lemma scan_exp_append:
  "scan_exp s = Some (b, q) \<Longrightarrow> stops r \<Longrightarrow> scan_exp (s @ r) = Some (b, q @ r)"
  by (cases s rule: scan_exp.cases)
     (auto simp: stops_scans dest: scan_digits1_append split: if_splits list.splits)

lemma scan_unsigned_append:
  assumes "scan_unsigned s = Some (b, q)" "stops r"
  shows "scan_unsigned (s @ r) = Some (b, q @ r)"
  using assms
  by (auto simp: scan_unsigned_def scan_int_append scan_frac_append scan_exp_append
      split: option.splits)

lemma scan_number_append:
  "scan_number s = Some (b, q) \<Longrightarrow> stops r \<Longrightarrow> scan_number (s @ r) = Some (b, q @ r)"
  using scan_unsigned_append [of s b q r]
  by (cases s) (auto simp: scan_unsigned_append split: if_splits)

lemma hex4_append: "hex4 s \<noteq> None \<Longrightarrow> hex4 (s @ r) = hex4 s"
  by (cases s rule: hex4.cases) auto

lemma str_item_append: "str_item s \<noteq> 0 \<Longrightarrow> str_item (s @ r) = str_item s"
  by (cases s rule: str_item.cases) (auto simp: hex4_append split: list.splits if_splits)

lemma hex4_length: "hex4 s = Some n \<Longrightarrow> 4 \<le> length s"
  by (cases s rule: hex4.cases) auto

lemma str_item_le: "str_item s \<le> length s"
  by (cases s rule: str_item.cases) (auto dest: hex4_length split: list.splits)

lemma str_item_hd: "str_item s \<noteq> 0 \<Longrightarrow> s \<noteq> [] \<and> hd s \<noteq> dq"
  by (cases s rule: str_item.cases) auto

text \<open>One element read, the rest read later.\<close>

lemma scan_str_item:
  assumes "str_item s \<noteq> 0"
  shows "scan_str s =
    map_option (\<lambda>(b, r). (take (str_item s) s @ b, r)) (scan_str (drop (str_item s) s))"
  using str_item_hd [OF assms] assms by (subst scan_str.simps) simp

lemma scan_str_quote [simp]: "scan_str (dq # r) = Some ([], r)"
  by (subst scan_str.simps) simp

lemma scan_str_append: "scan_str s = Some (b, q) \<Longrightarrow> scan_str (s @ r) = Some (b, q @ r)"
proof (induction s arbitrary: b q rule: scan_str.induct)
  case (1 s)
  show ?case
  proof (cases "s = [] \<or> hd s = dq \<or> str_item s = 0")
    case True
    with "1.prems" have "s \<noteq> [] \<and> hd s = dq \<and> b = [] \<and> q = tl s"
      by (subst (asm) scan_str.simps) (auto split: if_splits)
    then show ?thesis by (cases s) auto
  next
    case False
    then have item: "str_item s \<noteq> 0" by simp
    with "1.prems" obtain b' where b': "scan_str (drop (str_item s) s) = Some (b', q)"
      "b = take (str_item s) s @ b'"
      by (auto simp: scan_str_item)
    with False have "scan_str (drop (str_item s) s @ r) = Some (b', q @ r)"
      by (intro "1.IH") auto
    then show ?thesis
      using item b'(2) str_item_le [of s]
      by (subst scan_str_item) (auto simp: str_item_append)
  qed
qed

lemma str_lit_scan: "str_lit b \<Longrightarrow> scan_str (b @ dq # r) = Some (b, r)"
  unfolding str_lit_def using scan_str_append [of "b @ [dq]" b "[]" r] by simp

lemma num_lit_scan: "num_lit n \<Longrightarrow> stops r \<Longrightarrow> scan_number (n @ r) = Some (n, r)"
  unfolding num_lit_def using scan_number_append [of n n "[]" r] by simp

lemma num_lit_head:
  assumes "num_lit n"
  shows "\<exists>c cs. n = c # cs \<and> (c = CHR ''-'' \<or> is_digit c)"
proof (cases n)
  case Nil
  with assms show ?thesis by (simp add: num_lit_def)
next
  case (Cons c cs)
  with assms show ?thesis
    by (auto simp: num_lit_def scan_unsigned_def is_digit_def in_range_def
        split: if_splits option.splits)
qed

lemma digit_head_plain:
  assumes "c = CHR ''-'' \<or> is_digit c"
  shows "map_of punct c = None" "c \<noteq> dq" "\<not> is_ws c"
  using assms by (auto simp: punct_def is_digit_def in_range_def is_ws_def)

lemma lex_token_text:
  assumes "tok_ok t" "(\<exists>n. t = TNum n) \<longrightarrow> stops r"
  shows "lex_token (tok_text t @ r) = Some (t, r)"
proof (cases t)
  case (TNum n)
  with assms have n: "num_lit n" "stops r" by auto
  obtain c cs where c: "n = c # cs" "c = CHR ''-'' \<or> is_digit c"
    using num_lit_head [OF n(1)] by blast
  have "scan_number (n @ r) = Some (n, r)"
    using n by (rule num_lit_scan)
  with c digit_head_plain [OF c(2)] TNum show ?thesis
    by (simp del: scan_number.simps)
next
  case (TStr b)
  with assms have "scan_str (b @ dq # r) = Some (b, r)"
    by (simp add: str_lit_scan)
  with TStr show ?thesis
    by (simp add: punct_def)
qed (simp_all add: punct_def is_digit_def in_range_def)

lemma tok_text_no_ws: "tok_ok t \<Longrightarrow> tok_text t @ r \<noteq> [] \<and> \<not> is_ws (hd (tok_text t @ r))"
proof (cases t)
  case (TNum n)
  assume "tok_ok t"
  with TNum obtain c cs where c: "n = c # cs" "c = CHR ''-'' \<or> is_digit c"
    using num_lit_head [of n] by auto
  with digit_head_plain [OF c(2)] TNum show ?thesis by simp
qed (simp_all add: is_ws_def)

lemma lex_step:
  assumes "s \<noteq> []" "\<not> is_ws (hd s)" "lex_token s = Some (t, r)"
  shows "lex s = (([], t) # fst (lex r), snd (lex r))"
  using assms by (cases s) (auto simp: lex.simps [of s] lex.simps [of "_ # _"] split: prod.splits)

lemma stops_text:
  assumes "ts = [] \<or> hd ts \<in> delims"
  shows "stops (concat (map tok_text ts))"
  using assms by (cases ts) (auto simp: stops_def delims_def)

lemma lex_print: "sep_ok ts \<Longrightarrow> lex (concat (map tok_text ts)) = (map (Pair []) ts, True)"
proof (induction ts)
  case Nil
  show ?case by (subst lex.simps) simp
next
  case (Cons t ts)
  let ?r = "concat (map tok_text ts)"
  have "lex_token (tok_text t @ ?r) = Some (t, ?r)"
    using Cons.prems by (intro lex_token_text) (auto intro: stops_text)
  then have "lex (tok_text t @ ?r) = (([], t) # fst (lex ?r), snd (lex ?r))"
    using Cons.prems tok_text_no_ws [of t ?r] by (intro lex_step) auto
  with Cons show ?case by simp
qed

definition delimited :: "tok list \<Rightarrow> bool" where
  "delimited ts \<longleftrightarrow> sep_ok ts \<and> (ts = [] \<or> hd ts \<in> delims)"

lemma sep_ok_comma_join:
  assumes "\<forall>x\<in>set xs. \<forall>ts. delimited ts \<longrightarrow> sep_ok (x @ ts)" "delimited ts"
  shows "sep_ok (comma_join xs @ ts)"
  using assms
proof (induction xs rule: comma_join.induct)
  case 1
  then show ?case by (simp add: delimited_def)
next
  case (2 x)
  then show ?case by simp
next
  case (3 x y zs)
  then have "sep_ok (comma_join (y # zs) @ ts)" by simp
  then have "delimited (TComma # comma_join (y # zs) @ ts)"
    by (simp add: delimited_def delims_def)
  with 3 show ?case by simp
qed

lemma sep_ok_toks_of: "lits_ok v \<Longrightarrow> delimited ts \<Longrightarrow> sep_ok (toks_of v @ ts)"
proof (induction v arbitrary: ts)
  case (JArr vs)
  have "sep_ok (comma_join (map toks_of vs) @ TRBrack # ts)"
    using JArr by (intro sep_ok_comma_join) (auto simp: delimited_def delims_def)
  then show ?case by simp
next
  case (JObj ms)
  have "\<forall>x\<in>set (map member_toks ms). \<forall>ts. delimited ts \<longrightarrow> sep_ok (x @ ts)"
    using JObj.IH JObj.prems(1) by fastforce
  then have "sep_ok (comma_join (map member_toks ms) @ TRBrace # ts)"
    using JObj.prems(2) by (intro sep_ok_comma_join) (auto simp: delimited_def delims_def)
  then show ?case by simp
qed (auto simp: delimited_def)

theorem json_parse_print:
  assumes "json_wf v"
  shows "json_parse (json_print v) = Some v"
proof -
  have "sep_ok (toks_of v)"
    using sep_ok_toks_of [of v "[]"] assms by (simp add: json_wf_def delimited_def)
  then have "lex (json_print v) = (map (Pair []) (toks_of v), True)"
    by (simp add: json_print_def lex_print)
  moreover have "parse_toks (toks_of v) (PValue []) = Some (v, [])"
    using reads_all [of v, unfolded reads_def, rule_format, of "[]" "[]"] assms
    by (simp add: json_wf_def)
  ultimately show ?thesis
    by (simp add: json_parse_def comp_def)
qed

end
