(* ===== verification/Json_Values.thy ===== *)
theory Json_Values
  imports Json_Syntax
begin

text \<open>
  The value level of \<open>encoding/json\<close>: quoting and unquoting of strings, decoding of documents
  into Go values with the library's rules for \<open>null\<close>, unknown keys, repeated keys and case
  folding, and the raw member texts of an object that \<open>map[string]json.RawMessage\<close> receives.
  A decoder takes the previous value of its target, because \<open>null\<close> leaves most targets
  unchanged, and gives \<open>None\<close> where the library reports an error.
\<close>

section \<open>Quoting\<close>

definition hexdigit :: "nat \<Rightarrow> char" where
  "hexdigit n = (if n < 10 then char_of (48 + n) else char_of (87 + n))"

text \<open>The escape of an ASCII byte in \<open>appendString\<close> with HTML escaping.\<close>

definition quote_ascii :: "char \<Rightarrow> bytes" where
  "quote_ascii c =
     (if c = dq \<or> c = bsl then [bsl, c]
      else if byte c = 8 then [bsl, CHR ''b'']
      else if byte c = 12 then [bsl, CHR ''f'']
      else if byte c = 10 then [bsl, CHR ''n'']
      else if byte c = 13 then [bsl, CHR ''r'']
      else if byte c = 9 then [bsl, CHR ''t'']
      else if byte c < 32 \<or> c \<in> {CHR ''<'', CHR ''>'', CHR ''&''}
        then bsl # ''u00'' @ [hexdigit (byte c div 16), hexdigit (byte c mod 16)]
      else [c])"

abbreviation replacement :: bytes where
  "replacement \<equiv> [char_of (239::nat), char_of (191::nat), char_of (189::nat)]"

lemma encode_separators:
  "encode_rune 8232 = [CHR 0xE2, CHR 0x80, CHR 0xA8]" "encode_rune 8233 = [CHR 0xE2, CHR 0x80, CHR 0xA9]"
  by (simp_all add: encode_rune_def char_of_def bit_0)

definition quote_rune :: "bytes \<Rightarrow> bytes" where
  "quote_rune r =
     (if r = encode_rune 8232 then bsl # ''u2028''
      else if r = encode_rune 8233 then bsl # ''u2029'' else r)"

lemma quote_rune_code [code]:
  "quote_rune r = (if r = [CHR 0xE2, CHR 0x80, CHR 0xA8] then bsl # ''u2028''
      else if r = [CHR 0xE2, CHR 0x80, CHR 0xA9] then bsl # ''u2029'' else r)"
  by (simp add: quote_rune_def encode_separators)

function quote_body :: "bytes \<Rightarrow> bytes" where
  "quote_body s =
     (case s of [] \<Rightarrow> []
      | c # cs \<Rightarrow>
          (if byte c < 128 then quote_ascii c @ quote_body cs
           else if rune_len s = 0 then bsl # ''ufffd'' @ quote_body cs
           else quote_rune (take (rune_len s) s) @ quote_body (drop (rune_len s) s)))"
  by pat_completeness auto
termination
  by (relation "measure length") auto

declare quote_body.simps [simp del]

text \<open>For evaluation: one recursive call.\<close>

definition quote_step :: "char \<Rightarrow> bytes \<Rightarrow> bytes \<times> nat" where
  "quote_step c s =
     (if byte c < 128 then (quote_ascii c, 1)
      else if rune_len s = 0 then (bsl # ''ufffd'', 1)
      else (quote_rune (take (rune_len s) s), rune_len s))"

lemma quote_body_code [code]:
  "quote_body s = (case s of [] \<Rightarrow> []
     | c # cs \<Rightarrow> (case quote_step c s of (t, n) \<Rightarrow> t @ quote_body (drop n s)))"
  by (subst quote_body.simps) (auto simp: quote_step_def split: list.splits)

section \<open>Unquoting\<close>

definition unescape :: "char \<Rightarrow> char" where
  "unescape d =
     (if d = CHR ''b'' then char_of (8::nat) else if d = CHR ''f'' then char_of (12::nat)
      else if d = CHR ''n'' then char_of (10::nat) else if d = CHR ''r'' then char_of (13::nat)
      else if d = CHR ''t'' then char_of (9::nat) else d)"

definition is_surrogate :: "nat \<Rightarrow> bool" where
  "is_surrogate n \<longleftrightarrow> 55296 \<le> n \<and> n < 57344"

text \<open>A second \<open>\u\<close> escape that completes a surrogate pair.\<close>

fun low_surrogate :: "bytes \<Rightarrow> nat option" where
  "low_surrogate (b # u # r) =
     (if b = bsl \<and> u = CHR ''u'' then
        (case hex4 r of
           Some n \<Rightarrow> (if 56320 \<le> n \<and> n < 57344 then Some n else None)
         | None \<Rightarrow> None)
      else None)"
| "low_surrogate _ = None"

text \<open>One step of \<open>unquoteBytes\<close> on a nonempty body: the bytes produced and the number of
  bytes read.\<close>

definition unquote_step :: "bytes \<Rightarrow> bytes \<times> nat" where
  "unquote_step s =
     (case s of
        [] \<Rightarrow> ([], 1)
      | c # cs \<Rightarrow>
          (if c = bsl then
             (case cs of
                [] \<Rightarrow> ([], 1)
              | d # ds \<Rightarrow>
                  (if d \<noteq> CHR ''u'' then ([unescape d], 2)
                   else (case hex4 ds of
                      None \<Rightarrow> ([], 2)
                    | Some n \<Rightarrow>
                        (if \<not> is_surrogate n then (encode_rune n, 6)
                         else (case (n < 56320, low_surrogate (drop 4 ds)) of
                            (True, Some m) \<Rightarrow>
                              (encode_rune (65536 + (n - 55296) * 1024 + (m - 56320)), 12)
                          | _ \<Rightarrow> (replacement, 6)))))) 
           else if byte c < 128 then ([c], 1)
           else if rune_len s = 0 then (replacement, 1)
           else (take (rune_len s) s, rune_len s)))"

lemma unquote_step_pos: "0 < snd (unquote_step s)"
  by (auto simp: unquote_step_def split: list.splits option.splits bool.splits)

function unquote :: "bytes \<Rightarrow> bytes" where
  "unquote s =
     (case s of [] \<Rightarrow> []
      | c # cs \<Rightarrow> fst (unquote_step s) @ unquote (drop (snd (unquote_step s)) s))"
  by pat_completeness auto
termination
  by (relation "measure length") (auto simp: unquote_step_pos)

declare unquote.simps [simp del]

section \<open>Decoding\<close>

text \<open>A \<open>string\<close>, a \<open>bool\<close>.\<close>

fun dec_string :: "json \<Rightarrow> bytes \<Rightarrow> bytes option" where
  "dec_string (JStr b) old = Some (unquote b)"
| "dec_string JNull old = Some old"
| "dec_string _ old = None"

fun dec_bool :: "json \<Rightarrow> bool \<Rightarrow> bool option" where
  "dec_bool (JBool b) old = Some b"
| "dec_bool JNull old = Some old"
| "dec_bool _ old = None"

text \<open>A map: \<open>null\<close> makes it nil, an object adds its members one after the other, each decoded
  into a zero value.\<close>

fun dec_members :: "(json \<Rightarrow> 'v option) \<Rightarrow> (bytes \<times> json) list \<Rightarrow> (bytes, 'v) gomap
    \<Rightarrow> (bytes, 'v) gomap option" where
  "dec_members f [] m = Some m"
| "dec_members f ((k, v) # ms) m =
     (case f v of None \<Rightarrow> None | Some x \<Rightarrow> dec_members f ms (AList.update (unquote k) x m))"

fun dec_map :: "(json \<Rightarrow> 'v option) \<Rightarrow> json \<Rightarrow> (bytes, 'v) nmap \<Rightarrow> (bytes, 'v) nmap option" where
  "dec_map f (JObj ms) old = map_option Some (dec_members f ms (entries old))"
| "dec_map f JNull old = Some None"
| "dec_map f _ old = None"

text \<open>A \<open>[]string\<close>: the elements replace those of the previous slice; a \<open>null\<close> element keeps
  the previous element at its index, and is empty beyond the end of the previous slice. (Go finds
  there what an even earlier array of the same member has left within the capacity of the slice,
  which takes a document that repeats the member three times; this is not modelled.)\<close>

fun dec_strings :: "json list \<Rightarrow> bytes list \<Rightarrow> bytes list option" where
  "dec_strings [] old = Some []"
| "dec_strings (v # vs) old =
     (case dec_string v (case old of [] \<Rightarrow> [] | x # _ \<Rightarrow> x) of
        None \<Rightarrow> None
      | Some s \<Rightarrow> map_option ((#) s) (dec_strings vs (drop 1 old)))"

fun dec_slice :: "json \<Rightarrow> bytes list \<Rightarrow> bytes list option" where
  "dec_slice (JArr vs) old = dec_strings vs old"
| "dec_slice JNull old = Some []"
| "dec_slice _ old = None"

text \<open>A struct: each member goes to the field with that name, else to the first field whose
  name folds to the same, else it is ignored.\<close>

type_synonym 's field = "bytes \<times> (json \<Rightarrow> 's \<Rightarrow> 's option)"

definition find_field :: "'s field list \<Rightarrow> bytes \<Rightarrow> (json \<Rightarrow> 's \<Rightarrow> 's option) option" where
  "find_field fs k =
     (case map_of fs k of
        Some d \<Rightarrow> Some d
      | None \<Rightarrow> map_of (map (\<lambda>(n, d). (foldName n, d)) fs) (foldName k))"

fun dec_fields :: "'s field list \<Rightarrow> (bytes \<times> json) list \<Rightarrow> 's \<Rightarrow> 's option" where
  "dec_fields fs [] s = Some s"
| "dec_fields fs ((k, v) # ms) s =
     (case find_field fs (unquote k) of
        None \<Rightarrow> dec_fields fs ms s
      | Some d \<Rightarrow> (case d v s of None \<Rightarrow> None | Some s' \<Rightarrow> dec_fields fs ms s'))"

fun dec_struct :: "'s field list \<Rightarrow> json \<Rightarrow> 's \<Rightarrow> 's option" where
  "dec_struct fs (JObj ms) s = dec_fields fs ms s"
| "dec_struct fs JNull s = Some s"
| "dec_struct fs _ s = None"

text \<open>\<open>json.Unmarshal\<close>: the whole text is checked first, then decoded.\<close>

definition Unmarshal :: "(json \<Rightarrow> 'a \<Rightarrow> 'a option) \<Rightarrow> bytes \<Rightarrow> 'a \<Rightarrow> 'a result" where
  "Unmarshal d s old =
     (case json_parse s of
        None \<Rightarrow> Inl ErrJson
      | Some v \<Rightarrow> (case d v old of None \<Rightarrow> Inl ErrJson | Some x \<Rightarrow> Inr x))"

text \<open>\<open>json.NewDecoder(r).Decode\<close>.\<close>

definition Decode :: "(json \<Rightarrow> 'a \<Rightarrow> 'a option) \<Rightarrow> bytes \<Rightarrow> 'a \<Rightarrow> 'a result" where
  "Decode d s old =
     (case json_decode_first s of
        None \<Rightarrow> Inl ErrJson
      | Some v \<Rightarrow> (case d v old of None \<Rightarrow> Inl ErrJson | Some x \<Rightarrow> Inr x))"

section \<open>Encoding\<close>

definition enc_string :: "bytes \<Rightarrow> json" where
  "enc_string s = JStr (quote_body s)"

text \<open>A map is written with its keys in ascending order.\<close>

definition enc_map :: "(bytes, json) gomap \<Rightarrow> json" where
  "enc_map m = JObj (map (\<lambda>(k, v). (quote_body k, v)) (sort_key fst m))"

text \<open>\<open>compact\<close> with HTML escaping of the literals of a \<open>json.RawMessage\<close>.\<close>

definition html_char :: "char \<Rightarrow> bytes" where
  "html_char c =
     (if c \<in> {CHR ''<'', CHR ''>'', CHR ''&''}
      then bsl # ''u00'' @ [hexdigit (byte c div 16), hexdigit (byte c mod 16)] else [c])"

function html_escape :: "bytes \<Rightarrow> bytes" where
  "html_escape s =
     (case s of [] \<Rightarrow> []
      | c # cs \<Rightarrow>
          (if take 3 s = encode_rune 8232 then bsl # ''u2028'' @ html_escape (drop 3 s)
           else if take 3 s = encode_rune 8233 then bsl # ''u2029'' @ html_escape (drop 3 s)
           else html_char c @ html_escape cs))"
  by pat_completeness auto
termination
  by (relation "measure length") auto

declare html_escape.simps [simp del]

definition html_step :: "char \<Rightarrow> bytes \<Rightarrow> bytes \<times> nat" where
  "html_step c s =
     (if take 3 s = encode_rune 8232 then (bsl # ''u2028'', 3)
      else if take 3 s = encode_rune 8233 then (bsl # ''u2029'', 3)
      else (html_char c, 1))"

lemma html_step_code [code]:
  "html_step c s =
     (if take 3 s = [CHR 0xE2, CHR 0x80, CHR 0xA8] then (bsl # ''u2028'', 3)
      else if take 3 s = [CHR 0xE2, CHR 0x80, CHR 0xA9] then (bsl # ''u2029'', 3)
      else (html_char c, 1))"
  by (simp add: html_step_def encode_separators)

lemma html_escape_code [code]:
  "html_escape s = (case s of [] \<Rightarrow> []
     | c # cs \<Rightarrow> (case html_step c s of (t, n) \<Rightarrow> t @ html_escape (drop n s)))"
  by (subst html_escape.simps) (auto simp: html_step_def split: list.splits)

definition Marshal_raw :: "bytes \<Rightarrow> bytes result" where
  "Marshal_raw raw =
     (case json_parse raw of None \<Rightarrow> Inl ErrJson | Some v \<Rightarrow> Inr (html_escape (json_print v)))"

section \<open>Raw member texts\<close>

text \<open>The lexemes of the value that starts here (up to a comma or the closing brace at depth
  0) and what follows.\<close>

fun take_value :: "nat \<Rightarrow> lexeme list \<Rightarrow> lexeme list \<times> lexeme list" where
  "take_value d [] = ([], [])"
| "take_value d ((w, t) # ls) =
     (if d = 0 \<and> (t = TComma \<or> t = TRBrace) then ([], (w, t) # ls)
      else let d' = (if t = TLBrace \<or> t = TLBrack then Suc d
                     else if t = TRBrace \<or> t = TRBrack then d - 1 else d);
               (a, b) = take_value d' ls
           in ((w, t) # a, b))"

definition span_text :: "lexeme list \<Rightarrow> bytes" where
  "span_text ls =
     (case ls of [] \<Rightarrow> []
      | (w, t) # ls' \<Rightarrow> tok_text t @ concat (map (\<lambda>(w, t). w @ tok_text t) ls'))"

lemma take_value_length: "length (snd (take_value d ls)) \<le> length ls"
  by (induction d ls rule: take_value.induct) (auto simp: Let_def split: prod.splits)

function (sequential) member_spans :: "lexeme list \<Rightarrow> (bytes \<times> bytes) list" where
  "member_spans ((_, TStr k) # (_, TColon) # ls) =
     (let (a, b) = take_value 0 ls in (k, span_text a) #
       (case b of (_, TComma) # b' \<Rightarrow> member_spans b' | _ \<Rightarrow> []))"
| "member_spans _ = []"
  by pat_completeness auto
termination
proof (relation "measure length", goal_cases)
  case 1
  then show ?case by simp
next
  case (2 w k w' ls x a b l ls' p1 p2)
  then have "length b \<le> length ls"
    by (metis snd_conv take_value_length)
  with 2 show ?case by simp
qed

text \<open>\<open>json.Unmarshal\<close> into an empty or nil \<open>map[string]json.RawMessage\<close>; the document \<open>null\<close>
  leaves the map nil.\<close>

definition Unmarshal_raw_map :: "bytes \<Rightarrow> (bytes, bytes) nmap result" where
  "Unmarshal_raw_map s =
     (case json_parse s of
        Some (JObj ms) \<Rightarrow>
          Inr (Some (fold (\<lambda>p m. AList.update (fst p) (snd p) m)
                 (map (\<lambda>(k, r). (unquote k, r)) (member_spans (drop 1 (fst (lex s))))) []))
      | Some JNull \<Rightarrow> Inr None
      | _ \<Rightarrow> Inl ErrJson)"

section \<open>Quoted strings are literals, and unquoting gives them back\<close>

lemma hexval_hexdigit [simp]: "n < 16 \<Longrightarrow> hexval (hexdigit n) = Some n"
  by (auto simp: hexval_def hexdigit_def in_range_def)

lemma hexval_0 [simp]: "hexval (CHR ''0'') = Some 0"
  by (simp add: hexval_def in_range_def)

lemma hex4_quote_ascii:
  "byte c < 128 \<Longrightarrow>
   hex4 (CHR ''0'' # CHR ''0'' # hexdigit (byte c div 16) # hexdigit (byte c mod 16) # r) =
   Some (byte c)"
  by (simp add: less_mult_imp_div_less)

text \<open>A text that the string scanner reads as a whole before it goes on.\<close>

definition str_piece :: "bytes \<Rightarrow> bool" where
  "str_piece p \<longleftrightarrow> (\<forall>r b q. scan_str r = Some (b, q) \<longrightarrow> scan_str (p @ r) = Some (p @ b, q))"

lemma str_piece_Nil: "str_piece []"
  by (simp add: str_piece_def)

lemma str_piece_append: "str_piece p \<Longrightarrow> str_piece q \<Longrightarrow> str_piece (p @ q)"
  by (simp add: str_piece_def)

lemma str_piece_item:
  assumes "\<And>r. str_item (p @ r) = length p" "p \<noteq> []"
  shows "str_piece p"
  using assms by (simp add: str_piece_def scan_str_item)

lemma str_piece_byte: "32 \<le> byte c \<Longrightarrow> c \<noteq> dq \<Longrightarrow> c \<noteq> bsl \<Longrightarrow> str_piece [c]"
  by (rule str_piece_item) auto

lemma str_piece_high: "\<forall>c\<in>set p. 128 \<le> byte c \<Longrightarrow> str_piece p"
proof (induction p)
  case Nil
  show ?case by (rule str_piece_Nil)
next
  case (Cons c p)
  then have "str_piece [c]" by (intro str_piece_byte) auto
  with Cons show ?case using str_piece_append [of "[c]" p] by simp
qed

lemma str_piece_escape: "d \<in> set simple_escapes \<Longrightarrow> str_piece [bsl, d]"
  by (rule str_piece_item) auto

lemma str_piece_u: "\<forall>r. hex4 (h @ r) \<noteq> None \<Longrightarrow> length h = 4 \<Longrightarrow> str_piece (bsl # CHR ''u'' # h)"
  by (rule str_piece_item) (auto simp: simple_escapes_def)

lemma str_piece_quote_ascii:
  assumes "byte c < 128"
  shows "str_piece (quote_ascii c)"
proof -
  have u: "str_piece (bsl # CHR ''u'' # [CHR ''0'', CHR ''0'', hexdigit (byte c div 16),
    hexdigit (byte c mod 16)])"
    using hex4_quote_ascii [OF assms] by (intro str_piece_u) auto
  have e: "d \<in> set simple_escapes \<Longrightarrow> str_piece [bsl, d]" for d
    by (rule str_piece_escape)
  show ?thesis
    using u e [of c] e [of "CHR ''b''"] e [of "CHR ''f''"] e [of "CHR ''n''"] e [of "CHR ''r''"]
      e [of "CHR ''t''"] str_piece_byte [of c]
    by (auto simp: quote_ascii_def simple_escapes_def not_less)
qed

lemma encode_8232: "encode_rune 8232 = [char_of (226::nat), char_of (128::nat), char_of (168::nat)]"
  by (simp add: encode_rune_def)

lemma encode_8233: "encode_rune 8233 = [char_of (226::nat), char_of (128::nat), char_of (169::nat)]"
  by (simp add: encode_rune_def)

lemma str_piece_const_u:
  "str_piece (bsl # ''u2028'')" "str_piece (bsl # ''u2029'')" "str_piece (bsl # ''ufffd'')"
  by (rule str_piece_u; simp add: hexval_def in_range_def)+

lemma str_piece_quote_rune:
  assumes "rune_len s \<noteq> 0" "128 \<le> byte (hd s)"
  shows "str_piece (quote_rune (take (rune_len s) s))"
  using str_piece_const_u str_piece_high [OF rune_len_high [OF assms]]
  by (simp add: quote_rune_def)

lemma str_piece_quote_body: "str_piece (quote_body s)"
proof (induction s rule: quote_body.induct)
  case (1 s)
  show ?case
  proof (cases s)
    case Nil
    then show ?thesis by (subst quote_body.simps) (simp add: str_piece_Nil)
  next
    case (Cons c cs)
    consider (ascii) "byte c < 128" | (bad) "128 \<le> byte c" "rune_len s = 0"
      | (good) "128 \<le> byte c" "rune_len s \<noteq> 0"
      by linarith
    then show ?thesis
    proof cases
      case ascii
      with Cons 1 show ?thesis
        by (subst quote_body.simps) (simp add: str_piece_append str_piece_quote_ascii)
    next
      case bad
      with Cons 1 str_piece_append [OF str_piece_const_u(3)] show ?thesis
        by (subst quote_body.simps) simp
    next
      case good
      with str_piece_quote_rune [of s] Cons have "str_piece (quote_rune (take (rune_len s) s))"
        by simp
      with good Cons 1 show ?thesis
        by (subst quote_body.simps) (simp add: str_piece_append)
    qed
  qed
qed

lemma str_lit_quote [simp]: "str_lit (quote_body s)"
  using str_piece_quote_body [of s] by (simp add: str_piece_def str_lit_def)

lemma unquote_Nil [simp]: "unquote [] = []"
  by (subst unquote.simps) simp

lemma unquote_unfold:
  assumes "s \<noteq> []" "unquote_step s = (out, n)"
  shows "unquote s = out @ unquote (drop n s)"
  using assms by (subst unquote.simps) (auto split: list.splits)

lemma unquote_step_quote_ascii:
  assumes "byte c < 128"
  shows "unquote_step (quote_ascii c @ r) = ([c], length (quote_ascii c))"
proof -
  have u: "unquote_step (bsl # CHR ''u'' # CHR ''0'' # CHR ''0'' # hexdigit (byte c div 16) #
      hexdigit (byte c mod 16) # r) = ([c], 6)"
    using hex4_quote_ascii [OF assms, of r] assms
    by (simp add: unquote_step_def is_surrogate_def encode_rune_def)
  have same: "char_of n = c" if "byte c = n" for n
    using that by auto
  show ?thesis
  proof (cases "quote_ascii c =
      bsl # ''u00'' @ [hexdigit (byte c div 16), hexdigit (byte c mod 16)]")
    case True
    then show ?thesis using u by simp
  next
    case False
    then show ?thesis
      using assms by (auto simp: quote_ascii_def unquote_step_def unescape_def same)
  qed
qed

lemma unquote_quote_ascii:
  assumes "byte c < 128"
  shows "unquote (quote_ascii c @ r) = c # unquote r"
proof -
  have "quote_ascii c \<noteq> []" by (simp add: quote_ascii_def)
  then show ?thesis
    using unquote_unfold [OF _ unquote_step_quote_ascii [OF assms, of r]] by simp
qed

lemma unquote_const_u:
  "unquote (bsl # ''u2028'' @ r) = encode_rune 8232 @ unquote r"
  "unquote (bsl # ''u2029'' @ r) = encode_rune 8233 @ unquote r"
  by (simp_all add: unquote_unfold [of "bsl # _" _ 6] unquote_step_def hexval_def in_range_def
      is_surrogate_def)

lemma unquote_high_rune:
  assumes "rune_len s \<noteq> 0" "128 \<le> byte (hd s)"
  shows "unquote (take (rune_len s) s @ r) = take (rune_len s) s @ unquote r"
proof -
  let ?p = "take (rune_len s) s"
  have len: "length ?p = rune_len s"
    using rune_len_le [of s] by simp
  then obtain c cs where c: "?p = c # cs"
    using assms(1) by (cases ?p) auto
  then have "128 \<le> byte c"
    using rune_len_high [OF assms] by simp
  then have "c \<noteq> bsl" "\<not> byte c < 128" by auto
  moreover have "take (rune_len s) (?p @ r) = ?p"
    using len by (metis append_eq_conv_conj)
  ultimately have "unquote_step (?p @ r) = (?p, rune_len s)"
    using rune_len_take [OF assms(1), of r] assms(1)
    unfolding c by (simp add: unquote_step_def)
  moreover have "drop (rune_len s) (?p @ r) = r"
    using len by (metis append_eq_conv_conj)
  moreover have "?p @ r \<noteq> []"
    using c by simp
  ultimately show ?thesis
    by (simp only: unquote_unfold [of "?p @ r" ?p "rune_len s"] simp_thms)
qed

lemma unquote_quote_rune:
  assumes "rune_len s \<noteq> 0" "128 \<le> byte (hd s)"
  shows "unquote (quote_rune (take (rune_len s) s) @ r) = take (rune_len s) s @ unquote r"
  using unquote_high_rune [OF assms, of r] unquote_const_u [of r]
  by (simp add: quote_rune_def)

lemma utf8_valid_drop:
  assumes "utf8_valid s" "s \<noteq> []"
  shows "rune_len s \<noteq> 0 \<and> utf8_valid (drop (rune_len s) s)"
  using assms unfolding utf8_valid_def
  by (subst (asm) utf8_count.simps) (auto split: if_splits list.splits)

lemma unquote_quote: "utf8_valid s \<Longrightarrow> unquote (quote_body s) = s"
proof (induction s rule: quote_body.induct)
  case (1 s)
  show ?case
  proof (cases s)
    case Nil
    then show ?thesis by (simp add: quote_body.simps)
  next
    case (Cons c cs)
    show ?thesis
    proof (cases "byte c < 128")
      case True
      with 1 Cons show ?thesis
        by (subst quote_body.simps) (simp add: unquote_quote_ascii)
    next
      case False
      have drop: "rune_len s \<noteq> 0" "utf8_valid (drop (rune_len s) s)"
        using utf8_valid_drop [OF "1.prems"] Cons by auto
      have "unquote (quote_body s) =
          unquote (quote_rune (take (rune_len s) s) @ quote_body (drop (rune_len s) s))"
        using False Cons drop(1) by (subst quote_body.simps) simp
      also have "\<dots> = take (rune_len s) s @ drop (rune_len s) s"
        using False Cons drop 1 unquote_quote_rune [of s] by simp
      finally show ?thesis by simp
    qed
  qed
qed

lemma quote_inj: "utf8_valid s \<Longrightarrow> utf8_valid t \<Longrightarrow> quote_body s = quote_body t \<longleftrightarrow> s = t"
  by (metis unquote_quote)

end
