(* ===== verification/Domain.thy ===== *)
theory Domain
  imports Json_Values
begin

text \<open>
  Package \<open>domain\<close>: measurements with one or several expected values, builders with their
  service credentials, the in-memory secret store, and the JSON form of a measurement
  template, which the database stores and the admin API receives.
\<close>

section \<open>Measurements\<close>

record SingleMeasurement =
  Expected :: bytes
  ExpectedAny :: "bytes list"

record Measurement =
  M_Name :: bytes
  M_AttestationType :: bytes
  M_Measurement :: "(bytes, SingleMeasurement) nmap"

definition GetExpectedValues :: "SingleMeasurement \<Rightarrow> bytes list" where
  "GetExpectedValues s =
     (if length (ExpectedAny s) > 0 then ExpectedAny s
      else if Expected s \<noteq> [] then [Expected s]
      else [])"

definition NewMeasurement :: "bytes \<Rightarrow> bytes \<Rightarrow> (bytes, SingleMeasurement) nmap \<Rightarrow> Measurement" where
  "NewMeasurement name attestationType measurements =
     \<lparr>M_Name = name, M_AttestationType = attestationType, M_Measurement = measurements\<rparr>"

section \<open>Builders\<close>

record Builder =
  B_Name :: bytes
  B_IPAddress :: bytes
  B_IsActive :: bool
  B_Network :: bytes
  B_DNSName :: bytes

record BuilderServices =
  S_TLSCert :: bytes
  S_ECDSAPubKey :: "bytes option"
  S_Service :: bytes
  S_Region :: bytes

record BuilderWithServices =
  BWS_Builder :: Builder
  BWS_Services :: "BuilderServices list"

definition ProductionNetwork :: bytes where
  "ProductionNetwork = ''production''"

definition EventGetConfig :: bytes where
  "EventGetConfig = ''GetConfig''"

definition Bytes2Address :: "ext \<Rightarrow> bytes \<Rightarrow> bytes option" where
  "Bytes2Address x b = (if length b = 0 then None else Some (eth_BytesToAddress x b))"

section \<open>The in-memory secret store\<close>

text \<open>The map behind the read-write lock; each operation holds the lock for its whole body, so
  operations are atomic steps on the map.\<close>

record InmemorySecretService =
  st :: "(bytes, bytes) gomap"

definition NewMockSecretService :: InmemorySecretService where
  "NewMockSecretService = \<lparr>st = []\<rparr>"

definition inmem_GetSecretValues :: "InmemorySecretService \<Rightarrow> bytes \<Rightarrow> bytes result" where
  "inmem_GetSecretValues mss builderName =
     Inr (case map_of (st mss) builderName of None \<Rightarrow> [] | Some v \<Rightarrow> v)"

definition inmem_SetSecretValues ::
  "InmemorySecretService \<Rightarrow> bytes \<Rightarrow> bytes \<Rightarrow> go_error option \<times> InmemorySecretService" where
  "inmem_SetSecretValues mss builderName values =
     (None, mss\<lparr>st := AList.update builderName values (st mss)\<rparr>)"

section \<open>The JSON form of measurements\<close>

text \<open>The struct tags of \<open>SingleMeasurement\<close>: \<open>expected,omitempty\<close> and
  \<open>expected_any,omitempty\<close>.\<close>

definition enc_single :: "SingleMeasurement \<Rightarrow> json" where
  "enc_single s = JObj
     ((if Expected s = [] then [] else [(''expected'', enc_string (Expected s))]) @
      (if ExpectedAny s = [] then [] else [(''expected_any'', JArr (map enc_string (ExpectedAny s)))]))"

definition single_fields :: "SingleMeasurement field list" where
  "single_fields =
     [(''expected'', \<lambda>v s. map_option (\<lambda>e. s\<lparr>Expected := e\<rparr>) (dec_string v (Expected s))),
      (''expected_any'', \<lambda>v s. map_option (\<lambda>e. s\<lparr>ExpectedAny := e\<rparr>) (dec_slice v (ExpectedAny s)))]"

definition zero_single :: SingleMeasurement where
  "zero_single = \<lparr>Expected = [], ExpectedAny = []\<rparr>"

definition dec_single :: "json \<Rightarrow> SingleMeasurement option" where
  "dec_single v = dec_struct single_fields v zero_single"

text \<open>A template; a nil map is written as \<open>null\<close>.\<close>

definition enc_singles :: "(bytes, SingleMeasurement) nmap \<Rightarrow> json" where
  "enc_singles m =
     (case m of None \<Rightarrow> JNull | Some l \<Rightarrow> enc_map (map (\<lambda>(k, s). (k, enc_single s)) l))"

definition dec_singles ::
  "json \<Rightarrow> (bytes, SingleMeasurement) nmap \<Rightarrow> (bytes, SingleMeasurement) nmap option" where
  "dec_singles = dec_map dec_single"

text \<open>\<open>json.Marshal\<close> of a template.\<close>

definition Marshal_singles :: "(bytes, SingleMeasurement) nmap \<Rightarrow> bytes" where
  "Marshal_singles m = json_print (enc_singles m)"

section \<open>Lemmas\<close>

subsection \<open>Expected values\<close>

lemma set_GetExpectedValues:
  "set (GetExpectedValues s) =
     (if ExpectedAny s \<noteq> [] then set (ExpectedAny s)
      else if Expected s \<noteq> [] then {Expected s} else {})"
  by (simp add: GetExpectedValues_def)

lemma inmem_get_set:
  "inmem_GetSecretValues (snd (inmem_SetSecretValues m b v)) b' =
     (if b' = b then Inr v else inmem_GetSecretValues m b')"
  by (simp add: inmem_GetSecretValues_def inmem_SetSecretValues_def update_conv')

subsection \<open>A marshalled template is read back\<close>

definition text_ok :: "SingleMeasurement \<Rightarrow> bool" where
  "text_ok s \<longleftrightarrow> utf8_valid (Expected s) \<and> (\<forall>e\<in>set (ExpectedAny s). utf8_valid e)"

definition template_ok :: "(bytes, SingleMeasurement) nmap \<Rightarrow> bool" where
  "template_ok m \<longleftrightarrow>
     distinct (map fst (entries m)) \<and> (\<forall>(k, s)\<in>set (entries m). utf8_valid k \<and> text_ok s)"

text \<open>The same map with its entries in key order.\<close>

definition in_key_order :: "(bytes, 'v) nmap \<Rightarrow> (bytes, 'v) nmap" where
  "in_key_order m = map_option (sort_key fst) m"

lemma unquote_tags [simp]:
  "unquote ''expected'' = ''expected''" "unquote ''expected_any'' = ''expected_any''"
  by code_simp+

lemma str_lit_tags [simp]: "str_lit ''expected''" "str_lit ''expected_any''"
  by code_simp+

lemma find_single_fields [simp]:
  "find_field single_fields ''expected'' =
     Some (\<lambda>v s. map_option (\<lambda>e. s\<lparr>Expected := e\<rparr>) (dec_string v (Expected s)))"
  "find_field single_fields ''expected_any'' =
     Some (\<lambda>v s. map_option (\<lambda>e. s\<lparr>ExpectedAny := e\<rparr>) (dec_slice v (ExpectedAny s)))"
  by (simp_all add: find_field_def single_fields_def)

lemma dec_string_enc [simp]: "utf8_valid s \<Longrightarrow> dec_string (enc_string s) old = Some s"
  by (simp add: enc_string_def unquote_quote)

lemma dec_strings_enc: "\<forall>s\<in>set ss. utf8_valid s \<Longrightarrow> dec_strings (map enc_string ss) old = Some ss"
  by (induction ss arbitrary: old) auto

lemma dec_single_enc: "text_ok s \<Longrightarrow> dec_single (enc_single s) = Some s"
  by (cases s) (auto simp: dec_single_def enc_single_def zero_single_def text_ok_def dec_strings_enc)

lemma update_new: "k \<notin> fst ` set m \<Longrightarrow> AList.update k v m = m @ [(k, v)]"
  by (induction m) auto

lemma dec_members_enc:
  assumes "\<forall>(k, v)\<in>set xs. utf8_valid k \<and> f (g v) = Some v" "distinct (map fst (m @ xs))"
  shows "dec_members f (map (\<lambda>(k, v). (quote_body k, g v)) xs) m = Some (m @ xs)"
  using assms
proof (induction xs arbitrary: m)
  case Nil
  then show ?case by simp
next
  case (Cons p xs)
  obtain k v where p: "p = (k, v)" by (cases p)
  with Cons.prems have "AList.update k v m = m @ [(k, v)]"
    by (intro update_new) auto
  with Cons p show ?case by (simp add: unquote_quote)
qed

text \<open>Sorting by key commutes with a map over the values.\<close>

lemma sort_key_map_snd:
  "sort_key fst (map (\<lambda>(k, v). (k, g v)) m) = map (\<lambda>(k, v). (k, g v)) (sort_key fst m)"
proof -
  have ins: "insort_key fst (k, g v) (map (\<lambda>(k, v). (k, g v)) m) =
      map (\<lambda>(k, v). (k, g v)) (insort_key fst (k, v) m)" for k v m
    by (induction m) auto
  show ?thesis by (induction m) (auto simp: ins)
qed

lemma enc_map_values:
  "enc_map (map (\<lambda>(k, v). (k, g v)) m) =
     JObj (map (\<lambda>(k, v). (quote_body k, g v)) (sort_key fst m))"
  unfolding enc_map_def sort_key_map_snd by auto

lemma dec_map_enc:
  assumes "\<forall>(k, v)\<in>set m. utf8_valid k \<and> f (g v) = Some v" "distinct (map fst m)" "entries old = []"
  shows "dec_map f (enc_map (map (\<lambda>(k, v). (k, g v)) m)) old = Some (Some (sort_key fst m))"
proof -
  have "distinct (map fst (sort_key fst m))"
    using assms(2) by (metis mset_map mset_sort mset_eq_imp_distinct_iff)
  then show ?thesis
    using dec_members_enc [of "sort_key fst m" f g "[]"] assms(1,3)
    by (simp add: enc_map_values)
qed

text \<open>Into a nil map as well as into an empty one.\<close>

lemma dec_singles_enc:
  "template_ok m \<Longrightarrow> entries old = [] \<Longrightarrow> dec_singles (enc_singles m) old = Some (in_key_order m)"
  by (cases m)
     (auto simp: dec_singles_def enc_singles_def template_ok_def in_key_order_def dec_single_enc
       simp del: dec_map.simps(1) intro!: dec_map_enc)

lemma lits_ok_enc_string [simp]: "lits_ok (enc_string s)"
  by (simp add: enc_string_def)

lemma depth_enc_string [simp]: "depth (enc_string s) = 0"
  by (simp add: enc_string_def)

lemma enc_singles_depth: "lits_ok (enc_singles m) \<and> depth (enc_singles m) \<le> 3"
proof -
  have any: "fold max (map (depth \<circ> enc_string) xs) 0 = 0" for xs
    by (induction xs) auto
  have "lits_ok (enc_single s) \<and> depth (enc_single s) \<le> 2" for s
    by (auto simp: enc_single_def any)
  then show ?thesis
    by (auto simp: enc_singles_def enc_map_values fold_max_le split: option.splits)
qed

lemma json_wf_enc_singles: "json_wf (enc_singles m)"
  using enc_singles_depth [of m] by (simp add: json_wf_def maxNestingDepth_def)

lemma Unmarshal_Marshal_singles:
  assumes "template_ok m"
  shows "Unmarshal dec_singles (Marshal_singles m) (Some []) = Inr (in_key_order m)"
  using assms
  by (simp add: Unmarshal_def Marshal_singles_def json_parse_print json_wf_enc_singles dec_singles_enc)

lemma map_of_in_key_order:
  "distinct (map fst (entries m)) \<Longrightarrow> map_of (entries (in_key_order m)) = map_of (entries m)"
  by (cases m) (simp_all add: in_key_order_def map_of_sort_key)

end
