(* ===== verification/Database.thy ===== *)
theory Database
  imports Domain
begin

text \<open>
  Package \<open>adapters/database\<close> and the schema under \<open>schema/\<close>: the tables with their
  constraints, the SQL statements of the service as functions on the tables, and the service's
  operations with their transactions.

  The server is modelled as far as the statements depend on it: primary keys, unique indexes,
  foreign keys, checks and the length limit are enforced by the statements; text parameters
  have to be UTF-8 without NUL (the database encoding is UTF-8); rows come in an unspecified
  order (\<open>db_seed\<close>); \<open>NOW()\<close> reads \<open>db_now\<close>; every round trip may fail before or after the
  server has executed the statement (\<open>db_faults\<close>, one entry per round trip, none left meaning
  no more failures). Serial columns draw from sequences, which a rollback does not reset.
  Each operation of the service is one atomic step; concurrent requests interleave operations
  (\<open>Tx_Interleaving\<close> takes the transactions apart into their statements).
\<close>

section \<open>Rows (types.go) and tables (schema)\<close>

record dbMeasurement =
  mr_ID :: nat
  mr_Name :: bytes
  mr_AttestationType :: bytes
  mr_Measurement :: bytes
  mr_IsActive :: bool
  mr_CreatedAt :: nat
  mr_UpdatedAt :: nat
  mr_DeprecatedAt :: "nat option"

record dbBuilder =
  br_Name :: bytes
  br_IPAddress :: bytes
  br_IsActive :: bool
  br_Network :: bytes
  br_DNSName :: "bytes option"
  br_CreatedAt :: nat
  br_UpdatedAt :: nat
  br_DeprecatedAt :: "nat option"

record ServiceCredentialRegistration =
  sr_ID :: nat
  sr_BuilderName :: bytes
  sr_Service :: bytes
  sr_TLSCert :: "bytes option"
  sr_ECDSAPubKey :: bytes
  sr_IsActive :: bool
  sr_CreatedAt :: nat
  sr_DeprecatedAt :: "nat option"
  sr_MeasurementID :: "nat option"
  sr_Region :: bytes

record BuilderConfig =
  cr_ID :: nat
  cr_BuilderName :: bytes
  cr_Config :: bytes
  cr_IsActive :: bool
  cr_CreatedAt :: nat
  cr_UpdatedAt :: nat

record event_row =
  er_ID :: nat
  er_EventName :: bytes
  er_BuilderName :: bytes
  er_MeasurementID :: "nat option"
  er_CreatedAt :: nat

record tables =
  builders :: "dbBuilder list"
  measurements_whitelist :: "dbMeasurement list"
  service_credential_registrations :: "ServiceCredentialRegistration list"
  builder_configs :: "BuilderConfig list"
  event_log :: "event_row list"

datatype fault = NoFault | FailBefore | FailAfter

record db =
  tabs :: tables
  measurement_seq :: nat
  cred_seq :: nat
  config_seq :: nat
  event_seq :: nat
  db_now :: nat
  db_seed :: nat
  db_faults :: "fault list"

section \<open>Conversions (types.go)\<close>

definition convertMeasurementToDomain :: "dbMeasurement \<Rightarrow> Measurement result" where
  "convertMeasurementToDomain measurement =
     (case Unmarshal dec_singles (mr_Measurement measurement) (Some []) of
        Inl e \<Rightarrow> Inl e
      | Inr m \<Rightarrow> Inr \<lparr>M_Name = mr_Name measurement,
                     M_AttestationType = mr_AttestationType measurement, M_Measurement = m\<rparr>)"

text \<open>The \<open>String\<close> field of a \<open>sql.NullString\<close>.\<close>

definition NullString :: "bytes option \<Rightarrow> bytes" where
  "NullString s = (case s of None \<Rightarrow> [] | Some t \<Rightarrow> t)"

definition convertBuilderToDomain :: "ext \<Rightarrow> dbBuilder \<Rightarrow> Builder result" where
  "convertBuilderToDomain x builder =
     (case inet_scan x (br_IPAddress builder) of
        None \<Rightarrow> Inl ErrIncorrectBuilder
      | Some ip \<Rightarrow> Inr \<lparr>B_Name = br_Name builder, B_IPAddress = ip,
          B_IsActive = br_IsActive builder, B_Network = br_Network builder,
          B_DNSName = NullString (br_DNSName builder)\<rparr>)"

record ServiceCredential =
  sc_Service :: bytes
  sc_TLSCert :: "bytes option"
  sc_ECDSAPubKey :: bytes
  sc_Region :: bytes

record BuilderWithCredentials =
  bwc_Name :: bytes
  bwc_IPAddress :: bytes
  bwc_DNSName :: "bytes option"
  bwc_Credentials :: "ServiceCredential list"

definition toDomainBuilderWithCredentials ::
  "ext \<Rightarrow> BuilderWithCredentials \<Rightarrow> BuilderWithServices result" where
  "toDomainBuilderWithCredentials x builder =
     (case inet_scan x (bwc_IPAddress builder) of
        None \<Rightarrow> Inl ErrIncorrectBuilder
      | Some ip \<Rightarrow> Inr
          \<lparr>BWS_Builder = \<lparr>B_Name = bwc_Name builder, B_IPAddress = ip, B_IsActive = True,
             B_Network = [], B_DNSName = NullString (bwc_DNSName builder)\<rparr>,
           BWS_Services = map (\<lambda>cred.
             \<lparr>S_TLSCert = NullString (sc_TLSCert cred),
              S_ECDSAPubKey = Bytes2Address x (sc_ECDSAPubKey cred),
              S_Service = sc_Service cred, S_Region = sc_Region cred\<rparr>)
             (bwc_Credentials builder)\<rparr>)"

section \<open>Round trips and transactions\<close>

definition next_fault :: "db \<Rightarrow> fault \<times> db" where
  "next_fault d =
     (case db_faults d of [] \<Rightarrow> (NoFault, d) | f # fs \<Rightarrow> (f, d\<lparr>db_faults := fs\<rparr>))"

text \<open>Text that a UTF-8 database accepts.\<close>

definition pg_text :: "bytes \<Rightarrow> bool" where
  "pg_text s \<longleftrightarrow> utf8_valid s \<and> CHR 0x00 \<notin> set s"

definition bad_text :: go_error where "bad_text = ErrPg ''22021''"

text \<open>A query with its text parameters.\<close>

definition query :: "bytes list \<Rightarrow> (db \<Rightarrow> 'a) \<Rightarrow> db \<Rightarrow> 'a result \<times> db" where
  "query ps f d =
     (case next_fault d of
        (NoFault, d') \<Rightarrow> (if list_all pg_text ps then Inr (f d') else Inl bad_text, d')
      | (_, d') \<Rightarrow> (Inl ErrDriver, d'))"

type_synonym stmt = "db \<Rightarrow> go_error option \<times> db"

definition checked :: "bytes list \<Rightarrow> stmt \<Rightarrow> stmt" where
  "checked ps s d = (if list_all pg_text ps then s d else (Some bad_text, d))"

text \<open>A statement outside a transaction: when the reply is lost its effect stays.\<close>

definition exec :: "stmt \<Rightarrow> stmt" where
  "exec s d =
     (case next_fault d of
        (NoFault, d') \<Rightarrow> s d'
      | (FailBefore, d') \<Rightarrow> (Some ErrDriver, d')
      | (FailAfter, d') \<Rightarrow> (Some ErrDriver, snd (s d')))"

text \<open>\<open>BeginTx\<close>, \<open>Rollback\<close> (the tables as before, the sequences as they are) and \<open>Commit\<close>,
  whose outcome is unknown to the client when the reply is lost.\<close>

definition begin_tx :: stmt where
  "begin_tx d = (case next_fault d of (NoFault, d') \<Rightarrow> (None, d') | (_, d') \<Rightarrow> (Some ErrDriver, d'))"

definition rollback :: "db \<Rightarrow> db \<Rightarrow> db" where
  "rollback d0 d = d\<lparr>tabs := tabs d0\<rparr>"

definition commit :: "db \<Rightarrow> stmt" where
  "commit d0 d =
     (case next_fault d of
        (NoFault, d') \<Rightarrow> (None, d')
      | (FailBefore, d') \<Rightarrow> (Some ErrDriver, rollback d0 d')
      | (FailAfter, d') \<Rightarrow> (Some ErrDriver, d'))"

text \<open>An error wrapped by \<open>fmt.Errorf\<close>, and the shape of both transactions: begin, two
  statements, commit; an error on the way rolls back (the deferred \<open>tx.Rollback\<close>). The last
  three arguments wrap the errors of the statements and of the commit.\<close>

definition wrap_err :: "(go_error \<Rightarrow> go_error) \<Rightarrow> stmt \<Rightarrow> stmt" where
  "wrap_err w s d = (case s d of (Some e, d') \<Rightarrow> (Some (w e), d') | (None, d') \<Rightarrow> (None, d'))"

definition transaction2 ::
  "stmt \<Rightarrow> stmt \<Rightarrow> (go_error \<Rightarrow> go_error) \<Rightarrow> (go_error \<Rightarrow> go_error) \<Rightarrow> (go_error \<Rightarrow> go_error) \<Rightarrow> stmt" where
  "transaction2 s1 s2 w1 w2 wc d =
     (case begin_tx d of (Some e, d0) \<Rightarrow> (Some e, d0) | (None, d0) \<Rightarrow>
     (case wrap_err w1 (exec s1) d0 of (Some e, d1) \<Rightarrow> (Some e, rollback d0 d1) | (None, d1) \<Rightarrow>
     (case wrap_err w2 (exec s2) d1 of (Some e, d2) \<Rightarrow> (Some e, rollback d0 d2) | (None, d2) \<Rightarrow>
      wrap_err wc (commit d0) d2)))"

section \<open>Statements\<close>

definition upd_tabs :: "(tables \<Rightarrow> tables) \<Rightarrow> db \<Rightarrow> db" where
  "upd_tabs f d = d\<lparr>tabs := f (tabs d)\<rparr>"

definition varchar255 :: "bytes \<Rightarrow> bool" where
  "varchar255 s = (case utf8_count s of None \<Rightarrow> False | Some n \<Rightarrow> n \<le> 255)"

abbreviation builder_names :: "tables \<Rightarrow> bytes list" where
  "builder_names t \<equiv> map br_Name (builders t)"

text \<open>\<open>(SELECT id FROM measurements_whitelist WHERE ...)\<close> as a scalar: NULL without a row, an
  error with several.\<close>

definition scalar_id :: "dbMeasurement list \<Rightarrow> nat option result" where
  "scalar_id rows =
     (case rows of [] \<Rightarrow> Inr None | [r] \<Rightarrow> Inr (Some (mr_ID r)) | _ \<Rightarrow> Inl (ErrPg ''21000''))"

definition insert_measurement :: "ext \<Rightarrow> bytes \<Rightarrow> bytes \<Rightarrow> bytes \<Rightarrow> bool \<Rightarrow> stmt" where
  "insert_measurement x name typ bts enabled d =
     (case pg_jsonb x bts of None \<Rightarrow> (Some (ErrPg ''22P02''), d)
      | Some j \<Rightarrow>
          let d' = d\<lparr>measurement_seq := Suc (measurement_seq d)\<rparr> in
          if name \<in> set (map mr_Name (measurements_whitelist (tabs d)))
          then (Some (ErrPg ''unique_name''), d')
          else (None, upd_tabs (\<lambda>t. t\<lparr>measurements_whitelist := measurements_whitelist t @
            [\<lparr>mr_ID = measurement_seq d, mr_Name = name, mr_AttestationType = typ,
              mr_Measurement = j, mr_IsActive = enabled, mr_CreatedAt = db_now d,
              mr_UpdatedAt = db_now d, mr_DeprecatedAt = None\<rparr>]\<rparr>) d'))"

definition insert_builder ::
  "bytes \<Rightarrow> bytes option \<Rightarrow> bool \<Rightarrow> bytes \<Rightarrow> bytes option \<Rightarrow> stmt" where
  "insert_builder name ip active network dns d =
     (case ip of None \<Rightarrow> (Some (ErrPg ''23502''), d)
      | Some addr \<Rightarrow>
          if \<not> varchar255 name then (Some (ErrPg ''22001''), d)
          else if name \<in> set (builder_names (tabs d)) then (Some (ErrPg ''builders_pkey''), d)
          else (None, upd_tabs (\<lambda>t. t\<lparr>builders := builders t @
            [\<lparr>br_Name = name, br_IPAddress = addr, br_IsActive = active, br_Network = network,
              br_DNSName = dns, br_CreatedAt = db_now d, br_UpdatedAt = db_now d,
              br_DeprecatedAt = None\<rparr>]\<rparr>) d))"

definition check_failed :: go_error where
  "check_failed = ErrPg ''active_only_when_not_deprecated''"

definition update_builder_active :: "bool \<Rightarrow> bytes \<Rightarrow> stmt" where
  "update_builder_active active name d =
     (if active \<and> (\<exists>b\<in>set (builders (tabs d)). br_Name b = name \<and> br_DeprecatedAt b \<noteq> None)
      then (Some check_failed, d)
      else (None, upd_tabs (\<lambda>t. t\<lparr>builders := map (\<lambda>b. if br_Name b = name
             then b\<lparr>br_IsActive := active, br_UpdatedAt := db_now d\<rparr> else b) (builders t)\<rparr>) d))"

definition update_measurement_active :: "bool \<Rightarrow> bytes \<Rightarrow> stmt" where
  "update_measurement_active active name d =
     (if active \<and> (\<exists>m\<in>set (measurements_whitelist (tabs d)).
           mr_Name m = name \<and> mr_DeprecatedAt m \<noteq> None)
      then (Some check_failed, d)
      else (None, upd_tabs (\<lambda>t. t\<lparr>measurements_whitelist := map (\<lambda>m. if mr_Name m = name
             then m\<lparr>mr_IsActive := active\<rparr> else m) (measurements_whitelist t)\<rparr>) d))"

definition deprecate_credentials :: "bytes \<Rightarrow> bytes \<Rightarrow> stmt" where
  "deprecate_credentials builderName service d =
     (None, upd_tabs (\<lambda>t. t\<lparr>service_credential_registrations :=
        map (\<lambda>c. if sr_BuilderName c = builderName \<and> sr_Service c = service
                 then c\<lparr>sr_IsActive := False, sr_DeprecatedAt := Some (db_now d)\<rparr> else c)
            (service_credential_registrations t)\<rparr>) d)"

definition insert_credentials ::
  "bytes \<Rightarrow> bytes \<Rightarrow> bytes option \<Rightarrow> bytes \<Rightarrow> bytes \<Rightarrow> bytes \<Rightarrow> bytes \<Rightarrow> stmt" where
  "insert_credentials builderName service tlsCert ecdsaPubKey measurementName attestationType region d =
     (case scalar_id (filter (\<lambda>m. mr_Name m = measurementName \<and>
             mr_AttestationType m = attestationType) (measurements_whitelist (tabs d))) of
        Inl e \<Rightarrow> (Some e, d)
      | Inr mid \<Rightarrow>
          let d' = d\<lparr>cred_seq := Suc (cred_seq d)\<rparr> in
          if \<not> varchar255 builderName then (Some (ErrPg ''22001''), d')
          else if builderName \<notin> set (builder_names (tabs d)) then (Some (ErrPg ''23503''), d')
          else if \<exists>c\<in>set (service_credential_registrations (tabs d)). sr_IsActive c \<and>
                 sr_BuilderName c = builderName \<and> sr_Service c = service
          then (Some (ErrPg ''idx_unique_active_credential_per_builder_service''), d')
          else (None, upd_tabs (\<lambda>t. t\<lparr>service_credential_registrations :=
            service_credential_registrations t @
            [\<lparr>sr_ID = cred_seq d, sr_BuilderName = builderName, sr_Service = service,
              sr_TLSCert = tlsCert, sr_ECDSAPubKey = ecdsaPubKey, sr_IsActive = True,
              sr_CreatedAt = db_now d, sr_DeprecatedAt = None, sr_MeasurementID = mid,
              sr_Region = region\<rparr>]\<rparr>) d'))"

definition deactivate_configs :: "bytes \<Rightarrow> stmt" where
  "deactivate_configs builderName d =
     (None, upd_tabs (\<lambda>t. t\<lparr>builder_configs :=
        map (\<lambda>c. if cr_BuilderName c = builderName \<and> cr_IsActive c
                 then c\<lparr>cr_IsActive := False, cr_UpdatedAt := db_now d\<rparr> else c)
            (builder_configs t)\<rparr>) d)"

definition insert_config :: "ext \<Rightarrow> bytes \<Rightarrow> bytes \<Rightarrow> stmt" where
  "insert_config x builderName config d =
     (case pg_jsonb x config of None \<Rightarrow> (Some (ErrPg ''22P02''), d)
      | Some j \<Rightarrow>
          let d' = d\<lparr>config_seq := Suc (config_seq d)\<rparr> in
          if \<not> varchar255 builderName then (Some (ErrPg ''22001''), d')
          else if builderName \<notin> set (builder_names (tabs d)) then (Some (ErrPg ''23503''), d')
          else if \<exists>c\<in>set (builder_configs (tabs d)). cr_IsActive c \<and> cr_BuilderName c = builderName
          then (Some (ErrPg ''unique_active_config_per_builder''), d')
          else (None, upd_tabs (\<lambda>t. t\<lparr>builder_configs := builder_configs t @
            [\<lparr>cr_ID = config_seq d, cr_BuilderName = builderName, cr_Config = j,
              cr_IsActive = True, cr_CreatedAt = db_now d, cr_UpdatedAt = db_now d\<rparr>]\<rparr>) d'))"

definition insert_event :: "bytes \<Rightarrow> bytes \<Rightarrow> bytes \<Rightarrow> stmt" where
  "insert_event eventName builderName name d =
     (case scalar_id (filter (\<lambda>m. mr_Name m = name) (measurements_whitelist (tabs d))) of
        Inl e \<Rightarrow> (Some e, d)
      | Inr mid \<Rightarrow>
          let d' = d\<lparr>event_seq := Suc (event_seq d)\<rparr> in
          if \<not> varchar255 builderName then (Some (ErrPg ''22001''), d')
          else if builderName \<notin> set (builder_names (tabs d)) then (Some (ErrPg ''23503''), d')
          else (None, upd_tabs (\<lambda>t. t\<lparr>event_log := event_log t @
            [\<lparr>er_ID = event_seq d, er_EventName = eventName, er_BuilderName = builderName,
              er_MeasurementID = mid, er_CreatedAt = db_now d\<rparr>]\<rparr>) d'))"

section \<open>The service (service.go)\<close>

fun convert_all :: "dbMeasurement list \<Rightarrow> Measurement list result" where
  "convert_all [] = Inr []"
| "convert_all (m # ms) =
     (case convertMeasurementToDomain m of Inl e \<Rightarrow> Inl e
      | Inr dm \<Rightarrow> (case convert_all ms of Inl e \<Rightarrow> Inl e | Inr r \<Rightarrow> Inr (dm # r)))"

definition select_measurements :: "(dbMeasurement \<Rightarrow> bool) \<Rightarrow> db \<Rightarrow> dbMeasurement list" where
  "select_measurements P d = permute (db_seed d) (filter P (measurements_whitelist (tabs d)))"

definition GetActiveMeasurementsByType :: "bytes \<Rightarrow> db \<Rightarrow> Measurement list result \<times> db" where
  "GetActiveMeasurementsByType attestationType d =
     (case query [attestationType]
        (select_measurements (\<lambda>m. mr_IsActive m \<and> mr_AttestationType m = attestationType)) d of
        (Inl e, d') \<Rightarrow> (Inl e, d')
      | (Inr rows, d') \<Rightarrow> (convert_all rows, d'))"

definition GetActiveMeasurements :: "db \<Rightarrow> Measurement list result \<times> db" where
  "GetActiveMeasurements d =
     (case query [] (select_measurements mr_IsActive) d of
        (Inl e, d') \<Rightarrow> (Inl e, d')
      | (Inr rows, d') \<Rightarrow> (convert_all rows, d'))"

text \<open>\<open>sqlx.Get\<close>: the first row, \<open>sql.ErrNoRows\<close> without one.\<close>

definition first_row :: "'a list result \<times> db \<Rightarrow> 'a result \<times> db" where
  "first_row r = (case r of (Inl e, d) \<Rightarrow> (Inl e, d)
     | (Inr [], d) \<Rightarrow> (Inl ErrNoRows, d) | (Inr (y # _), d) \<Rightarrow> (Inr y, d))"

definition GetBuilderByIP :: "ext \<Rightarrow> bytes \<Rightarrow> db \<Rightarrow> Builder result \<times> db" where
  "GetBuilderByIP x ip d =
     (case inet_value x ip of Inl e \<Rightarrow> (Inl e, d)
      | Inr paramIP \<Rightarrow>
          (case first_row (query [] (\<lambda>d. permute (db_seed d)
                  (filter (\<lambda>b. Some (br_IPAddress b) = paramIP \<and> br_IsActive b)
                    (builders (tabs d)))) d) of
             (Inl e, d') \<Rightarrow> (Inl (if errors_Is e ErrNoRows then ErrNotFound else e), d')
           | (Inr b, d') \<Rightarrow> (convertBuilderToDomain x b, d')))"

definition RegisterCredentialsForBuilder ::
  "bytes \<Rightarrow> bytes \<Rightarrow> bytes \<Rightarrow> bytes \<Rightarrow> bytes \<Rightarrow> bytes \<Rightarrow> bytes \<Rightarrow> stmt" where
  "RegisterCredentialsForBuilder builderName service tlsCert ecdsaPubKey measurementName attestationType region =
     transaction2
       (checked [builderName, service] (deprecate_credentials builderName service))
       (checked [builderName, service, tlsCert, measurementName, attestationType, region]
         (insert_credentials builderName service (if tlsCert \<noteq> [] then Some tlsCert else None)
            ecdsaPubKey measurementName attestationType region))
       (\<lambda>e. e) (Wrap ''failed to insert credentials for builder'') (\<lambda>e. e)"

definition GetActiveConfigForBuilder :: "bytes \<Rightarrow> db \<Rightarrow> bytes result \<times> db" where
  "GetActiveConfigForBuilder builderName d =
     (case first_row (query [builderName] (\<lambda>d. permute (db_seed d)
             (filter (\<lambda>c. cr_BuilderName c = builderName \<and> cr_IsActive c)
               (builder_configs (tabs d)))) d) of
        (Inl e, d') \<Rightarrow> (Inl (if errors_Is e ErrNoRows then ErrNotFound else e), d')
      | (Inr config, d') \<Rightarrow> (Inr (cr_Config config), d'))"

text \<open>The rows of the \<open>LEFT JOIN\<close> after the \<open>WHERE\<close> clause, in the order of \<open>ORDER BY\<close>
  (NULL last).\<close>

type_synonym joined = "dbBuilder \<times> ServiceCredentialRegistration option"

definition left_join :: "tables \<Rightarrow> joined list" where
  "left_join t = concat (map (\<lambda>b.
     let cs = filter (\<lambda>c. sr_BuilderName c = br_Name b) (service_credential_registrations t)
     in if cs = [] then [(b, None)] else map (\<lambda>c. (b, Some c)) cs) (builders t))"

definition where_active :: "bytes \<Rightarrow> joined \<Rightarrow> bool" where
  "where_active network r =
     (br_IsActive (fst r) \<and> (case snd r of Some c \<Rightarrow> sr_IsActive c | None \<Rightarrow> True) \<and>
      br_Network (fst r) = network)"

definition order_key :: "ext \<Rightarrow> joined \<Rightarrow> bytes \<times> bool \<times> bytes" where
  "order_key x r = (pg_collate x (br_Name (fst r)),
     (case snd r of None \<Rightarrow> (True, []) | Some c \<Rightarrow> (False, pg_collate x (sr_Service c))))"

definition select_joined :: "ext \<Rightarrow> bytes \<Rightarrow> db \<Rightarrow> joined list" where
  "select_joined x network d =
     sort_key (order_key x) (permute (db_seed d) (filter (where_active network) (left_join (tabs d))))"

text \<open>The body of the loop over the rows, on the map \<open>buildersMap\<close>.\<close>

definition add_credential :: "joined \<Rightarrow> BuilderWithCredentials \<Rightarrow> BuilderWithCredentials" where
  "add_credential r builder =
     (case snd r of None \<Rightarrow> builder
      | Some c \<Rightarrow> builder\<lparr>bwc_Credentials := bwc_Credentials builder @
          [\<lparr>sc_Service = sr_Service c, sc_TLSCert = sr_TLSCert c,
            sc_ECDSAPubKey = sr_ECDSAPubKey c, sc_Region = sr_Region c\<rparr>]\<rparr>)"

definition scan_row ::
  "joined \<Rightarrow> (bytes, BuilderWithCredentials) gomap \<Rightarrow> (bytes, BuilderWithCredentials) gomap" where
  "scan_row r buildersMap =
     (let name = br_Name (fst r);
          builder = (case map_of buildersMap name of
            Some b \<Rightarrow> b
          | None \<Rightarrow> \<lparr>bwc_Name = name, bwc_IPAddress = br_IPAddress (fst r),
              bwc_DNSName = br_DNSName (fst r), bwc_Credentials = []\<rparr>)
      in AList.update name (add_credential r builder) buildersMap)"

fun convert_builders :: "ext \<Rightarrow> BuilderWithCredentials list \<Rightarrow> BuilderWithServices list result" where
  "convert_builders x [] = Inr []"
| "convert_builders x (b # bs) =
     (case toDomainBuilderWithCredentials x b of Inl e \<Rightarrow> Inl e
      | Inr d \<Rightarrow> (case convert_builders x bs of Inl e \<Rightarrow> Inl e | Inr r \<Rightarrow> Inr (d # r)))"

definition GetActiveBuildersWithServiceCredentials ::
  "ext \<Rightarrow> bytes \<Rightarrow> db \<Rightarrow> BuilderWithServices list result \<times> db" where
  "GetActiveBuildersWithServiceCredentials x network d =
     (case query [network] (select_joined x network) d of
        (Inl e, d') \<Rightarrow> (Inl e, d')
      | (Inr rows, d') \<Rightarrow>
          (convert_builders x (map snd (permute (db_seed d') (fold scan_row rows []))), d'))"

definition LogEvent :: "bytes \<Rightarrow> bytes \<Rightarrow> bytes \<Rightarrow> stmt" where
  "LogEvent eventName builderName name =
     wrap_err (Wrap ''failed to insert event log for builder'')
       (exec (checked [eventName, builderName, name] (insert_event eventName builderName name)))"

definition AddMeasurement :: "ext \<Rightarrow> Measurement \<Rightarrow> bool \<Rightarrow> stmt" where
  "AddMeasurement x measurement enabled =
     exec (checked [M_Name measurement, M_AttestationType measurement]
       (insert_measurement x (M_Name measurement) (M_AttestationType measurement)
          (Marshal_singles (M_Measurement measurement)) enabled))"

definition AddBuilder :: "ext \<Rightarrow> Builder \<Rightarrow> stmt" where
  "AddBuilder x builder d =
     (case inet_value x (B_IPAddress builder) of Inl e \<Rightarrow> (Some e, d)
      | Inr bIP \<Rightarrow>
          exec (checked [B_Name builder, B_Network builder, B_DNSName builder]
            (insert_builder (B_Name builder) bIP (B_IsActive builder) (B_Network builder)
              (if B_DNSName builder \<noteq> [] then Some (B_DNSName builder) else None))) d)"

definition ChangeActiveStatusForBuilder :: "bytes \<Rightarrow> bool \<Rightarrow> stmt" where
  "ChangeActiveStatusForBuilder builderName isActive =
     exec (checked [builderName] (update_builder_active isActive builderName))"

definition ChangeActiveStatusForMeasurement :: "bytes \<Rightarrow> bool \<Rightarrow> stmt" where
  "ChangeActiveStatusForMeasurement measurementName isActive =
     exec (checked [measurementName] (update_measurement_active isActive measurementName))"

definition AddBuilderConfig :: "ext \<Rightarrow> bytes \<Rightarrow> bytes \<Rightarrow> stmt" where
  "AddBuilderConfig x builderName config =
     transaction2
       (checked [builderName] (deactivate_configs builderName))
       (checked [builderName] (insert_config x builderName config))
       (Wrap ''failed to deactivate previous configs for builder'')
       (Wrap ''failed to insert new config for builder'')
       (Wrap ''failed to commit transaction for builder'')"

end
