(* ===== verification/Database_Inv.thy ===== *)
theory Database_Inv
  imports Database
begin

text \<open>
  What the database keeps: the constraints of the schema, that every builder and service with
  any registration has exactly one active one, and that every builder with any configuration
  has exactly one active one. Every operation of the service keeps them, whatever round trips
  fail. The transactions are atomic. The active rows are an abstract registry (partial maps),
  and the operations are updates of these maps.
\<close>

section \<open>Invariants\<close>

definition cred_key :: "ServiceCredentialRegistration \<Rightarrow> bytes \<times> bytes" where
  "cred_key c = (sr_BuilderName c, sr_Service c)"

definition active_creds :: "tables \<Rightarrow> ServiceCredentialRegistration list" where
  "active_creds t = filter sr_IsActive (service_credential_registrations t)"

definition active_configs :: "tables \<Rightarrow> BuilderConfig list" where
  "active_configs t = filter cr_IsActive (builder_configs t)"

text \<open>A nullable reference to \<open>measurements_whitelist (id)\<close>.\<close>

definition known_measurement :: "tables \<Rightarrow> nat option \<Rightarrow> bool" where
  "known_measurement t r =
     (case r of None \<Rightarrow> True | Some i \<Rightarrow> i \<in> set (map mr_ID (measurements_whitelist t)))"

lemma known_measurement_iff:
  "known_measurement t r \<longleftrightarrow> (\<forall>i. r = Some i \<longrightarrow> i \<in> set (map mr_ID (measurements_whitelist t)))"
  by (cases r) (simp_all add: known_measurement_def)

text \<open>The constraints of the schema, but for the primary keys on the serial columns, whose numbers
  the sequences give out once.\<close>

definition schema_ok :: "tables \<Rightarrow> bool" where
  "schema_ok t \<longleftrightarrow>
     distinct (builder_names t) \<and>
     (\<forall>n\<in>set (builder_names t). varchar255 n) \<and>
     distinct (map mr_Name (measurements_whitelist t)) \<and>
     distinct (map cred_key (active_creds t)) \<and>
     distinct (map cr_BuilderName (active_configs t)) \<and>
     (\<forall>c\<in>set (service_credential_registrations t). sr_BuilderName c \<in> set (builder_names t)) \<and>
     (\<forall>c\<in>set (builder_configs t). cr_BuilderName c \<in> set (builder_names t)) \<and>
     (\<forall>e\<in>set (event_log t). er_BuilderName e \<in> set (builder_names t)) \<and>
     (\<forall>c\<in>set (service_credential_registrations t). known_measurement t (sr_MeasurementID c)) \<and>
     (\<forall>e\<in>set (event_log t). known_measurement t (er_MeasurementID e)) \<and>
     (\<forall>b\<in>set (builders t). br_IsActive b \<longrightarrow> br_DeprecatedAt b = None) \<and>
     (\<forall>m\<in>set (measurements_whitelist t). mr_IsActive m \<longrightarrow> mr_DeprecatedAt m = None) \<and>
     (\<forall>c\<in>set (service_credential_registrations t). sr_IsActive c \<longrightarrow> sr_DeprecatedAt c = None)"

text \<open>What no constraint says: whatever was ever registered or configured has an active row.\<close>

definition covered :: "tables \<Rightarrow> bool" where
  "covered t \<longleftrightarrow>
     (\<forall>c\<in>set (service_credential_registrations t). cred_key c \<in> set (map cred_key (active_creds t))) \<and>
     (\<forall>c\<in>set (builder_configs t). cr_BuilderName c \<in> set (map cr_BuilderName (active_configs t)))"

definition tables_ok :: "tables \<Rightarrow> bool" where
  "tables_ok t \<longleftrightarrow> schema_ok t \<and> covered t"

definition empty_tables :: tables where
  "empty_tables = \<lparr>builders = [], measurements_whitelist = [],
     service_credential_registrations = [], builder_configs = [], event_log = []\<rparr>"

section \<open>The abstract registry\<close>

record credential =
  cred_TLSCert :: "bytes option"
  cred_ECDSAPubKey :: bytes
  cred_Region :: bytes

definition cred_of :: "ServiceCredentialRegistration \<Rightarrow> credential" where
  "cred_of c = \<lparr>cred_TLSCert = sr_TLSCert c, cred_ECDSAPubKey = sr_ECDSAPubKey c,
     cred_Region = sr_Region c\<rparr>"

text \<open>The active credentials by builder and service; the active configuration by builder.\<close>

definition registry :: "tables \<Rightarrow> bytes \<times> bytes \<rightharpoonup> credential" where
  "registry t = map_of (map (\<lambda>c. (cred_key c, cred_of c)) (active_creds t))"

definition configured :: "tables \<Rightarrow> bytes \<rightharpoonup> bytes" where
  "configured t = map_of (map (\<lambda>c. (cr_BuilderName c, cr_Config c)) (active_configs t))"

section \<open>Round trips\<close>

lemma next_fault_eq: "\<exists>fs. next_fault d = (fst (next_fault d), d\<lparr>db_faults := fs\<rparr>)"
proof (cases "db_faults d")
  case Nil
  then have "next_fault d = (NoFault, d\<lparr>db_faults := []\<rparr>)"
    by (simp add: next_fault_def)
  then show ?thesis by auto
qed (auto simp: next_fault_def)

lemma next_fault_cases:
  obtains (answered) fs where "next_fault d = (NoFault, d\<lparr>db_faults := fs\<rparr>)"
  | (unsent) fs where "next_fault d = (FailBefore, d\<lparr>db_faults := fs\<rparr>)"
  | (lost) fs where "next_fault d = (FailAfter, d\<lparr>db_faults := fs\<rparr>)"
proof -
  obtain fs where "next_fault d = (fst (next_fault d), d\<lparr>db_faults := fs\<rparr>)"
    using next_fault_eq by blast
  then show ?thesis
    by (cases "fst (next_fault d)") (simp_all add: answered unsent lost)
qed

lemma query_cases:
  obtains (rows) fs where "query ps f d = (Inr (f (d\<lparr>db_faults := fs\<rparr>)), d\<lparr>db_faults := fs\<rparr>)"
      "list_all pg_text ps"
  | (failed) fs e where "query ps f d = (Inl e, d\<lparr>db_faults := fs\<rparr>)" "e = ErrDriver \<or> e = bad_text"
proof (cases d rule: next_fault_cases)
  case (answered fs)
  show ?thesis
  proof (cases "list_all pg_text ps")
    case True
    then show ?thesis using answered by (intro rows [of fs]) (simp_all add: query_def)
  next
    case False
    then show ?thesis using answered by (intro failed [of bad_text fs]) (simp_all add: query_def)
  qed
next
  case (unsent fs)
  then show ?thesis by (intro failed [of ErrDriver fs]) (simp_all add: query_def)
next
  case (lost fs)
  then show ?thesis by (intro failed [of ErrDriver fs]) (simp_all add: query_def)
qed

lemma exec_cases:
  obtains (unsent) fs where "exec s d = (Some ErrDriver, d\<lparr>db_faults := fs\<rparr>)"
  | (answered) fs where "exec s d = s (d\<lparr>db_faults := fs\<rparr>)"
  | (lost) fs where "exec s d = (Some ErrDriver, snd (s (d\<lparr>db_faults := fs\<rparr>)))"
proof (cases d rule: next_fault_cases)
  case (answered fs)
  then show ?thesis by (intro that(2) [of fs]) (simp add: exec_def)
next
  case (unsent fs)
  then show ?thesis by (intro that(1) [of fs]) (simp add: exec_def)
next
  case (lost fs)
  then show ?thesis by (intro that(3) [of fs]) (simp add: exec_def)
qed

lemma exec_None:
  assumes "exec s d = (None, d')"
  obtains fs where "s (d\<lparr>db_faults := fs\<rparr>) = (None, d')"
  using assms that by (cases s d rule: exec_cases) auto

lemma checked_None: "checked ps s d = (None, d') \<longleftrightarrow> list_all pg_text ps \<and> s d = (None, d')"
  by (auto simp: checked_def)

lemma wrap_err_None: "wrap_err w s d = (None, d') \<longleftrightarrow> s d = (None, d')"
  by (auto simp: wrap_err_def split: prod.splits option.splits)

lemma tabs_rollback [simp]: "tabs (rollback d0 d) = tabs d0"
  by (simp add: rollback_def)

text \<open>A transaction leaves the tables alone, or both statements have been executed.\<close>

lemma commit_cases:
  assumes "wrap_err wc (commit d0) d = (e, d')"
  obtains (kept) "e \<noteq> None" "tabs d' = tabs d0"
  | (applied) fs where "d' = d\<lparr>db_faults := fs\<rparr>"
proof (cases d rule: next_fault_cases)
  case (answered fs)
  then show ?thesis using assms by (intro applied [of fs]) (simp add: commit_def wrap_err_def)
next
  case (unsent fs)
  then show ?thesis using assms by (intro kept) (auto simp: commit_def wrap_err_def)
next
  case (lost fs)
  then show ?thesis using assms by (intro applied [of fs]) (simp add: commit_def wrap_err_def)
qed

lemma begin_tx_cases:
  obtains (fails) d0 where "begin_tx d = (Some ErrDriver, d0)" "tabs d0 = tabs d"
  | (begun) fs where "begin_tx d = (None, d\<lparr>db_faults := fs\<rparr>)"
  by (cases d rule: next_fault_cases) (simp_all add: begin_tx_def that)

lemma wrap_exec_None:
  assumes "wrap_err w (exec s) d = (None, d')"
  obtains fs where "s (d\<lparr>db_faults := fs\<rparr>) = (None, d')"
  using assms that by (auto simp: wrap_err_None elim!: exec_None)

lemma transaction2_cases:
  assumes "transaction2 s1 s2 w1 w2 wc d = (e, d')"
  obtains (kept) "e \<noteq> None" "tabs d' = tabs d"
  | (applied) fs1 fs2 fs d1 d2 where "s1 (d\<lparr>db_faults := fs1\<rparr>) = (None, d1)"
      "s2 (d1\<lparr>db_faults := fs2\<rparr>) = (None, d2)" "d' = d2\<lparr>db_faults := fs\<rparr>"
proof (cases d rule: begin_tx_cases)
  case (fails d0)
  then show ?thesis using assms by (intro kept) (auto simp: transaction2_def)
next
  case (begun fs0)
  let ?d0 = "d\<lparr>db_faults := fs0\<rparr>"
  obtain e1 d1 where r1: "wrap_err w1 (exec s1) ?d0 = (e1, d1)" by fastforce
  obtain e2 d2 where r2: "wrap_err w2 (exec s2) d1 = (e2, d2)" by fastforce
  show ?thesis
  proof (cases "e1 = None \<and> e2 = None")
    case False
    then have "e \<noteq> None" "tabs d' = tabs d"
      using assms begun r1 r2 by (auto simp: transaction2_def split: option.splits)
    then show ?thesis by (rule kept)
  next
    case True
    then have com: "wrap_err wc (commit ?d0) d2 = (e, d')"
      using assms begun r1 r2 by (simp add: transaction2_def)
    from True r1 obtain fs1 where f1: "s1 (d\<lparr>db_faults := fs1\<rparr>) = (None, d1)"
      by (auto elim: wrap_exec_None)
    from True r2 obtain fs2 where f2: "s2 (d1\<lparr>db_faults := fs2\<rparr>) = (None, d2)"
      by (auto elim: wrap_exec_None)
    show ?thesis
      by (cases rule: commit_cases [OF com]) (use kept applied [OF f1 f2] in auto)
  qed
qed

lemma transaction2_None:
  assumes "transaction2 s1 s2 w1 w2 wc d = (None, d')"
  obtains fs1 fs2 fs d1 d2 where "s1 (d\<lparr>db_faults := fs1\<rparr>) = (None, d1)"
      "s2 (d1\<lparr>db_faults := fs2\<rparr>) = (None, d2)" "d' = d2\<lparr>db_faults := fs\<rparr>"
  using assms that by (cases rule: transaction2_cases [OF assms]) auto

section \<open>Every statement keeps the invariant\<close>

definition keeps :: "stmt \<Rightarrow> bool" where
  "keeps s \<longleftrightarrow> (\<forall>d. tables_ok (tabs d) \<longrightarrow> tables_ok (tabs (snd (s d))))"

lemma tabs_upd_tabs [simp]: "tabs (upd_tabs f d) = f (tabs d)"
  by (simp add: upd_tabs_def)

lemma keepsI: "(\<And>d. tables_ok (tabs d) \<Longrightarrow> tables_ok (tabs (snd (s d)))) \<Longrightarrow> keeps s"
  by (simp add: keeps_def)

lemma keepsD: "keeps s \<Longrightarrow> tables_ok (tabs d) \<Longrightarrow> tables_ok (tabs (snd (s d)))"
  by (simp add: keeps_def)

lemma keeps_checked: "keeps s \<Longrightarrow> keeps (checked ps s)"
  by (simp add: keeps_def checked_def)

lemma keeps_wrap_err: "keeps s \<Longrightarrow> keeps (wrap_err w s)"
  unfolding keeps_def wrap_err_def by (metis (no_types, lifting) case_prod_beta option.exhaust option.simps(4,5) snd_conv)

lemma keeps_exec:
  assumes "keeps s"
  shows "keeps (exec s)"
proof (rule keepsI)
  fix d :: db assume "tables_ok (tabs d)"
  then have "tables_ok (tabs (d\<lparr>db_faults := fs\<rparr>))" for fs by simp
  then show "tables_ok (tabs (snd (exec s d)))"
    by (cases s d rule: exec_cases) (simp_all add: keepsD [OF assms])
qed

lemmas keeps_intros = keeps_checked keeps_wrap_err keeps_exec

lemmas ok_defs = tables_ok_def schema_ok_def covered_def active_creds_def active_configs_def
  known_measurement_iff

lemma keeps_insert_measurement: "keeps (insert_measurement x name typ bts enabled)"
  by (rule keepsI) (auto simp: insert_measurement_def ok_defs Let_def split: option.splits)

lemma keeps_insert_builder: "keeps (insert_builder name ip active network dns)"
  by (rule keepsI) (auto simp: insert_builder_def ok_defs split: option.splits)

text \<open>What has to be shown when one table changes.\<close>

lemma tables_ok_builders:
  assumes "tables_ok t" "map br_Name bs = builder_names t"
    "\<forall>b\<in>set bs. br_IsActive b \<longrightarrow> br_DeprecatedAt b = None"
  shows "tables_ok (t\<lparr>builders := bs\<rparr>)"
  using assms by (simp add: ok_defs del: set_map)

lemma tables_ok_measurements:
  assumes "tables_ok t" "map mr_Name ms = map mr_Name (measurements_whitelist t)"
    "map mr_ID ms = map mr_ID (measurements_whitelist t)"
    "\<forall>m\<in>set ms. mr_IsActive m \<longrightarrow> mr_DeprecatedAt m = None"
  shows "tables_ok (t\<lparr>measurements_whitelist := ms\<rparr>)"
  using assms by (simp add: ok_defs del: set_map)

lemma tables_ok_creds:
  assumes "tables_ok t" "distinct (map cred_key (filter sr_IsActive cs))"
    "\<forall>c\<in>set cs. cred_key c \<in> set (map cred_key (filter sr_IsActive cs))"
    "\<forall>c\<in>set cs. sr_BuilderName c \<in> set (builder_names t) \<and>
       known_measurement t (sr_MeasurementID c) \<and> (sr_IsActive c \<longrightarrow> sr_DeprecatedAt c = None)"
  shows "tables_ok (t\<lparr>service_credential_registrations := cs\<rparr>)"
  using assms by (simp add: ok_defs del: set_map)

lemma tables_ok_configs:
  assumes "tables_ok t" "distinct (map cr_BuilderName (filter cr_IsActive cs))"
    "\<forall>c\<in>set cs. cr_BuilderName c \<in> set (map cr_BuilderName (filter cr_IsActive cs)) \<and>
       cr_BuilderName c \<in> set (builder_names t)"
  shows "tables_ok (t\<lparr>builder_configs := cs\<rparr>)"
  using assms by (simp add: ok_defs del: set_map)

lemma tables_okD:
  assumes "tables_ok t"
  shows "\<forall>b\<in>set (builders t). br_IsActive b \<longrightarrow> br_DeprecatedAt b = None"
    "\<forall>m\<in>set (measurements_whitelist t). mr_IsActive m \<longrightarrow> mr_DeprecatedAt m = None"
    "\<forall>c\<in>set (service_credential_registrations t). sr_BuilderName c \<in> set (builder_names t) \<and>
       known_measurement t (sr_MeasurementID c) \<and> (sr_IsActive c \<longrightarrow> sr_DeprecatedAt c = None) \<and>
       cred_key c \<in> set (map cred_key (active_creds t))"
    "\<forall>c\<in>set (builder_configs t). cr_BuilderName c \<in> set (builder_names t) \<and>
       cr_BuilderName c \<in> set (map cr_BuilderName (active_configs t))"
    "distinct (builder_names t)" "\<forall>n\<in>set (builder_names t). varchar255 n"
    "distinct (map mr_Name (measurements_whitelist t))"
    "distinct (map cred_key (active_creds t))" "distinct (map cr_BuilderName (active_configs t))"
  using assms by (simp_all add: tables_ok_def schema_ok_def covered_def del: set_map)

lemma keeps_update_builder: "keeps (update_builder_active active name)"
proof (rule keepsI)
  fix d :: db assume ok: "tables_ok (tabs d)"
  show "tables_ok (tabs (snd (update_builder_active active name d)))"
    using ok tables_okD(1) [OF ok]
    by (auto simp: update_builder_active_def intro!: tables_ok_builders)
qed

lemma keeps_update_measurement: "keeps (update_measurement_active active name)"
proof (rule keepsI)
  fix d :: db assume ok: "tables_ok (tabs d)"
  show "tables_ok (tabs (snd (update_measurement_active active name d)))"
    using ok tables_okD(2) [OF ok]
    by (auto simp: update_measurement_active_def intro!: tables_ok_measurements)
qed

lemma scalar_id_known:
  "scalar_id (filter P (measurements_whitelist t)) = Inr r \<Longrightarrow> known_measurement t r"
  by (force simp: scalar_id_def known_measurement_iff split: list.splits dest: arg_cong [where f = set])

lemma keeps_insert_event: "keeps (insert_event eventName builderName name)"
proof (rule keepsI)
  fix d :: db assume ok: "tables_ok (tabs d)"
  show "tables_ok (tabs (snd (insert_event eventName builderName name d)))"
  proof (cases "scalar_id (filter (\<lambda>m. mr_Name m = name) (measurements_whitelist (tabs d)))")
    case (Inl e)
    then show ?thesis using ok by (simp add: insert_event_def)
  next
    case (Inr r)
    then have "known_measurement (tabs d) r" by (rule scalar_id_known)
    with ok Inr show ?thesis by (auto simp: insert_event_def ok_defs Let_def)
  qed
qed

section \<open>Replacing the active row\<close>

text \<open>What a successful registration does to the tables, and a successful configuration.\<close>

definition replace_creds ::
  "bytes \<Rightarrow> bytes \<Rightarrow> nat \<Rightarrow> ServiceCredentialRegistration \<Rightarrow> tables \<Rightarrow> tables" where
  "replace_creds b s now row t = t\<lparr>service_credential_registrations :=
     map (\<lambda>c. if sr_BuilderName c = b \<and> sr_Service c = s
              then c\<lparr>sr_IsActive := False, sr_DeprecatedAt := Some now\<rparr> else c)
         (service_credential_registrations t) @ [row]\<rparr>"

definition replace_config :: "bytes \<Rightarrow> nat \<Rightarrow> BuilderConfig \<Rightarrow> tables \<Rightarrow> tables" where
  "replace_config b now row t = t\<lparr>builder_configs :=
     map (\<lambda>c. if cr_BuilderName c = b \<and> cr_IsActive c
              then c\<lparr>cr_IsActive := False, cr_UpdatedAt := now\<rparr> else c)
         (builder_configs t) @ [row]\<rparr>"

lemma active_creds_replace:
  assumes "sr_IsActive row"
  shows "active_creds (replace_creds b s now row t) =
           filter (\<lambda>c. cred_key c \<noteq> (b, s)) (active_creds t) @ [row]"
proof -
  have "filter sr_IsActive (map (\<lambda>c. if sr_BuilderName c = b \<and> sr_Service c = s
              then c\<lparr>sr_IsActive := False, sr_DeprecatedAt := Some now\<rparr> else c) cs) =
        filter (\<lambda>c. cred_key c \<noteq> (b, s)) (filter sr_IsActive cs)" for cs
    by (induction cs) (auto simp: cred_key_def)
  with assms show ?thesis by (simp add: active_creds_def replace_creds_def)
qed

lemma active_configs_replace:
  assumes "cr_IsActive row"
  shows "active_configs (replace_config b now row t) =
           filter (\<lambda>c. cr_BuilderName c \<noteq> b) (active_configs t) @ [row]"
proof -
  have "filter cr_IsActive (map (\<lambda>c. if cr_BuilderName c = b \<and> cr_IsActive c
              then c\<lparr>cr_IsActive := False, cr_UpdatedAt := now\<rparr> else c) cs) =
        filter (\<lambda>c. cr_BuilderName c \<noteq> b) (filter cr_IsActive cs)" for cs
    by (induction cs) auto
  with assms show ?thesis by (simp add: active_configs_def replace_config_def)
qed

text \<open>Dropping the rows of one key and appending a row with it is a map update.\<close>

lemma map_of_replace:
  assumes "key row = k"
  shows "map_of (map (\<lambda>r. (key r, val r)) (filter (\<lambda>r. key r \<noteq> k) rs @ [row])) =
           (map_of (map (\<lambda>r. (key r, val r)) rs))(k \<mapsto> val row)"
  using assms by (induction rs) (auto simp: fun_eq_iff map_add_def)

lemma registry_replace:
  assumes "sr_IsActive row" "cred_key row = (b, s)"
  shows "registry (replace_creds b s now row t) = (registry t)((b, s) \<mapsto> cred_of row)"
  unfolding registry_def active_creds_replace [OF assms(1)]
  using map_of_replace [of cred_key row "(b, s)", OF assms(2)] .

lemma configured_replace:
  assumes "cr_IsActive row" "cr_BuilderName row = b"
  shows "configured (replace_config b now row t) = (configured t)(b \<mapsto> cr_Config row)"
  unfolding configured_def active_configs_replace [OF assms(1)]
  using map_of_replace [of cr_BuilderName row b, OF assms(2)] .

lemma distinct_replace:
  assumes "distinct (map key rs)" "key row = k"
  shows "distinct (map key (filter (\<lambda>r. key r \<noteq> k) rs @ [row]))"
  using assms by (auto simp: distinct_map intro: inj_on_subset)

lemma keys_replace:
  "key row = k \<Longrightarrow> set (map key (filter (\<lambda>r. key r \<noteq> k) rs @ [row])) = insert k (set (map key rs))"
  by auto

lemma cred_key_deactivate [simp]:
  "cred_key (c\<lparr>sr_IsActive := a, sr_DeprecatedAt := p\<rparr>) = cred_key c"
  by (simp add: cred_key_def)

lemma tables_ok_replace_creds:
  assumes ok: "tables_ok t" and row: "sr_IsActive row" "cred_key row = (b, s)"
    "sr_DeprecatedAt row = None" "known_measurement t (sr_MeasurementID row)"
    and b: "b \<in> set (builder_names t)"
  shows "tables_ok (replace_creds b s now row t)"
proof -
  let ?cs = "service_credential_registrations (replace_creds b s now row t)"
  have active: "filter sr_IsActive ?cs = filter (\<lambda>c. cred_key c \<noteq> (b, s)) (active_creds t) @ [row]"
    using active_creds_replace [OF row(1)] by (simp add: active_creds_def)
  have "distinct (map cred_key (filter sr_IsActive ?cs))"
    unfolding active by (rule distinct_replace) (use tables_okD [OF ok] row in auto)
  moreover have "\<forall>c\<in>set ?cs. cred_key c \<in> set (map cred_key (filter sr_IsActive ?cs))"
    unfolding active keys_replace [of cred_key, OF row(2)]
    using tables_okD(3) [OF ok] row by (auto simp: replace_creds_def)
  moreover have "\<forall>c\<in>set ?cs. sr_BuilderName c \<in> set (builder_names t) \<and>
       known_measurement t (sr_MeasurementID c) \<and> (sr_IsActive c \<longrightarrow> sr_DeprecatedAt c = None)"
    using tables_okD(3) [OF ok] row b by (auto simp: replace_creds_def cred_key_def)
  ultimately have "tables_ok (t\<lparr>service_credential_registrations := ?cs\<rparr>)"
    by (rule tables_ok_creds [OF ok])
  then show ?thesis by (simp add: replace_creds_def)
qed

lemma tables_ok_replace_config:
  assumes ok: "tables_ok t" and row: "cr_IsActive row" "cr_BuilderName row = b"
    and b: "b \<in> set (builder_names t)"
  shows "tables_ok (replace_config b now row t)"
proof -
  let ?cs = "builder_configs (replace_config b now row t)"
  have active: "filter cr_IsActive ?cs = filter (\<lambda>c. cr_BuilderName c \<noteq> b) (active_configs t) @ [row]"
    using active_configs_replace [OF row(1)] by (simp add: active_configs_def)
  have "distinct (map cr_BuilderName (filter cr_IsActive ?cs))"
    unfolding active by (rule distinct_replace) (use tables_okD [OF ok] row in auto)
  moreover have "\<forall>c\<in>set ?cs. cr_BuilderName c \<in> set (map cr_BuilderName (filter cr_IsActive ?cs)) \<and>
       cr_BuilderName c \<in> set (builder_names t)"
    unfolding active keys_replace [of cr_BuilderName, OF row(2)]
    using tables_okD(4) [OF ok] row b by (auto simp: replace_config_def)
  ultimately have "tables_ok (t\<lparr>builder_configs := ?cs\<rparr>)"
    by (rule tables_ok_configs [OF ok])
  then show ?thesis by (simp add: replace_config_def)
qed

end
