(* ===== verification/Database_Ops.thy ===== *)
theory Database_Ops
  imports Database_Inv
begin

text \<open>
  The operations of the database service against the abstract registry: what a registration
  and a new configuration do on every branch, that failing operations change no table row they
  should not, that reads change no table, and that every database state the service can reach
  satisfies the invariant.
\<close>

section \<open>Registrations and configurations\<close>

definition cred_row ::
  "db \<Rightarrow> bytes \<Rightarrow> bytes \<Rightarrow> bytes option \<Rightarrow> bytes \<Rightarrow> nat option \<Rightarrow> bytes \<Rightarrow> ServiceCredentialRegistration" where
  "cred_row d b s cert pk mid reg = \<lparr>sr_ID = cred_seq d, sr_BuilderName = b, sr_Service = s,
     sr_TLSCert = cert, sr_ECDSAPubKey = pk, sr_IsActive = True, sr_CreatedAt = db_now d,
     sr_DeprecatedAt = None, sr_MeasurementID = mid, sr_Region = reg\<rparr>"

lemma insert_credentials_None:
  assumes "insert_credentials b s cert pk mn ty reg d = (None, d')"
  obtains mid where "known_measurement (tabs d) mid" "b \<in> set (builder_names (tabs d))"
    "tabs d' = (tabs d)\<lparr>service_credential_registrations :=
       service_credential_registrations (tabs d) @ [cred_row d b s cert pk mid reg]\<rparr>"
proof (cases "scalar_id (filter (\<lambda>m. mr_Name m = mn \<and> mr_AttestationType m = ty)
    (measurements_whitelist (tabs d)))")
  case (Inl e)
  with assms show ?thesis by (simp add: insert_credentials_def)
next
  case (Inr mid)
  then have "known_measurement (tabs d) mid" by (rule scalar_id_known)
  moreover have "b \<in> set (builder_names (tabs d))"
    using assms Inr by (simp add: insert_credentials_def Let_def split: if_splits)
  moreover have "tabs d' = (tabs d)\<lparr>service_credential_registrations :=
       service_credential_registrations (tabs d) @ [cred_row d b s cert pk mid reg]\<rparr>"
    using assms Inr by (clarsimp simp: insert_credentials_def Let_def cred_row_def split: if_splits)
  ultimately show ?thesis by (rule that)
qed

lemma deprecate_then_insert:
  assumes "insert_credentials b s cert pk mn ty reg
      ((snd (deprecate_credentials b s (d\<lparr>db_faults := fs1\<rparr>)))\<lparr>db_faults := fs2\<rparr>) = (None, d2)"
  obtains row where "tabs d2 = replace_creds b s (db_now d) row (tabs d)" "sr_IsActive row"
    "cred_key row = (b, s)" "sr_DeprecatedAt row = None"
    "known_measurement (tabs d) (sr_MeasurementID row)"
    "cred_of row = \<lparr>cred_TLSCert = cert, cred_ECDSAPubKey = pk, cred_Region = reg\<rparr>"
    "b \<in> set (builder_names (tabs d))"
proof (rule insert_credentials_None [OF assms])
  let ?d1 = "(snd (deprecate_credentials b s (d\<lparr>db_faults := fs1\<rparr>)))\<lparr>db_faults := fs2\<rparr>"
  fix mid
  assume *: "known_measurement (tabs ?d1) mid" "b \<in> set (builder_names (tabs ?d1))"
    "tabs d2 = (tabs ?d1)\<lparr>service_credential_registrations :=
       service_credential_registrations (tabs ?d1) @ [cred_row ?d1 b s cert pk mid reg]\<rparr>"
  show ?thesis
    by (rule that [of "cred_row ?d1 b s cert pk mid reg"])
       (use * in \<open>simp_all add: deprecate_credentials_def replace_creds_def known_measurement_iff
          cred_key_def cred_of_def cred_row_def\<close>)
qed

lemma RegisterCredentialsForBuilder_cases:
  assumes "RegisterCredentialsForBuilder b s cert pk mn ty reg d = (e, d')"
  obtains (kept) "e \<noteq> None" "tabs d' = tabs d"
  | (applied) row where "tabs d' = replace_creds b s (db_now d) row (tabs d)" "sr_IsActive row"
      "cred_key row = (b, s)" "sr_DeprecatedAt row = None"
      "known_measurement (tabs d) (sr_MeasurementID row)"
      "cred_of row = \<lparr>cred_TLSCert = if cert \<noteq> [] then Some cert else None,
         cred_ECDSAPubKey = pk, cred_Region = reg\<rparr>"
      "b \<in> set (builder_names (tabs d))"
proof (cases rule: transaction2_cases [OF assms [unfolded RegisterCredentialsForBuilder_def]])
  case 1
  then show ?thesis by (rule kept)
next
  case (2 fs1 fs2 fs d1 d2)
  from 2(1) have d1: "d1 = snd (deprecate_credentials b s (d\<lparr>db_faults := fs1\<rparr>))"
    by (simp add: checked_None)
  from 2(2) have ins: "insert_credentials b s (if cert \<noteq> [] then Some cert else None) pk mn ty reg
      (d1\<lparr>db_faults := fs2\<rparr>) = (None, d2)"
    by (simp add: checked_None)
  show ?thesis
    by (rule deprecate_then_insert [OF ins [unfolded d1]]) (use 2(3) applied in auto)
qed

lemma insert_config_None:
  assumes "insert_config x b cfg d = (None, d')"
  obtains row where "cr_IsActive row" "cr_BuilderName row = b" "pg_jsonb x cfg = Some (cr_Config row)"
    "b \<in> set (builder_names (tabs d))"
    "tabs d' = (tabs d)\<lparr>builder_configs := builder_configs (tabs d) @ [row]\<rparr>"
proof (cases "pg_jsonb x cfg")
  case None
  with assms show ?thesis by (simp add: insert_config_def)
next
  case (Some j)
  let ?row = "\<lparr>cr_ID = config_seq d, cr_BuilderName = b, cr_Config = j, cr_IsActive = True,
    cr_CreatedAt = db_now d, cr_UpdatedAt = db_now d\<rparr>"
  have "b \<in> set (builder_names (tabs d))"
    using assms Some by (simp add: insert_config_def Let_def split: if_splits)
  moreover have "tabs d' = (tabs d)\<lparr>builder_configs := builder_configs (tabs d) @ [?row]\<rparr>"
    using assms Some by (clarsimp simp: insert_config_def Let_def split: if_splits)
  ultimately show ?thesis using Some by (intro that [of ?row]) simp_all
qed

lemma deactivate_then_insert:
  assumes "insert_config x b cfg
      ((snd (deactivate_configs b (d\<lparr>db_faults := fs1\<rparr>)))\<lparr>db_faults := fs2\<rparr>) = (None, d2)"
  obtains row where "tabs d2 = replace_config b (db_now d) row (tabs d)" "cr_IsActive row"
    "cr_BuilderName row = b" "pg_jsonb x cfg = Some (cr_Config row)" "b \<in> set (builder_names (tabs d))"
  by (rule insert_config_None [OF assms], rule that)
     (simp_all add: deactivate_configs_def replace_config_def)

lemma AddBuilderConfig_cases:
  assumes "AddBuilderConfig x b cfg d = (e, d')"
  obtains (kept) "e \<noteq> None" "tabs d' = tabs d"
  | (applied) row where "tabs d' = replace_config b (db_now d) row (tabs d)" "cr_IsActive row"
      "cr_BuilderName row = b" "pg_jsonb x cfg = Some (cr_Config row)" "b \<in> set (builder_names (tabs d))"
proof (cases rule: transaction2_cases [OF assms [unfolded AddBuilderConfig_def]])
  case 1
  then show ?thesis by (rule kept)
next
  case (2 fs1 fs2 fs d1 d2)
  from 2(1) have d1: "d1 = snd (deactivate_configs b (d\<lparr>db_faults := fs1\<rparr>))"
    by (simp add: checked_None)
  from 2(2) have ins: "insert_config x b cfg (d1\<lparr>db_faults := fs2\<rparr>) = (None, d2)"
    by (simp add: checked_None)
  show ?thesis
    by (rule deactivate_then_insert [OF ins [unfolded d1]]) (use 2(3) applied in auto)
qed

section \<open>Every operation keeps the invariant\<close>

lemma keeps_Register: "keeps (RegisterCredentialsForBuilder b s cert pk mn ty reg)"
proof (rule keepsI)
  fix d :: db assume ok: "tables_ok (tabs d)"
  obtain e d' where r: "RegisterCredentialsForBuilder b s cert pk mn ty reg d = (e, d')" by fastforce
  show "tables_ok (tabs (snd (RegisterCredentialsForBuilder b s cert pk mn ty reg d)))"
    unfolding r by (cases rule: RegisterCredentialsForBuilder_cases [OF r])
      (simp_all add: ok tables_ok_replace_creds)
qed

lemma keeps_AddBuilderConfig: "keeps (AddBuilderConfig x b cfg)"
proof (rule keepsI)
  fix d :: db assume ok: "tables_ok (tabs d)"
  obtain e d' where r: "AddBuilderConfig x b cfg d = (e, d')" by fastforce
  show "tables_ok (tabs (snd (AddBuilderConfig x b cfg d)))"
    unfolding r by (cases rule: AddBuilderConfig_cases [OF r])
      (simp_all add: ok tables_ok_replace_config)
qed

lemma keeps_LogEvent: "keeps (LogEvent ev b n)"
  unfolding LogEvent_def by (intro keeps_intros keeps_insert_event)

lemma keeps_AddMeasurement: "keeps (AddMeasurement x m en)"
  unfolding AddMeasurement_def by (intro keeps_intros keeps_insert_measurement)

lemma keeps_AddBuilder: "keeps (AddBuilder x b)"
proof (rule keepsI)
  fix d :: db assume ok: "tables_ok (tabs d)"
  have "keeps (exec (checked ps (insert_builder n ip a nw dns)))" for ps n ip a nw dns
    by (intro keeps_intros keeps_insert_builder)
  then show "tables_ok (tabs (snd (AddBuilder x b d)))"
    by (cases "inet_value x (B_IPAddress b)") (simp_all add: AddBuilder_def ok keepsD)
qed

lemma keeps_ChangeBuilder: "keeps (ChangeActiveStatusForBuilder b a)"
  unfolding ChangeActiveStatusForBuilder_def by (intro keeps_intros keeps_update_builder)

lemma keeps_ChangeMeasurement: "keeps (ChangeActiveStatusForMeasurement n a)"
  unfolding ChangeActiveStatusForMeasurement_def by (intro keeps_intros keeps_update_measurement)

lemmas service_keeps = keeps_Register keeps_AddBuilderConfig keeps_LogEvent keeps_AddMeasurement
  keeps_AddBuilder keeps_ChangeBuilder keeps_ChangeMeasurement

section \<open>Reads change no table\<close>

lemma tabs_query: "tabs (snd (query ps f d)) = tabs d"
  by (rule query_cases [of ps f d]) simp_all

lemma snd_first_row: "snd (first_row r) = snd r"
  by (auto simp: first_row_def split: prod.splits sum.splits list.splits)

lemma tabs_GetActiveMeasurementsByType: "tabs (snd (GetActiveMeasurementsByType ty d)) = tabs d"
  using tabs_query [of "[ty]" "select_measurements (\<lambda>m. mr_IsActive m \<and> mr_AttestationType m = ty)" d]
  by (auto simp: GetActiveMeasurementsByType_def split: prod.splits sum.splits)

lemma tabs_GetActiveMeasurements: "tabs (snd (GetActiveMeasurements d)) = tabs d"
  using tabs_query [of "[]" "select_measurements mr_IsActive" d]
  by (auto simp: GetActiveMeasurements_def split: prod.splits sum.splits)

lemma tabs_first_row:
  "first_row (query ps f d) = (r, d') \<Longrightarrow> tabs d' = tabs d"
  by (metis snd_conv snd_first_row tabs_query)

lemma tabs_GetBuilderByIP: "tabs (snd (GetBuilderByIP x ip d)) = tabs d"
  by (auto simp: GetBuilderByIP_def tabs_first_row split: prod.splits sum.splits)

lemma tabs_GetActiveConfigForBuilder: "tabs (snd (GetActiveConfigForBuilder b d)) = tabs d"
  by (auto simp: GetActiveConfigForBuilder_def tabs_first_row split: prod.splits sum.splits)

lemma tabs_GetActiveBuilders: "tabs (snd (GetActiveBuildersWithServiceCredentials x nw d)) = tabs d"
  using tabs_query [of "[nw]" "select_joined x nw" d]
  by (auto simp: GetActiveBuildersWithServiceCredentials_def split: prod.splits sum.splits)

lemmas tabs_reads [simp] = tabs_GetActiveMeasurementsByType tabs_GetActiveMeasurements
  tabs_GetBuilderByIP tabs_GetActiveConfigForBuilder tabs_GetActiveBuilders

section \<open>Reachable states\<close>

text \<open>A database is reached from empty tables by calls of the service, each with arbitrary
  arguments and with arbitrary failures of its round trips, and by the world around it: the
  clock, the scan order and the coming failures. A read is such a change.\<close>

inductive db_step :: "ext \<Rightarrow> db \<Rightarrow> db \<Rightarrow> bool" for x where
  Step_Register: "db_step x d (snd (RegisterCredentialsForBuilder b s cert pk mn ty reg d))"
| Step_Config: "db_step x d (snd (AddBuilderConfig x b cfg d))"
| Step_LogEvent: "db_step x d (snd (LogEvent ev b n d))"
| Step_AddMeasurement: "db_step x d (snd (AddMeasurement x m en d))"
| Step_AddBuilder: "db_step x d (snd (AddBuilder x bld d))"
| Step_Builder: "db_step x d (snd (ChangeActiveStatusForBuilder b a d))"
| Step_Measurement: "db_step x d (snd (ChangeActiveStatusForMeasurement n a d))"
| Step_World: "db_step x d (d\<lparr>db_now := now, db_seed := seed, db_faults := fs\<rparr>)"

inductive db_reachable :: "ext \<Rightarrow> db \<Rightarrow> bool" for x where
  Reach_Init: "tabs d = empty_tables \<Longrightarrow> db_reachable x d"
| Reach_Step: "db_reachable x d \<Longrightarrow> db_step x d d' \<Longrightarrow> db_reachable x d'"

inductive_cases db_stepE: "db_step x d d'"

lemma tables_ok_empty: "tables_ok empty_tables"
  by (simp add: ok_defs empty_tables_def)

lemma db_step_keeps: "db_step x d d' \<Longrightarrow> tables_ok (tabs d) \<Longrightarrow> tables_ok (tabs d')"
  by (erule db_stepE) (simp_all add: service_keeps [THEN keepsD])

lemma reachable_ok: "db_reachable x d \<Longrightarrow> tables_ok (tabs d)"
  by (induction rule: db_reachable.induct) (simp_all add: tables_ok_empty db_step_keeps)

section \<open>Lookups by a key that the active rows have once\<close>

lemma filter_key_map_of:
  assumes "distinct (map key rs)"
  shows "map_of (map (\<lambda>r. (key r, val r)) rs) k =
    (case permute n (filter (\<lambda>r. key r = k) rs) of [] \<Rightarrow> None | r # _ \<Rightarrow> Some (val r))"
proof -
  have "map_of (map (\<lambda>r. (key r, val r)) rs) k = None \<and> filter (\<lambda>r. key r = k) rs = [] \<or>
     (\<exists>r. filter (\<lambda>r. key r = k) rs = [r] \<and> map_of (map (\<lambda>r. (key r, val r)) rs) k = Some (val r))"
    using assms
  proof (induction rs)
    case (Cons r rs)
    then show ?case
      by (cases "key r = k") (auto simp: filter_empty_conv image_iff)
  qed simp
  then show ?thesis by (auto simp: insert_nth_def)
qed

lemma GetActiveConfigForBuilder_configured:
  assumes "tables_ok (tabs d)" "db_faults d = []" "pg_text b"
  shows "GetActiveConfigForBuilder b d =
    (case configured (tabs d) b of None \<Rightarrow> Inl ErrNotFound | Some c \<Rightarrow> Inr c, d)"
proof -
  have "filter (\<lambda>c. cr_BuilderName c = b \<and> cr_IsActive c) (builder_configs (tabs d)) =
      filter (\<lambda>c. cr_BuilderName c = b) (active_configs (tabs d))"
    by (simp add: active_configs_def conj_commute)
  moreover have "configured (tabs d) b =
      (case permute (db_seed d) (filter (\<lambda>c. cr_BuilderName c = b) (active_configs (tabs d))) of
         [] \<Rightarrow> None | c # _ \<Rightarrow> Some (cr_Config c))"
    unfolding configured_def by (rule filter_key_map_of) (rule tables_okD [OF assms(1)])
  ultimately show ?thesis
    using assms(2,3)
    by (simp add: GetActiveConfigForBuilder_def query_def next_fault_def first_row_def split: list.splits)
qed

section \<open>Operations that succeed\<close>

text \<open>Without failing round trips.\<close>

lemma exec_no_fault: "db_faults d = [] \<Longrightarrow> exec s d = s d"
  by (simp add: exec_def next_fault_def)

lemma transaction2_no_fault:
  assumes "db_faults d = []" "s1 d = (None, d1)" "db_faults d1 = []" "s2 d1 = (None, d2)"
    "db_faults d2 = []"
  shows "transaction2 s1 s2 w1 w2 wc d = (None, d2)"
  using assms
  by (simp add: transaction2_def begin_tx_def commit_def wrap_err_def exec_no_fault next_fault_def)

lemma scalar_id_at_most_one:
  assumes "distinct (map mr_Name ms)"
  shows "\<exists>r. scalar_id (filter (\<lambda>m. mr_Name m = n \<and> P m) ms) = Inr r"
proof -
  have "length (filter (\<lambda>m. mr_Name m = n \<and> P m) ms) \<le> 1"
    using assms by (induction ms) (auto simp: filter_empty_conv image_iff)
  then show ?thesis
    by (cases "filter (\<lambda>m. mr_Name m = n \<and> P m) ms" rule: remdups_adj.cases)
       (auto simp: scalar_id_def)
qed

lemma insert_credentials_ok:
  assumes "scalar_id (filter (\<lambda>m. mr_Name m = mn \<and> mr_AttestationType m = ty)
      (measurements_whitelist (tabs d))) = Inr mid"
    "varchar255 b" "b \<in> set (builder_names (tabs d))"
    "\<not> (\<exists>c\<in>set (service_credential_registrations (tabs d)). sr_IsActive c \<and>
      sr_BuilderName c = b \<and> sr_Service c = s)"
  obtains d' where "insert_credentials b s cert pk mn ty reg d = (None, d')" "db_faults d' = db_faults d"
  using assms by (simp add: insert_credentials_def upd_tabs_def Let_def del: set_map)

lemma insert_config_ok:
  assumes "pg_jsonb x cfg = Some j" "varchar255 b" "b \<in> set (builder_names (tabs d))"
    "\<not> (\<exists>c\<in>set (builder_configs (tabs d)). cr_IsActive c \<and> cr_BuilderName c = b)"
  obtains d' where "insert_config x b cfg d = (None, d')" "db_faults d' = db_faults d"
  using assms by (simp add: insert_config_def upd_tabs_def Let_def del: set_map)

lemma Register_succeeds:
  assumes "tables_ok (tabs d)" "db_faults d = []" "b \<in> set (builder_names (tabs d))"
    "list_all pg_text [b, s, cert, mn, ty, reg]"
  shows "\<exists>d'. RegisterCredentialsForBuilder b s cert pk mn ty reg d = (None, d') \<and> db_faults d' = []"
proof -
  let ?d1 = "snd (deprecate_credentials b s d)"
  have tabs1: "b \<in> set (builder_names (tabs ?d1))"
    "measurements_whitelist (tabs ?d1) = measurements_whitelist (tabs d)" "db_faults ?d1 = []"
    using assms(2,3) by (simp_all add: deprecate_credentials_def upd_tabs_def)
  obtain mid where mid: "scalar_id (filter (\<lambda>m. mr_Name m = mn \<and> mr_AttestationType m = ty)
      (measurements_whitelist (tabs ?d1))) = Inr mid"
    unfolding tabs1(2) using scalar_id_at_most_one [OF tables_okD(7) [OF assms(1)], of mn "\<lambda>m. mr_AttestationType m = ty"]
    by blast
  have len: "varchar255 b" using tables_okD(6) [OF assms(1)] assms(3) by blast
  have free: "\<not> (\<exists>c\<in>set (service_credential_registrations (tabs ?d1)). sr_IsActive c \<and>
      sr_BuilderName c = b \<and> sr_Service c = s)"
    by (simp add: deprecate_credentials_def ball_Un Int_def)
  obtain d2 where d2: "insert_credentials b s (if cert \<noteq> [] then Some cert else None)
      pk mn ty reg ?d1 = (None, d2)" "db_faults d2 = []"
    by (rule insert_credentials_ok [OF mid len tabs1(1) free]) (simp add: tabs1(3))
  have "RegisterCredentialsForBuilder b s cert pk mn ty reg d = (None, d2)"
    unfolding RegisterCredentialsForBuilder_def
    by (rule transaction2_no_fault [where ?d1.0 = ?d1])
       (use assms(2,4) tabs1 d2 in \<open>simp_all add: checked_def deprecate_credentials_def\<close>)
  then show ?thesis using d2(2) by blast
qed

lemma AddBuilderConfig_succeeds:
  assumes "tables_ok (tabs d)" "db_faults d = []" "b \<in> set (builder_names (tabs d))"
    "pg_text b" "pg_jsonb x cfg = Some j"
  shows "\<exists>d'. AddBuilderConfig x b cfg d = (None, d') \<and> db_faults d' = []"
proof -
  let ?d1 = "snd (deactivate_configs b d)"
  have tabs1: "b \<in> set (builder_names (tabs ?d1))" "db_faults ?d1 = []"
    using assms(2,3) by (simp_all add: deactivate_configs_def upd_tabs_def)
  have len: "varchar255 b" using tables_okD(6) [OF assms(1)] assms(3) by blast
  have free: "\<not> (\<exists>c\<in>set (builder_configs (tabs ?d1)). cr_IsActive c \<and> cr_BuilderName c = b)"
    by (simp add: deactivate_configs_def ball_Un Int_def) blast
  obtain d2 where d2: "insert_config x b cfg ?d1 = (None, d2)" "db_faults d2 = []"
    by (rule insert_config_ok [OF assms(5) len tabs1(1) free]) (simp add: tabs1(2))
  have "AddBuilderConfig x b cfg d = (None, d2)"
    unfolding AddBuilderConfig_def
    by (rule transaction2_no_fault [where ?d1.0 = ?d1])
       (use assms(2,4) tabs1 d2 in \<open>simp_all add: checked_def deactivate_configs_def\<close>)
  then show ?thesis using d2(2) by blast
qed

section \<open>Properties\<close>

text \<open>The empty database, and one with an active builder, an active measurement, a
  configuration and a registration, as the service makes them.\<close>

definition sample_db0 :: db where
  "sample_db0 = \<lparr>tabs = empty_tables, measurement_seq = 1, cred_seq = 1, config_seq = 1,
     event_seq = 1, db_now = 100, db_seed = 3, db_faults = []\<rparr>"

definition sample_ip :: bytes where
  "sample_ip = [CHR 0x0A, CHR 0x00, CHR 0x00, CHR 0x07]"

definition sample_builder :: Builder where
  "sample_builder = \<lparr>B_Name = ''alpha'', B_IPAddress = sample_ip, B_IsActive = False,
     B_Network = ''production'', B_DNSName = []\<rparr>"

definition sample_measurement :: Measurement where
  "sample_measurement = \<lparr>M_Name = ''m1'', M_AttestationType = ''azure-tdx'',
     M_Measurement = Some [(''4'', \<lparr>Expected = ''ab'', ExpectedAny = []\<rparr>)]\<rparr>"

definition sample_db :: db where
  "sample_db =
     snd (RegisterCredentialsForBuilder ''alpha'' ''proxy'' ''cert'' ''k'' ''m1'' ''azure-tdx'' ''eu''
     (snd (ChangeActiveStatusForMeasurement ''m1'' True
     (snd (ChangeActiveStatusForBuilder ''alpha'' True
     (snd (AddBuilderConfig sample_ext ''alpha'' ''{}''
     (snd (AddMeasurement sample_ext sample_measurement False
     (snd (AddBuilder sample_ext sample_builder sample_db0)))))))))))"

lemma sample_db_reachable: "db_reachable sample_ext sample_db"
proof -
  have "db_reachable sample_ext sample_db0"
    by (rule Reach_Init) (simp add: sample_db0_def)
  then show ?thesis
    unfolding sample_db_def by (intro Reach_Step [OF _ db_step.intros(1)]
      Reach_Step [OF _ db_step.intros(2)] Reach_Step [OF _ db_step.intros(4)]
      Reach_Step [OF _ db_step.intros(5)] Reach_Step [OF _ db_step.intros(6)]
      Reach_Step [OF _ db_step.intros(7)])
qed

text \<open>C32: Every database state that the service can reach, with any calls and any failures of
  the database connection, satisfies the constraints of the schema and has, for every builder
  and service with any registration, an active one (and only one), and for every builder with
  any configuration an active one (and only one). (That the numbers of the serial columns are
  unique, as the primary keys of the schema demand, is not part of it: they are drawn from the
  sequences.)\<close>

theorem reachable_tables_ok:
  assumes "db_reachable x d"
  shows "tables_ok (tabs d)"
  using assms by (rule reachable_ok)

theorem reachable_tables_ok_witness: "tables_ok (tabs sample_db) \<and> active_creds (tabs sample_db) \<noteq> []"
  using reachable_tables_ok [OF sample_db_reachable] by (rule conjI) code_simp

text \<open>Registering credentials is atomic, whatever round trip fails: the call returns an
  error and no table has changed, or the active credentials of the builder and service, and
  only these, are now the given ones and every other table is as before; a call that returns
  no error has had that effect.\<close>

theorem RegisterCredentials_atomic:
  assumes "RegisterCredentialsForBuilder b s cert pk mn ty reg d = (e, d')"
  shows "(e \<noteq> None \<and> tabs d' = tabs d) \<or>
     (registry (tabs d') = (registry (tabs d))((b, s) \<mapsto>
        \<lparr>cred_TLSCert = if cert \<noteq> [] then Some cert else None, cred_ECDSAPubKey = pk, cred_Region = reg\<rparr>) \<and>
      (\<exists>cs. tabs d' = (tabs d)\<lparr>service_credential_registrations := cs\<rparr>))"
proof (cases rule: RegisterCredentialsForBuilder_cases [OF assms])
  case (2 row)
  then have "registry (tabs d') = (registry (tabs d))((b, s) \<mapsto> cred_of row)"
    by (simp add: registry_replace)
  moreover have "\<exists>cs. tabs d' = (tabs d)\<lparr>service_credential_registrations := cs\<rparr>"
    unfolding 2(1) replace_creds_def by blast
  ultimately show ?thesis using 2(6) by simp
qed simp

theorem RegisterCredentials_atomic_witness:
  "registry (tabs sample_db) (''alpha'', ''proxy'') =
     Some \<lparr>cred_TLSCert = Some ''cert'', cred_ECDSAPubKey = ''k'', cred_Region = ''eu''\<rparr>"
proof -
  let ?d = "snd (ChangeActiveStatusForMeasurement ''m1'' True
     (snd (ChangeActiveStatusForBuilder ''alpha'' True
     (snd (AddBuilderConfig sample_ext ''alpha'' ''{}''
     (snd (AddMeasurement sample_ext sample_measurement False
     (snd (AddBuilder sample_ext sample_builder sample_db0)))))))))"
  have "fst (RegisterCredentialsForBuilder ''alpha'' ''proxy'' ''cert'' ''k'' ''m1'' ''azure-tdx'' ''eu'' ?d) = None"
    by code_simp
  then have "RegisterCredentialsForBuilder ''alpha'' ''proxy'' ''cert'' ''k'' ''m1'' ''azure-tdx'' ''eu'' ?d =
      (None, sample_db)"
    unfolding sample_db_def by (metis prod.collapse)
  from RegisterCredentials_atomic [OF this] show ?thesis by simp
qed

text \<open>A registration for a builder of the database, with text the server accepts and no
  failing round trip, succeeds, and the next listing of the registry has it.\<close>

theorem RegisterCredentials_succeeds:
  assumes "db_reachable x d" "db_faults d = []" "b \<in> set (builder_names (tabs d))"
    "list_all pg_text [b, s, cert, mn, ty, reg]"
  shows "\<exists>d'. RegisterCredentialsForBuilder b s cert pk mn ty reg d = (None, d') \<and>
     registry (tabs d') (b, s) = Some \<lparr>cred_TLSCert = if cert \<noteq> [] then Some cert else None,
       cred_ECDSAPubKey = pk, cred_Region = reg\<rparr>"
proof -
  obtain d' where r: "RegisterCredentialsForBuilder b s cert pk mn ty reg d = (None, d')"
    using Register_succeeds [OF reachable_ok [OF assms(1)] assms(2-4)] by blast
  moreover from r have "registry (tabs d') (b, s) = Some \<lparr>cred_TLSCert = if cert \<noteq> [] then Some cert
      else None, cred_ECDSAPubKey = pk, cred_Region = reg\<rparr>"
    by (cases rule: RegisterCredentialsForBuilder_cases) (simp_all add: registry_replace)
  ultimately show ?thesis by blast
qed

theorem RegisterCredentials_succeeds_witness:
  "\<exists>d'. RegisterCredentialsForBuilder ''alpha'' ''relay'' [] ''pk'' ''m1'' ''azure-tdx'' [] sample_db = (None, d')"
proof -
  have "db_faults sample_db = []" "''alpha'' \<in> set (builder_names (tabs sample_db))"
    "list_all pg_text [''alpha'', ''relay'', [], ''m1'', ''azure-tdx'', []]"
    by code_simp+
  from RegisterCredentials_succeeds [OF sample_db_reachable this] show ?thesis by blast
qed

text \<open>A configuration that the server accepts for a builder of the database becomes the one
  that the next read returns, and the configurations of the other builders stay.\<close>

theorem AddBuilderConfig_readback:
  assumes "db_reachable x d" "db_faults d = []" "b \<in> set (builder_names (tabs d))"
    "pg_text b" "pg_text b'" "pg_jsonb x cfg = Some j"
  shows "\<exists>d'. AddBuilderConfig x b cfg d = (None, d') \<and>
     fst (GetActiveConfigForBuilder b' d') =
       (if b' = b then Inr j else fst (GetActiveConfigForBuilder b' d))"
proof -
  have ok: "tables_ok (tabs d)" by (rule reachable_ok [OF assms(1)])
  obtain d' where r: "AddBuilderConfig x b cfg d = (None, d')" and nf: "db_faults d' = []"
    using AddBuilderConfig_succeeds [OF ok assms(2,3,4,6)] by blast
  have "tables_ok (tabs d')"
    using keepsD [OF keeps_AddBuilderConfig ok, of x b cfg] r by simp
  moreover have "configured (tabs d') = (configured (tabs d))(b \<mapsto> j)"
    using r assms(6) by (cases rule: AddBuilderConfig_cases) (auto simp: configured_replace)
  ultimately show ?thesis
    using r nf ok assms(2,5) by (auto simp: GetActiveConfigForBuilder_configured)
qed

theorem AddBuilderConfig_readback_witness:
  "\<exists>d'. AddBuilderConfig sample_ext ''alpha'' ''{\"a\":1}'' sample_db = (None, d') \<and>
     fst (GetActiveConfigForBuilder ''alpha'' d') = Inr ''{\"a\":1}''"
proof -
  have "db_faults sample_db = []" "''alpha'' \<in> set (builder_names (tabs sample_db))"
    "pg_text ''alpha''" "pg_text ''alpha''" "pg_jsonb sample_ext ''{\"a\":1}'' = Some ''{\"a\":1}''"
    by code_simp+
  from AddBuilderConfig_readback [OF sample_db_reachable this] show ?thesis by simp
qed

end
