(* ===== verification/Database_List.thy ===== *)
theory Database_List
  imports Database_Ops
begin

text \<open>
  The listing of active builders with their service credentials: what the loop over the joined
  rows computes, and that in every reachable database the listing of a network has each active
  builder of the network exactly once, with exactly its active credentials, in the order of
  their service names.
\<close>

section \<open>The loop over the rows\<close>

definition to_credential :: "ServiceCredentialRegistration \<Rightarrow> ServiceCredential" where
  "to_credential c = \<lparr>sc_Service = sr_Service c, sc_TLSCert = sr_TLSCert c,
     sc_ECDSAPubKey = sr_ECDSAPubKey c, sc_Region = sr_Region c\<rparr>"

definition listed :: "dbBuilder \<Rightarrow> ServiceCredentialRegistration list \<Rightarrow> BuilderWithCredentials" where
  "listed b cs = \<lparr>bwc_Name = br_Name b, bwc_IPAddress = br_IPAddress b, bwc_DNSName = br_DNSName b,
     bwc_Credentials = map to_credential cs\<rparr>"

definition creds_in :: "bytes \<Rightarrow> joined list \<Rightarrow> ServiceCredentialRegistration list" where
  "creds_in n rows = List.map_filter snd (filter (\<lambda>r. br_Name (fst r) = n) rows)"

lemma creds_in_snoc:
  "creds_in n (rows @ [r]) = creds_in n rows @
     (if br_Name (fst r) = n then (case snd r of None \<Rightarrow> [] | Some c \<Rightarrow> [c]) else [])"
  by (auto simp: creds_in_def map_filter_def split: option.splits)

lemma creds_in_Nil: "n \<notin> (\<lambda>r. br_Name (fst r)) ` set rows \<Longrightarrow> creds_in n rows = []"
  by (auto simp: creds_in_def map_filter_def filter_empty_conv)

text \<open>The rows name builders consistently: one row of \<open>builders\<close> per name.\<close>

definition consistent :: "joined list \<Rightarrow> bool" where
  "consistent rows \<longleftrightarrow> inj_on br_Name (fst ` set rows)"

lemma add_credential_listed:
  "add_credential r (listed b cs) =
     listed b (cs @ (case snd r of None \<Rightarrow> [] | Some c \<Rightarrow> [c]))"
  by (simp add: add_credential_def listed_def to_credential_def split: option.splits)

definition scanned :: "joined list \<Rightarrow> (bytes, BuilderWithCredentials) gomap \<Rightarrow> bool" where
  "scanned rows m \<longleftrightarrow> distinct (map fst m) \<and> set (map fst m) = br_Name ` fst ` set rows \<and>
     (\<forall>b\<in>fst ` set rows. map_of m (br_Name b) = Some (listed b (creds_in (br_Name b) rows)))"

lemma scan_row_scanned:
  assumes "scanned rows m" "consistent (rows @ [r])"
  shows "scanned (rows @ [r]) (scan_row r m)"
proof -
  let ?n = "br_Name (fst r)"
  define old where "old = (case map_of m ?n of Some b \<Rightarrow> b
    | None \<Rightarrow> \<lparr>bwc_Name = ?n, bwc_IPAddress = br_IPAddress (fst r),
              bwc_DNSName = br_DNSName (fst r), bwc_Credentials = []\<rparr>)"
  have step: "scan_row r m = AList.update ?n (add_credential r old) m"
    by (simp add: scan_row_def old_def Let_def)
  have "old = listed (fst r) (creds_in ?n rows)"
  proof (cases "?n \<in> br_Name ` fst ` set rows")
    case True
    then have "fst r \<in> fst ` set rows"
      using assms(2) by (auto simp: consistent_def inj_on_def)
    then have "map_of m ?n = Some (listed (fst r) (creds_in ?n rows))"
      using assms(1) unfolding scanned_def by blast
    then show ?thesis by (simp add: old_def)
  next
    case False
    then have "map_of m ?n = None"
      using assms(1) by (simp add: scanned_def map_of_eq_None_iff)
    moreover have "creds_in ?n rows = []" using False by (intro creds_in_Nil) auto
    ultimately show ?thesis by (simp add: old_def listed_def)
  qed
  then have new: "map_of (scan_row r m) =
      (map_of m)(?n \<mapsto> listed (fst r) (creds_in ?n (rows @ [r])))"
    by (simp add: step update_conv' add_credential_listed creds_in_snoc)
  have "map_of (scan_row r m) (br_Name b) = Some (listed b (creds_in (br_Name b) (rows @ [r])))"
    if "b \<in> fst ` set (rows @ [r])" for b
  proof (cases "br_Name b = ?n")
    case True
    then have "b = fst r" using that assms(2) by (auto simp: consistent_def inj_on_def)
    then show ?thesis by (simp add: new)
  next
    case False
    then have "b \<in> fst ` set rows" using that by auto
    then have "map_of m (br_Name b) = Some (listed b (creds_in (br_Name b) rows))"
      using assms(1) unfolding scanned_def by blast
    then show ?thesis using False by (simp add: new creds_in_snoc)
  qed
  moreover have "distinct (map fst (scan_row r m))"
    using assms(1) by (simp add: step scanned_def distinct_update)
  moreover have "set (map fst (scan_row r m)) = br_Name ` fst ` set (rows @ [r])"
    using assms(1) by (simp add: step scanned_def dom_update)
  ultimately show ?thesis by (simp add: scanned_def)
qed

lemma scan_rows: "consistent rows \<Longrightarrow> scanned rows (fold scan_row rows [])"
proof (induction rows rule: rev_induct)
  case Nil
  then show ?case by (simp add: scanned_def)
next
  case (snoc r rows)
  then have "consistent rows" by (auto simp: consistent_def inj_on_def)
  with snoc show ?case by (simp add: scan_row_scanned)
qed

section \<open>The rows of the query\<close>

lemma left_join_set:
  "(b, oc) \<in> set (left_join t) \<longleftrightarrow> b \<in> set (builders t) \<and>
     (case oc of None \<Rightarrow> \<not> (\<exists>c\<in>set (service_credential_registrations t). sr_BuilderName c = br_Name b)
      | Some c \<Rightarrow> c \<in> set (service_credential_registrations t) \<and> sr_BuilderName c = br_Name b)"
  by (auto simp: left_join_def Let_def filter_empty_conv split: option.splits if_splits)

lemma active_in_join:
  assumes "tables_ok t"
  shows "fst ` set (filter (where_active nw) (left_join t)) =
     {b \<in> set (builders t). br_IsActive b \<and> br_Network b = nw}" (is "?L = ?R")
proof (rule set_eqI)
  fix b
  have "b \<in> ?L" if b: "b \<in> ?R"
  proof (cases "\<exists>c\<in>set (service_credential_registrations t). sr_BuilderName c = br_Name b")
    case True
    then obtain c where c: "c \<in> set (service_credential_registrations t)" "sr_BuilderName c = br_Name b"
      by blast
    then obtain a where "a \<in> set (active_creds t)" "cred_key a = cred_key c"
      using tables_okD(3) [OF assms] by fastforce
    with c have "a \<in> set (service_credential_registrations t)" "sr_IsActive a" "sr_BuilderName a = br_Name b"
      by (simp_all add: active_creds_def cred_key_def)
    with b have "(b, Some a) \<in> set (filter (where_active nw) (left_join t))"
      by (simp add: left_join_set where_active_def)
    then show ?thesis by force
  next
    case False
    with b have "(b, None) \<in> set (filter (where_active nw) (left_join t))"
      by (simp add: left_join_set where_active_def)
    then show ?thesis by force
  qed
  moreover have "b \<in> ?R" if "b \<in> ?L"
    using that by (auto simp: left_join_set where_active_def)
  ultimately show "b \<in> ?L \<longleftrightarrow> b \<in> ?R" by blast
qed

lemma creds_in_concat:
  "creds_in n (filter P (concat xss)) = concat (map (\<lambda>xs. creds_in n (filter P xs)) xss)"
  by (induction xss) (auto simp: creds_in_def map_filter_def)

lemma creds_in_own:
  assumes "br_IsActive b" "br_Network b = nw"
  shows "creds_in (br_Name b) (filter (where_active nw) (map (\<lambda>c. (b, Some c)) cs)) = filter sr_IsActive cs"
  using assms by (induction cs) (auto simp: creds_in_def map_filter_def where_active_def)

lemma concat_one:
  assumes "distinct (map k xs)" "x \<in> set xs" "\<And>y. y \<in> set xs \<Longrightarrow> k y \<noteq> k x \<Longrightarrow> f y = []"
  shows "concat (map f xs) = f x"
  using assms
proof (induction xs)
  case (Cons y ys)
  show ?case
  proof (cases "x = y")
    case True
    then have "\<forall>z\<in>set ys. f z = []" using Cons.prems by (auto simp: image_iff)
    with True show ?thesis by simp
  next
    case False
    then have "f y = []" using Cons.prems by (auto simp: image_iff)
    with Cons False show ?thesis by simp
  qed
qed simp

lemma creds_in_join:
  assumes "distinct (builder_names t)" "b \<in> set (builders t)" "br_IsActive b" "br_Network b = nw"
  shows "creds_in (br_Name b) (filter (where_active nw) (left_join t)) =
     filter (\<lambda>c. sr_BuilderName c = br_Name b) (active_creds t)"
proof -
  define join1 where "join1 = (\<lambda>b :: dbBuilder. let cs = filter (\<lambda>c. sr_BuilderName c = br_Name b)
     (service_credential_registrations t) in if cs = [] then [(b, None)] else map (\<lambda>c. (b, Some c)) cs)"
  have fst1: "\<forall>r\<in>set (join1 y). fst r = y" for y
    by (auto simp: join1_def Let_def)
  have "creds_in (br_Name b) (filter (where_active nw) (left_join t)) =
      creds_in (br_Name b) (filter (where_active nw) (join1 b))"
    unfolding left_join_def join1_def [symmetric] creds_in_concat map_map comp_def
  proof (rule concat_one [OF assms(1,2)])
    fix y :: dbBuilder assume "br_Name y \<noteq> br_Name b"
    then show "creds_in (br_Name b) (filter (where_active nw) (join1 y)) = []"
      using fst1 [of y] by (intro creds_in_Nil) fastforce
  qed
  also have "\<dots> = filter (\<lambda>c. sr_BuilderName c = br_Name b) (active_creds t)"
  proof (cases "filter (\<lambda>c. sr_BuilderName c = br_Name b) (service_credential_registrations t) = []")
    case True
    then have "filter (\<lambda>c. sr_BuilderName c = br_Name b) (active_creds t) = []"
      by (simp add: active_creds_def filter_empty_conv)
    with True show ?thesis
      by (simp add: join1_def creds_in_def map_filter_def)
  next
    case False
    then show ?thesis
      using creds_in_own [OF assms(3,4)]
      by (simp add: join1_def Let_def active_creds_def conj_commute)
  qed
  finally show ?thesis .
qed

section \<open>Order of the credentials\<close>

lemma sorted_creds:
  assumes "sorted (map (order_key x) rows)" "\<forall>r\<in>set rows. br_Name (fst r) = n"
  shows "sorted (map (\<lambda>c. pg_collate x (sr_Service c)) (List.map_filter snd rows))"
  using assms
proof (induction rows)
  case (Cons r rows)
  have "pg_collate x (sr_Service c) \<le> pg_collate x (sr_Service c')"
    if c: "snd r = Some c" and c': "c' \<in> set (List.map_filter snd rows)" for c c'
  proof -
    obtain r' where "r' \<in> set rows" "snd r' = Some c'"
      using c' by (auto simp: map_filter_def)
    moreover from this(1) have "order_key x r \<le> order_key x r'" using Cons.prems(1) by simp
    ultimately show ?thesis using Cons.prems(2) c by (simp add: order_key_def)
  qed
  with Cons show ?case by (auto simp: map_filter_simps split: option.splits)
qed (simp add: map_filter_simps)

lemma sorted_creds_in:
  "sorted (map (order_key x) rows) \<Longrightarrow>
   sorted (map (\<lambda>c. pg_collate x (sr_Service c)) (creds_in n rows))"
  unfolding creds_in_def by (rule sorted_creds [where n = n]) (simp_all add: sorted_filter)

lemma mset_creds_in: "mset rows = mset rows' \<Longrightarrow> mset (creds_in n rows) = mset (creds_in n rows')"
  by (simp add: creds_in_def map_filter_def mset_filter [symmetric] del: mset_filter)
     (metis mset_filter)

section \<open>The listing\<close>

definition service_of :: "ext \<Rightarrow> ServiceCredentialRegistration \<Rightarrow> BuilderServices" where
  "service_of x c = \<lparr>S_TLSCert = NullString (sr_TLSCert c),
     S_ECDSAPubKey = Bytes2Address x (sr_ECDSAPubKey c), S_Service = sr_Service c, S_Region = sr_Region c\<rparr>"

text \<open>The entry \<open>w\<close> of a listing shows the builder \<open>b\<close> with its active credentials.\<close>

definition shows_builder :: "ext \<Rightarrow> tables \<Rightarrow> dbBuilder \<Rightarrow> BuilderWithServices \<Rightarrow> bool" where
  "shows_builder x t b w \<longleftrightarrow>
     B_Name (BWS_Builder w) = br_Name b \<and>
     inet_scan x (br_IPAddress b) = Some (B_IPAddress (BWS_Builder w)) \<and>
     B_DNSName (BWS_Builder w) = NullString (br_DNSName b) \<and>
     mset (BWS_Services w) =
       image_mset (service_of x) (mset (filter (\<lambda>c. sr_BuilderName c = br_Name b) (active_creds t))) \<and>
     sorted (map (\<lambda>s. pg_collate x (S_Service s)) (BWS_Services w))"

lemma toDomain_listed:
  assumes "toDomainBuilderWithCredentials x (listed b cs) = Inr w"
  shows "B_Name (BWS_Builder w) = br_Name b \<and>
     inet_scan x (br_IPAddress b) = Some (B_IPAddress (BWS_Builder w)) \<and>
     B_DNSName (BWS_Builder w) = NullString (br_DNSName b) \<and>
     BWS_Services w = map (service_of x) cs"
  using assms
  by (auto simp: toDomainBuilderWithCredentials_def listed_def to_credential_def service_of_def
      split: option.splits)

lemma convert_builders_Inr:
  "convert_builders x l = Inr bs \<Longrightarrow> list_all2 (\<lambda>b w. toDomainBuilderWithCredentials x b = Inr w) l bs"
proof (induction l arbitrary: bs)
  case (Cons b l)
  then show ?case
    by (auto split: sum.splits)
qed auto

lemma scanned_entry:
  assumes "scanned rows m" "(n, v) \<in> set m"
  shows "\<exists>b\<in>fst ` set rows. n = br_Name b \<and> v = listed b (creds_in n rows)"
proof -
  have "n \<in> br_Name ` fst ` set rows"
    using assms unfolding scanned_def by force
  then obtain b where b: "b \<in> fst ` set rows" "n = br_Name b" by blast
  moreover have "map_of m n = Some v"
    using assms by (simp add: scanned_def)
  ultimately have "v = listed b (creds_in n rows)"
    using assms(1) unfolding scanned_def by auto
  with b show ?thesis by blast
qed

lemma select_joined_facts:
  assumes "tables_ok (tabs d)"
  shows "consistent (select_joined x nw d)"
    "fst ` set (select_joined x nw d) =
       {b \<in> set (builders (tabs d)). br_IsActive b \<and> br_Network b = nw}"
    "sorted (map (order_key x) (select_joined x nw d))"
    "mset (select_joined x nw d) = mset (filter (where_active nw) (left_join (tabs d)))"
proof -
  show fsts: "fst ` set (select_joined x nw d) =
       {b \<in> set (builders (tabs d)). br_IsActive b \<and> br_Network b = nw}"
    using active_in_join [OF assms, of nw] by (simp add: select_joined_def)
  have "inj_on br_Name (set (builders (tabs d)))"
    using tables_okD(5) [OF assms] by (simp add: distinct_map)
  then show "consistent (select_joined x nw d)"
    unfolding consistent_def fsts by (rule inj_on_subset) blast
qed (simp_all add: select_joined_def)

lemma listing_entry:
  assumes ok: "tables_ok (tabs d)" and m: "scanned (select_joined x nw d) m" "(n, v) \<in> set m"
    and conv: "toDomainBuilderWithCredentials x v = Inr w"
  shows "B_Name (BWS_Builder w) = n \<and> (\<exists>b\<in>set (builders (tabs d)). br_IsActive b \<and>
     br_Network b = nw \<and> shows_builder x (tabs d) b w)"
proof -
  let ?rows = "select_joined x nw d"
  note rows = select_joined_facts [OF ok, of x nw]
  obtain b where b: "b \<in> fst ` set ?rows" "n = br_Name b" "v = listed b (creds_in n ?rows)"
    using scanned_entry [OF m] by blast
  from b(1) have act: "b \<in> set (builders (tabs d))" "br_IsActive b" "br_Network b = nw"
    unfolding rows(2) by auto
  have "mset (creds_in n ?rows) = mset (filter (\<lambda>c. sr_BuilderName c = br_Name b) (active_creds (tabs d)))"
    using mset_creds_in [OF rows(4), of n] creds_in_join [OF tables_okD(5) [OF ok] act] b(2) by simp
  moreover have "sorted (map (\<lambda>c. pg_collate x (sr_Service c)) (creds_in n ?rows))"
    by (rule sorted_creds_in [OF rows(3)])
  ultimately show ?thesis
    using toDomain_listed [OF conv [unfolded b(3)]] act b(2)
    by (auto simp: shows_builder_def service_of_def comp_def)
qed

lemma listing_result:
  assumes ok: "tables_ok (tabs d)" and m: "scanned (select_joined x nw d) m"
    and conv: "convert_builders x (map snd (permute k m)) = Inr bs"
  shows "map (\<lambda>w. B_Name (BWS_Builder w)) bs = map fst (permute k m) \<and>
    (\<forall>w\<in>set bs. \<exists>b\<in>set (builders (tabs d)). br_IsActive b \<and> br_Network b = nw \<and>
       shows_builder x (tabs d) b w)"
proof -
  have "list_all2 (\<lambda>p w. toDomainBuilderWithCredentials x (snd p) = Inr w) (permute k m) bs"
    using convert_builders_Inr [OF conv] by (simp add: list_all2_map1)
  then have "list_all2 (\<lambda>p w. B_Name (BWS_Builder w) = fst p \<and>
      (\<exists>b\<in>set (builders (tabs d)). br_IsActive b \<and> br_Network b = nw \<and> shows_builder x (tabs d) b w))
      (permute k m) bs"
  proof (rule list.rel_mono_strong)
    fix p w assume p: "p \<in> set (permute k m)" "toDomainBuilderWithCredentials x (snd p) = Inr w"
    then have "(fst p, snd p) \<in> set m" by simp
    from listing_entry [OF ok m this p(2)] show "B_Name (BWS_Builder w) = fst p \<and>
      (\<exists>b\<in>set (builders (tabs d)). br_IsActive b \<and> br_Network b = nw \<and> shows_builder x (tabs d) b w)" .
  qed
  then show ?thesis
    by (induction rule: list_all2_induct) auto
qed

lemma GetActiveBuilders_result:
  assumes "GetActiveBuildersWithServiceCredentials x nw d = (Inr bs, d')"
  obtains fs k where "convert_builders x (map snd (permute k
     (fold scan_row (select_joined x nw (d\<lparr>db_faults := fs\<rparr>)) []))) = Inr bs"
  using assms
  by (cases rule: query_cases [of "[nw]" "select_joined x nw" d])
     (auto simp: GetActiveBuildersWithServiceCredentials_def)

lemma GetActiveBuilders_ok:
  assumes ok: "tables_ok (tabs d)"
    and res: "GetActiveBuildersWithServiceCredentials x nw d = (Inr bs, d')"
  shows "mset (map (\<lambda>w. B_Name (BWS_Builder w)) bs) =
      mset (map br_Name (filter (\<lambda>b. br_IsActive b \<and> br_Network b = nw) (builders (tabs d)))) \<and>
    (\<forall>w\<in>set bs. \<exists>b\<in>set (builders (tabs d)). br_IsActive b \<and> br_Network b = nw \<and>
       shows_builder x (tabs d) b w)"
proof -
  obtain fs k where conv: "convert_builders x (map snd (permute k
     (fold scan_row (select_joined x nw (d\<lparr>db_faults := fs\<rparr>)) []))) = Inr bs"
    by (rule GetActiveBuilders_result [OF res])
  let ?d = "d\<lparr>db_faults := fs\<rparr>" let ?m = "fold scan_row (select_joined x nw ?d) []"
  have ok': "tables_ok (tabs ?d)" using ok by simp
  note facts = select_joined_facts [OF ok', of x nw]
  have m: "scanned (select_joined x nw ?d) ?m" by (rule scan_rows [OF facts(1)])
  note result = listing_result [OF ok' m conv]
  have "distinct (builder_names (tabs d))" by (rule tables_okD(5) [OF ok])
  then have "distinct (map br_Name (filter (\<lambda>b. br_IsActive b \<and> br_Network b = nw) (builders (tabs d))))"
    by (rule distinct_map_filter)
  moreover have "distinct (map fst ?m)"
    "set (map fst ?m) = set (map br_Name (filter (\<lambda>b. br_IsActive b \<and> br_Network b = nw) (builders (tabs d))))"
    using m unfolding scanned_def facts(2) by auto
  ultimately have "mset (map fst ?m) =
      mset (map br_Name (filter (\<lambda>b. br_IsActive b \<and> br_Network b = nw) (builders (tabs d))))"
    by (simp only: set_eq_iff_mset_eq_distinct [symmetric])
  moreover have "mset (map (\<lambda>w. B_Name (BWS_Builder w)) bs) = mset (map fst ?m)"
    using result by (simp only: mset_map mset_permute)
  ultimately show ?thesis using result by simp
qed

text \<open>C33: In every reachable database, a listing of the active builders of a network has each
  active builder of the network exactly once and nothing else, and the entry of a builder has
  its address and DNS name and exactly its active service credentials, in the order of their
  service names under the database's collation.\<close>

theorem listing_complete:
  assumes "db_reachable x d" "GetActiveBuildersWithServiceCredentials x nw d = (Inr bs, d')"
  shows "mset (map (\<lambda>w. B_Name (BWS_Builder w)) bs) =
      mset (map br_Name (filter (\<lambda>b. br_IsActive b \<and> br_Network b = nw) (builders (tabs d)))) \<and>
    (\<forall>w\<in>set bs. \<exists>b\<in>set (builders (tabs d)). br_IsActive b \<and> br_Network b = nw \<and>
       shows_builder x (tabs d) b w)"
  by (rule GetActiveBuilders_ok [OF reachable_ok [OF assms(1)] assms(2)])

theorem listing_complete_witness:
  "\<exists>bs d'. GetActiveBuildersWithServiceCredentials sample_ext ''production'' sample_db = (Inr bs, d') \<and>
     mset (map (\<lambda>w. B_Name (BWS_Builder w)) bs) = {#''alpha''#}"
proof -
  let ?r = "GetActiveBuildersWithServiceCredentials sample_ext ''production'' sample_db"
  have "case fst ?r of Inl _ \<Rightarrow> False | Inr _ \<Rightarrow> True" by code_simp
  then obtain bs d' where r: "?r = (Inr bs, d')"
    by (cases ?r; cases "fst ?r") simp_all
  have "map br_Name (filter (\<lambda>b. br_IsActive b \<and> br_Network b = ''production'')
      (builders (tabs sample_db))) = [''alpha'']" by code_simp
  with r listing_complete [OF sample_db_reachable r] show ?thesis by simp
qed

end
