(* ===== verification/Builder_Hub.thy ===== *)
theory Builder_Hub
  imports Database_List
begin

text \<open>
  \<open>application/service.go\<close>: the interfaces \<open>BuilderDataAccessor\<close> and \<open>SecretAccessor\<close> as records
  of operations on the provider's state, the hub that holds one of each, and its operations.
  The contract of the data accessor is a locale; the hub's checks are proved sound and complete
  inside it, and it is interpreted on the database service.
\<close>

section \<open>Interfaces\<close>

record 'd BuilderDataAccessor =
  da_GetActiveMeasurements :: "'d \<Rightarrow> Measurement list result \<times> 'd"
  da_GetActiveBuildersWithServiceCredentials :: "bytes \<Rightarrow> 'd \<Rightarrow> BuilderWithServices list result \<times> 'd"
  da_GetActiveMeasurementsByType :: "bytes \<Rightarrow> 'd \<Rightarrow> Measurement list result \<times> 'd"
  da_GetBuilderByIP :: "bytes \<Rightarrow> 'd \<Rightarrow> Builder result \<times> 'd"
  da_GetActiveConfigForBuilder :: "bytes \<Rightarrow> 'd \<Rightarrow> bytes result \<times> 'd"
  da_RegisterCredentialsForBuilder ::
    "bytes \<Rightarrow> bytes \<Rightarrow> bytes \<Rightarrow> bytes \<Rightarrow> bytes \<Rightarrow> bytes \<Rightarrow> bytes \<Rightarrow> 'd \<Rightarrow> go_error option \<times> 'd"
  da_LogEvent :: "bytes \<Rightarrow> bytes \<Rightarrow> bytes \<Rightarrow> 'd \<Rightarrow> go_error option \<times> 'd"

text \<open>A secret backend may dereference a nil pointer of a client's answer.\<close>

record 's SecretAccessor =
  sa_GetSecretValues :: "bytes \<Rightarrow> 's \<Rightarrow> bytes result outcome \<times> 's"

record ('d, 's) BuilderHub =
  dataAccessor :: "'d BuilderDataAccessor"
  secretAccessor :: "'s SecretAccessor"

definition NewBuilderHub :: "'d BuilderDataAccessor \<Rightarrow> 's SecretAccessor \<Rightarrow> ('d, 's) BuilderHub" where
  "NewBuilderHub da sa = \<lparr>dataAccessor = da, secretAccessor = sa\<rparr>"

text \<open>The database service as a data accessor.\<close>

definition database_accessor :: "ext \<Rightarrow> db BuilderDataAccessor" where
  "database_accessor x = \<lparr>
     da_GetActiveMeasurements = GetActiveMeasurements,
     da_GetActiveBuildersWithServiceCredentials = GetActiveBuildersWithServiceCredentials x,
     da_GetActiveMeasurementsByType = GetActiveMeasurementsByType,
     da_GetBuilderByIP = GetBuilderByIP x,
     da_GetActiveConfigForBuilder = GetActiveConfigForBuilder,
     da_RegisterCredentialsForBuilder = RegisterCredentialsForBuilder,
     da_LogEvent = LogEvent\<rparr>"

section \<open>Measurement checks\<close>

fun matchesAnyExpected :: "bytes \<Rightarrow> bytes list \<Rightarrow> bool" where
  "matchesAnyExpected v [] = False"
| "matchesAnyExpected v (e # expected) = (if v = e then True else matchesAnyExpected v expected)"

text \<open>The loop over the fields of a template, in the order the map is ranged over; \<open>k\<close> selects
  the order.\<close>

fun check_fields :: "(bytes, bytes) gomap \<Rightarrow> (bytes \<times> SingleMeasurement) list \<Rightarrow> bool" where
  "check_fields measurement [] = True"
| "check_fields measurement ((f, v) # rest) =
     (case map_of measurement f of
        None \<Rightarrow> False
      | Some val \<Rightarrow>
          if \<not> matchesAnyExpected val (GetExpectedValues v) then False
          else check_fields measurement rest)"

definition checkMeasurement :: "nat \<Rightarrow> (bytes, bytes) gomap \<Rightarrow> Measurement \<Rightarrow> bool" where
  "checkMeasurement k measurement template =
     check_fields measurement (permute k (entries (M_Measurement template)))"

fun validateMeasurement :: "nat \<Rightarrow> (bytes, bytes) gomap \<Rightarrow> Measurement list \<Rightarrow> bytes result" where
  "validateMeasurement k measurement [] = Inl ErrNotFound"
| "validateMeasurement k measurement (m # ms) =
     (if checkMeasurement k measurement m then Inr (M_Name m)
      else validateMeasurement k measurement ms)"

section \<open>Operations of the hub\<close>

definition GetAllowedMeasurements :: "('d, 's) BuilderHub \<Rightarrow> 'd \<Rightarrow> Measurement list result \<times> 'd" where
  "GetAllowedMeasurements b = da_GetActiveMeasurements (dataAccessor b)"

definition GetActiveBuilders ::
  "('d, 's) BuilderHub \<Rightarrow> bytes \<Rightarrow> 'd \<Rightarrow> BuilderWithServices list result \<times> 'd" where
  "GetActiveBuilders b network = da_GetActiveBuildersWithServiceCredentials (dataAccessor b) network"

definition hub_LogEvent ::
  "('d, 's) BuilderHub \<Rightarrow> bytes \<Rightarrow> bytes \<Rightarrow> bytes \<Rightarrow> 'd \<Rightarrow> go_error option \<times> 'd" where
  "hub_LogEvent b eventName builderName name = da_LogEvent (dataAccessor b) eventName builderName name"

definition hub_RegisterCredentialsForBuilder :: "('d, 's) BuilderHub \<Rightarrow> bytes \<Rightarrow> bytes \<Rightarrow> bytes
    \<Rightarrow> bytes \<Rightarrow> bytes \<Rightarrow> bytes \<Rightarrow> bytes \<Rightarrow> 'd \<Rightarrow> go_error option \<times> 'd" where
  "hub_RegisterCredentialsForBuilder b = da_RegisterCredentialsForBuilder (dataAccessor b)"

definition GetConfigWithSecrets ::
  "('d, 's) BuilderHub \<Rightarrow> bytes \<Rightarrow> 'd \<times> 's \<Rightarrow> bytes result outcome \<times> ('d \<times> 's)" where
  "GetConfigWithSecrets b builderName ds =
     (case da_GetActiveConfigForBuilder (dataAccessor b) builderName (fst ds) of
        (Inl e, d') \<Rightarrow> (Ret (Inl (Wrap ''failing to fetch config for builder'' e)), (d', snd ds))
      | (Inr _, d') \<Rightarrow>
          (case sa_GetSecretValues (secretAccessor b) builderName (snd ds) of
             (Panic p, s') \<Rightarrow> (Panic p, (d', s'))
           | (Ret (Inl e), s') \<Rightarrow> (Ret (Inl (Wrap ''failing to fetch secrets for builder'' e)), (d', s'))
           | (Ret (Inr secr), s') \<Rightarrow> (Ret (Inr secr), (d', s'))))"

definition VerifyIPAndMeasurements :: "('d, 's) BuilderHub \<Rightarrow> nat \<Rightarrow> bytes \<Rightarrow> (bytes, bytes) gomap
    \<Rightarrow> bytes \<Rightarrow> 'd \<Rightarrow> (Builder \<times> bytes) result \<times> 'd" where
  "VerifyIPAndMeasurements b k ip measurement attestationType d =
     (case da_GetActiveMeasurementsByType (dataAccessor b) attestationType d of
        (Inl e, d1) \<Rightarrow> (Inl (Wrap ''failing to fetch corresponding measurement data'' e), d1)
      | (Inr measurements, d1) \<Rightarrow>
          (case validateMeasurement k measurement measurements of
             Inl e \<Rightarrow> (Inl (Wrap ''failing to validate measurement'' e), d1)
           | Inr measurementName \<Rightarrow>
               (case da_GetBuilderByIP (dataAccessor b) ip d1 of
                  (Inl e, d2) \<Rightarrow> (Inl (Wrap ''failing to fetch builder by ip'' e), d2)
                | (Inr builder, d2) \<Rightarrow> (Inr (builder, measurementName), d2))))"

section \<open>What the checks decide\<close>

lemma matchesAnyExpected_iff: "matchesAnyExpected v es \<longleftrightarrow> v \<in> set es"
  by (induction es) auto

text \<open>A measurement satisfies a template: every field of the template is measured, with one of
  its expected values. This does not mention an order.\<close>

definition satisfies :: "(bytes, bytes) gomap \<Rightarrow> Measurement \<Rightarrow> bool" where
  "satisfies measurement template \<longleftrightarrow>
     (\<forall>(f, v)\<in>set (entries (M_Measurement template)).
        \<exists>val\<in>set (GetExpectedValues v). map_of measurement f = Some val)"

lemma check_fields_iff:
  "check_fields measurement fvs \<longleftrightarrow>
     (\<forall>(f, v)\<in>set fvs. \<exists>val\<in>set (GetExpectedValues v). map_of measurement f = Some val)"
  by (induction fvs) (auto simp: matchesAnyExpected_iff split: option.splits if_splits)

lemma checkMeasurement_satisfies: "checkMeasurement k measurement t \<longleftrightarrow> satisfies measurement t"
  by (simp add: checkMeasurement_def satisfies_def check_fields_iff)

lemma validateMeasurement_Inr:
  "validateMeasurement k measurement ms = Inr n \<Longrightarrow>
     \<exists>m\<in>set ms. M_Name m = n \<and> satisfies measurement m"
  by (induction ms) (auto simp: checkMeasurement_satisfies split: if_splits)

lemma validateMeasurement_Inl:
  "validateMeasurement k measurement ms = Inl e \<longleftrightarrow>
     e = ErrNotFound \<and> (\<forall>m\<in>set ms. \<not> satisfies measurement m)"
  by (induction ms) (auto simp: checkMeasurement_satisfies)

lemma validateMeasurement_complete:
  assumes "m \<in> set ms" "satisfies measurement m"
  shows "\<exists>n. validateMeasurement k measurement ms = Inr n"
proof (cases "validateMeasurement k measurement ms")
  case (Inl e)
  with assms show ?thesis by (auto simp: validateMeasurement_Inl)
qed blast

section \<open>The contract of the data accessor\<close>

text \<open>\<open>allowed d ty m\<close>: the measurement \<open>m\<close> is whitelisted and active for the attestation type
  \<open>ty\<close>. \<open>builder_at d ip b\<close>: \<open>b\<close> is an active builder with the address \<open>ip\<close>. A call that
  succeeds returns such values, and a read changes neither.\<close>

locale builder_data =
  fixes da :: "'d BuilderDataAccessor"
    and inv :: "'d \<Rightarrow> bool"
    and allowed :: "'d \<Rightarrow> bytes \<Rightarrow> Measurement \<Rightarrow> bool"
    and builder_at :: "'d \<Rightarrow> bytes \<Rightarrow> Builder \<Rightarrow> bool"
  assumes measurements_sound: "inv d \<Longrightarrow> da_GetActiveMeasurementsByType da ty d = (Inr ms, d') \<Longrightarrow>
      m \<in> set ms \<Longrightarrow> allowed d ty m"
    and measurements_keep: "inv d \<Longrightarrow> da_GetActiveMeasurementsByType da ty d = (r, d') \<Longrightarrow>
      inv d' \<and> allowed d' = allowed d \<and> builder_at d' = builder_at d"
    and builder_sound: "inv d \<Longrightarrow> da_GetBuilderByIP da ip d = (Inr b, d') \<Longrightarrow> builder_at d ip b"
    and builder_keep: "inv d \<Longrightarrow> da_GetBuilderByIP da ip d = (r', d') \<Longrightarrow>
      inv d' \<and> allowed d' = allowed d \<and> builder_at d' = builder_at d"
begin

text \<open>Who passes the check is an active builder at the address, and the named measurement is an
  active one of the attestation type that the given measurement satisfies.\<close>

lemma Verify_sound:
  assumes "inv d" "dataAccessor hub = da"
    and "VerifyIPAndMeasurements hub k ip measurement ty d = (Inr (b, n), d')"
  shows "builder_at d ip b \<and> (\<exists>t. allowed d ty t \<and> M_Name t = n \<and> satisfies measurement t)"
proof -
  obtain r1 d1 where r1: "da_GetActiveMeasurementsByType da ty d = (r1, d1)" by fastforce
  from assms r1 obtain ms where ms: "r1 = Inr ms" "validateMeasurement k measurement ms = Inr n"
    and b: "da_GetBuilderByIP da ip d1 = (Inr b, d')"
    by (auto simp: VerifyIPAndMeasurements_def split: sum.splits prod.splits)
  have keep: "inv d1" "builder_at d1 = builder_at d"
    using measurements_keep [OF assms(1) r1] by simp_all
  have "builder_at d ip b" using builder_sound [OF keep(1) b] keep(2) by simp
  moreover obtain t where "t \<in> set ms" "M_Name t = n" "satisfies measurement t"
    using validateMeasurement_Inr [OF ms(2)] by blast
  ultimately show ?thesis
    using measurements_sound [OF assms(1)] r1 ms(1) by blast
qed

lemma Verify_keep:
  assumes "inv d" "dataAccessor hub = da"
    and "VerifyIPAndMeasurements hub k ip measurement ty d = (r, d')"
  shows "inv d' \<and> allowed d' = allowed d \<and> builder_at d' = builder_at d"
proof -
  obtain r1 d1 where r1: "da_GetActiveMeasurementsByType da ty d = (r1, d1)" by fastforce
  obtain r2 d2 where r2: "da_GetBuilderByIP da ip d1 = (r2, d2)" by fastforce
  note k1 = measurements_keep [OF assms(1) r1]
  note k2 = builder_keep [OF k1 [THEN conjunct1] r2]
  from assms r1 r2 have "d' = d1 \<or> d' = d2"
    by (auto simp: VerifyIPAndMeasurements_def split: sum.splits)
  with k1 k2 show ?thesis by auto
qed

end

text \<open>The same accessor while the provider is healthy: calls do not fail, and they find what
  there is.\<close>

locale healthy_builder_data = builder_data da inv allowed builder_at
  for da :: "'d BuilderDataAccessor" and inv and allowed and builder_at +
  fixes healthy :: "'d \<Rightarrow> bool"
    and type_ok :: "bytes \<Rightarrow> bool"
    and ip_ok :: "bytes \<Rightarrow> bool"
  assumes healthy_inv: "healthy d \<Longrightarrow> inv d"
    and measurements_complete: "healthy d \<Longrightarrow> type_ok ty \<Longrightarrow>
      \<exists>ms d'. da_GetActiveMeasurementsByType da ty d = (Inr ms, d') \<and> healthy d' \<and>
        (\<forall>m. allowed d ty m \<longrightarrow> m \<in> set ms)"
    and builder_complete: "healthy d \<Longrightarrow> ip_ok ip \<Longrightarrow> builder_at d ip b0 \<Longrightarrow>
      \<exists>b. fst (da_GetBuilderByIP da ip d) = Inr b"
    and builder_absent: "healthy d \<Longrightarrow> ip_ok ip \<Longrightarrow> \<forall>b. \<not> builder_at d ip b \<Longrightarrow>
      fst (da_GetBuilderByIP da ip d) = Inl ErrNotFound"
begin

lemma Verify_complete:
  assumes "healthy d" "dataAccessor hub = da" "type_ok ty" "ip_ok ip"
    and "allowed d ty t" "satisfies measurement t" "builder_at d ip b0"
  shows "\<exists>b n. fst (VerifyIPAndMeasurements hub k ip measurement ty d) = Inr (b, n)"
proof -
  obtain ms d1 where m: "da_GetActiveMeasurementsByType da ty d = (Inr ms, d1)" "healthy d1" "t \<in> set ms"
    using measurements_complete [OF assms(1,3)] assms(5) by blast
  obtain n where n: "validateMeasurement k measurement ms = Inr n"
    using validateMeasurement_complete [OF m(3) assms(6)] by blast
  have "builder_at d1 ip b0"
    using measurements_keep [OF healthy_inv [OF assms(1)] m(1)] assms(7) by simp
  then obtain b where "fst (da_GetBuilderByIP da ip d1) = Inr b"
    using builder_complete [OF m(2) assms(4)] by blast
  then show ?thesis
    using assms(2) m(1) n by (auto simp: VerifyIPAndMeasurements_def split: prod.splits)
qed

lemma Verify_refuses:
  assumes "healthy d" "dataAccessor hub = da" "type_ok ty" "ip_ok ip"
    and "(\<forall>t. allowed d ty t \<longrightarrow> \<not> satisfies measurement t) \<or> (\<forall>b. \<not> builder_at d ip b)"
  shows "\<exists>e. fst (VerifyIPAndMeasurements hub k ip measurement ty d) = Inl e \<and> errors_Is e ErrNotFound"
proof -
  obtain ms d1 where m: "da_GetActiveMeasurementsByType da ty d = (Inr ms, d1)" "healthy d1"
    using measurements_complete [OF assms(1,3)] by blast
  have inv: "inv d" by (rule healthy_inv [OF assms(1)])
  show ?thesis
  proof (cases "validateMeasurement k measurement ms")
    case (Inl e)
    then have "e = ErrNotFound" by (simp add: validateMeasurement_Inl)
    with Inl m(1) assms(2) show ?thesis by (simp add: VerifyIPAndMeasurements_def)
  next
    case (Inr n)
    then obtain t where "t \<in> set ms" "satisfies measurement t"
      using validateMeasurement_Inr by blast
    then have "\<forall>b. \<not> builder_at d ip b"
      using assms(5) measurements_sound [OF inv m(1)] by blast
    then have "\<forall>b. \<not> builder_at d1 ip b"
      using measurements_keep [OF inv m(1)] by simp
    then have "fst (da_GetBuilderByIP da ip d1) = Inl ErrNotFound"
      by (rule builder_absent [OF m(2) assms(4)])
    with Inr m(1) assms(2) show ?thesis
      by (auto simp: VerifyIPAndMeasurements_def split: prod.splits)
  qed
qed

end

section \<open>The database service fulfils the contract\<close>

definition db_allowed :: "db \<Rightarrow> bytes \<Rightarrow> Measurement \<Rightarrow> bool" where
  "db_allowed d ty m \<longleftrightarrow> (\<exists>r\<in>set (measurements_whitelist (tabs d)).
     mr_IsActive r \<and> mr_AttestationType r = ty \<and> convertMeasurementToDomain r = Inr m)"

definition db_builder_at :: "ext \<Rightarrow> db \<Rightarrow> bytes \<Rightarrow> Builder \<Rightarrow> bool" where
  "db_builder_at x d ip b \<longleftrightarrow> (\<exists>r\<in>set (builders (tabs d)).
     br_IsActive r \<and> inet_value x ip = Inr (Some (br_IPAddress r)) \<and> convertBuilderToDomain x r = Inr b)"

text \<open>No round trip fails, every active template is a readable document, every stored address
  can be scanned.\<close>

definition db_healthy :: "ext \<Rightarrow> db \<Rightarrow> bool" where
  "db_healthy x d \<longleftrightarrow> tables_ok (tabs d) \<and> db_faults d = [] \<and>
     (\<forall>r\<in>set (measurements_whitelist (tabs d)). mr_IsActive r \<longrightarrow> \<not> isl (convertMeasurementToDomain r)) \<and>
     (\<forall>r\<in>set (builders (tabs d)). \<not> isl (convertBuilderToDomain x r))"

lemma convert_all_Inr:
  "convert_all rows = Inr ms \<Longrightarrow>
     (\<forall>m\<in>set ms. \<exists>r\<in>set rows. convertMeasurementToDomain r = Inr m) \<and>
     (\<forall>r\<in>set rows. \<exists>m\<in>set ms. convertMeasurementToDomain r = Inr m)"
  by (induction rows arbitrary: ms) (auto split: sum.splits)

lemma convert_all_total:
  "\<forall>r\<in>set rows. \<not> isl (convertMeasurementToDomain r) \<Longrightarrow> \<exists>ms. convert_all rows = Inr ms"
  by (induction rows) (auto split: sum.splits)

text \<open>The outcomes of the two reads.\<close>

lemma GetActiveMeasurementsByType_cases:
  obtains (fails) e d' where "GetActiveMeasurementsByType ty d = (Inl e, d')"
  | (found) fs rs where "set rs = {r \<in> set (measurements_whitelist (tabs d)). mr_IsActive r \<and> mr_AttestationType r = ty}"
      "GetActiveMeasurementsByType ty d = (convert_all rs, d\<lparr>db_faults := fs\<rparr>)"
proof (cases rule: query_cases [of "[ty]"
    "select_measurements (\<lambda>m. mr_IsActive m \<and> mr_AttestationType m = ty)" d])
  case (rows fs)
  show ?thesis
    by (rule found [where rs = "select_measurements (\<lambda>m. mr_IsActive m \<and> mr_AttestationType m = ty)
        (d\<lparr>db_faults := fs\<rparr>)" and fs = fs])
       (use rows in \<open>auto simp: GetActiveMeasurementsByType_def select_measurements_def\<close>)
next
  case (failed fs e)
  then show ?thesis
    by (intro fails [of e "d\<lparr>db_faults := fs\<rparr>"])
       (auto simp: GetActiveMeasurementsByType_def bad_text_def)
qed

lemma GetBuilderByIP_Inr:
  assumes "GetBuilderByIP x ip d = (Inr b, d')"
  shows "db_builder_at x d ip b"
proof (cases "inet_value x ip")
  case (Inr p)
  let ?f = "\<lambda>d. permute (db_seed d) (filter (\<lambda>b. Some (br_IPAddress b) = p \<and> br_IsActive b) (builders (tabs d)))"
  show ?thesis
  proof (cases rule: query_cases [of "[]" ?f d])
    case (rows fs)
    then obtain r rs where "?f (d\<lparr>db_faults := fs\<rparr>) = r # rs" "convertBuilderToDomain x r = Inr b"
      using assms Inr by (auto simp: GetBuilderByIP_def first_row_def split: list.splits)
    moreover from this(1) have "r \<in> set (filter (\<lambda>b. Some (br_IPAddress b) = p \<and> br_IsActive b) (builders (tabs d)))"
      by (metis db.select_convs(1) db.update_convs(8) db.surjective list.set_intros(1) set_permute)
    ultimately show ?thesis using Inr by (auto simp: db_builder_at_def)
  qed (use assms Inr in \<open>auto simp: GetBuilderByIP_def first_row_def\<close>)
qed (use assms in \<open>simp add: GetBuilderByIP_def\<close>)

lemma GetBuilderByIP_healthy:
  assumes "db_healthy x d" "inet_value x ip = Inr (Some a)"
  shows "fst (GetBuilderByIP x ip d) =
     (case permute (db_seed d) (filter (\<lambda>b. br_IPAddress b = a \<and> br_IsActive b) (builders (tabs d))) of
        [] \<Rightarrow> Inl ErrNotFound | r # _ \<Rightarrow> convertBuilderToDomain x r)"
  using assms
  by (auto simp: GetBuilderByIP_def first_row_def query_def next_fault_def db_healthy_def split: list.splits)

lemma db_keep:
  assumes "tabs d' = tabs d"
  shows "db_allowed d' = db_allowed d" "db_builder_at x d' = db_builder_at x d"
  using assms by (simp_all add: db_allowed_def db_builder_at_def fun_eq_iff)

interpretation dbd: builder_data "database_accessor x" "\<lambda>d. tables_ok (tabs d)" db_allowed "db_builder_at x"
proof
  fix d ty ms d' m
  assume "da_GetActiveMeasurementsByType (database_accessor x) ty d = (Inr ms, d')" "m \<in> set ms"
  then show "db_allowed d ty m"
    by (cases rule: GetActiveMeasurementsByType_cases [of ty d])
       (auto simp: database_accessor_def db_allowed_def dest!: convert_all_Inr, blast)
next
  fix d ty r d'
  assume "tables_ok (tabs d)" "da_GetActiveMeasurementsByType (database_accessor x) ty d = (r, d')"
  moreover from this(2) have "tabs d' = tabs d"
    using tabs_GetActiveMeasurementsByType [of ty d] by (simp add: database_accessor_def)
  ultimately show "tables_ok (tabs d') \<and> db_allowed d' = db_allowed d \<and> db_builder_at x d' = db_builder_at x d"
    using db_keep(1) [of d' d] db_keep(2) [of d' d x] by simp
next
  fix d ip b d'
  assume "da_GetBuilderByIP (database_accessor x) ip d = (Inr b, d')"
  then show "db_builder_at x d ip b"
    by (intro GetBuilderByIP_Inr) (simp add: database_accessor_def)
next
  fix d ip r' d'
  assume "tables_ok (tabs d)" "da_GetBuilderByIP (database_accessor x) ip d = (r', d')"
  moreover from this(2) have "tabs d' = tabs d"
    using tabs_GetBuilderByIP [of x ip d] by (simp add: database_accessor_def)
  ultimately show "tables_ok (tabs d') \<and> db_allowed d' = db_allowed d \<and> db_builder_at x d' = db_builder_at x d"
    using db_keep(1) [of d' d] db_keep(2) [of d' d x] by simp
qed

lemma GetActiveMeasurementsByType_healthy:
  assumes "db_healthy x d" "pg_text ty"
  shows "\<exists>ms. GetActiveMeasurementsByType ty d = (Inr ms, d) \<and> (\<forall>m. db_allowed d ty m \<longrightarrow> m \<in> set ms)"
proof -
  define rs where "rs = select_measurements (\<lambda>m. mr_IsActive m \<and> mr_AttestationType m = ty) d"
  have eq: "GetActiveMeasurementsByType ty d = (convert_all rs, d)"
    using assms by (simp add: GetActiveMeasurementsByType_def query_def next_fault_def db_healthy_def rs_def)
  have set: "set rs = {r \<in> set (measurements_whitelist (tabs d)). mr_IsActive r \<and> mr_AttestationType r = ty}"
    by (auto simp: rs_def select_measurements_def)
  then have "\<forall>r\<in>set rs. \<not> isl (convertMeasurementToDomain r)"
    using assms(1) by (auto simp: db_healthy_def)
  then obtain ms where ms: "convert_all rs = Inr ms" using convert_all_total by blast
  then have "\<forall>m. db_allowed d ty m \<longrightarrow> m \<in> set ms"
    using convert_all_Inr [OF ms] set by (force simp: db_allowed_def)
  with eq ms show ?thesis by simp
qed

interpretation dbh: healthy_builder_data "database_accessor x" "\<lambda>d. tables_ok (tabs d)" db_allowed
  "db_builder_at x" "db_healthy x" pg_text "\<lambda>ip. \<exists>a. inet_value x ip = Inr (Some a)"
proof
  show "tables_ok (tabs d)" if "db_healthy x d" for d
    using that by (simp add: db_healthy_def)
next
  fix d ty
  assume "db_healthy x d" "pg_text ty"
  then show "\<exists>ms d'. da_GetActiveMeasurementsByType (database_accessor x) ty d = (Inr ms, d') \<and>
      db_healthy x d' \<and> (\<forall>m. db_allowed d ty m \<longrightarrow> m \<in> set ms)"
    using GetActiveMeasurementsByType_healthy [of x d ty] by (auto simp: database_accessor_def)
next
  fix d ip b0
  assume h: "db_healthy x d" "\<exists>a. inet_value x ip = Inr (Some a)" "db_builder_at x d ip b0"
  then obtain a where a: "inet_value x ip = Inr (Some a)" by blast
  let ?rs = "permute (db_seed d) (filter (\<lambda>b. br_IPAddress b = a \<and> br_IsActive b) (builders (tabs d)))"
  have "set ?rs \<noteq> {}" using h(3) a by (auto simp: db_builder_at_def)
  then obtain r rs where r: "?rs = r # rs" by (cases ?rs) auto
  then have "r \<in> set ?rs" by (metis list.set_intros(1))
  then have "\<not> isl (convertBuilderToDomain x r)" using h(1) by (auto simp: db_healthy_def)
  then show "\<exists>b. fst (da_GetBuilderByIP (database_accessor x) ip d) = Inr b"
    using GetBuilderByIP_healthy [OF h(1) a] r
    by (cases "convertBuilderToDomain x r") (auto simp: database_accessor_def)
next
  fix d ip
  assume h: "db_healthy x d" "\<exists>a. inet_value x ip = Inr (Some a)" "\<forall>b. \<not> db_builder_at x d ip b"
  then obtain a where a: "inet_value x ip = Inr (Some a)" by blast
  have "filter (\<lambda>b. br_IPAddress b = a \<and> br_IsActive b) (builders (tabs d)) = []"
  proof (rule ccontr)
    assume "filter (\<lambda>b. br_IPAddress b = a \<and> br_IsActive b) (builders (tabs d)) \<noteq> []"
    then obtain r where "r \<in> set (builders (tabs d))" "br_IPAddress r = a" "br_IsActive r"
      by (auto simp: filter_empty_conv)
    moreover from this(1) obtain b where "convertBuilderToDomain x r = Inr b"
      using h(1) by (auto simp: db_healthy_def isl_def) (metis sum.exhaust)
    ultimately show False using h(3) a by (auto simp: db_builder_at_def)
  qed
  then show "fst (da_GetBuilderByIP (database_accessor x) ip d) = Inl ErrNotFound"
    using GetBuilderByIP_healthy [OF h(1) a] by (simp add: database_accessor_def)
qed

section \<open>Properties\<close>

text \<open>C35: The measurement check decides, for every order in which the template is ranged over,
  whether each field of the template is measured with one of its expected values (the list
  \<open>expected_any\<close> when it is not empty, else the single \<open>expected\<close>, else no value); a template
  without fields accepts everything.\<close>

theorem checkMeasurement_correct:
  "checkMeasurement k measurement t \<longleftrightarrow>
     (\<forall>(f, v)\<in>set (entries (M_Measurement t)).
        \<exists>val. map_of measurement f = Some val \<and>
          (if ExpectedAny v \<noteq> [] then val \<in> set (ExpectedAny v)
           else Expected v \<noteq> [] \<and> val = Expected v))"
  unfolding checkMeasurement_satisfies satisfies_def
  by (intro ball_cong refl) (auto simp: GetExpectedValues_def split: if_splits)

definition sample_template :: Measurement where
  "sample_template = \<lparr>M_Name = ''m'', M_AttestationType = ''tdx'', M_Measurement = Some
     [(''4'', \<lparr>Expected = ''zz'', ExpectedAny = [''aa'', ''bb'']\<rparr>),
      (''9'', \<lparr>Expected = ''cc'', ExpectedAny = []\<rparr>)]\<rparr>"

theorem checkMeasurement_correct_witness:
  "checkMeasurement 1 [(''9'', ''cc''), (''4'', ''bb''), (''11'', ''x'')] sample_template \<and>
   \<not> checkMeasurement 1 [(''9'', ''cc''), (''4'', ''zz'')] sample_template"
  using checkMeasurement_correct [of 1 "[(''9'', ''cc''), (''4'', ''bb''), (''11'', ''x'')]" sample_template]
    checkMeasurement_correct [of 1 "[(''9'', ''cc''), (''4'', ''zz'')]" sample_template]
  by (simp add: sample_template_def)

text \<open>When the hub verifies an address and a measurement successfully, the builder it returns
  is active in the database and has that address, and the measurement name it returns is that
  of an active whitelisted measurement of the attestation type whose template the measurement
  satisfies.\<close>

theorem VerifyIPAndMeasurements_sound:
  assumes "db_reachable x d"
    and "VerifyIPAndMeasurements (NewBuilderHub (database_accessor x) sa) k ip measurement ty d
      = (Inr (b, n), d')"
  shows "(\<exists>r\<in>set (builders (tabs d)). br_IsActive r \<and> br_Name r = B_Name b \<and>
       br_Network r = B_Network b \<and> inet_value x ip = Inr (Some (br_IPAddress r))) \<and>
     (\<exists>r\<in>set (measurements_whitelist (tabs d)). mr_IsActive r \<and> mr_AttestationType r = ty \<and> mr_Name r = n \<and>
       (\<exists>t. convertMeasurementToDomain r = Inr t \<and> satisfies measurement t))"
proof -
  have "db_builder_at x d ip b \<and> (\<exists>t. db_allowed d ty t \<and> M_Name t = n \<and> satisfies measurement t)"
    by (rule dbd.Verify_sound [OF reachable_ok [OF assms(1)] _ assms(2)]) (simp add: NewBuilderHub_def)
  moreover have "M_Name t = mr_Name r" if "convertMeasurementToDomain r = Inr t" for r t
    using that by (auto simp: convertMeasurementToDomain_def split: sum.splits)
  moreover have "br_Name r = B_Name b \<and> br_Network r = B_Network b" if "convertBuilderToDomain x r = Inr b" for r b
    using that by (auto simp: convertBuilderToDomain_def split: option.splits)
  ultimately show ?thesis unfolding db_builder_at_def db_allowed_def by metis
qed

definition inmem_accessor :: "InmemorySecretService SecretAccessor" where
  "inmem_accessor = \<lparr>sa_GetSecretValues = \<lambda>b s. (Ret (inmem_GetSecretValues s b), s)\<rparr>"

theorem VerifyIPAndMeasurements_sound_witness:
  "\<exists>r\<in>set (builders (tabs sample_db)). br_IsActive r \<and> br_Name r = ''alpha''"
proof -
  let ?v = "VerifyIPAndMeasurements (NewBuilderHub (database_accessor sample_ext) inmem_accessor) 5
     sample_ip [(''4'', ''ab'')] ''azure-tdx'' sample_db"
  have "(case fst ?v of Inl _ \<Rightarrow> False | Inr (b, n) \<Rightarrow> B_Name b = ''alpha'' \<and> n = ''m1'')" by code_simp
  then obtain b where "fst ?v = Inr (b, ''m1'')" and b: "B_Name b = ''alpha''"
    by (auto split: sum.splits prod.splits)
  then have "?v = (Inr (b, ''m1''), snd ?v)" by (metis prod.collapse)
  from VerifyIPAndMeasurements_sound [OF sample_db_reachable this] b show ?thesis by auto
qed

text \<open>On a database that answers, with a type that is text and an address that can be sent,
  the hub accepts exactly when some active whitelisted template of the attestation type is
  satisfied and some active builder has the address; it refuses with the error ErrNotFound.\<close>

theorem VerifyIPAndMeasurements_decides:
  assumes "db_healthy x d" "pg_text ty" "inet_value x ip = Inr (Some a)"
  shows "let v = fst (VerifyIPAndMeasurements (NewBuilderHub (database_accessor x) sa) k ip measurement ty d) in
    if (\<exists>t. db_allowed d ty t \<and> satisfies measurement t) \<and> (\<exists>b. db_builder_at x d ip b)
    then \<exists>b n. v = Inr (b, n) else \<exists>e. v = Inl e \<and> errors_Is e ErrNotFound"
proof -
  let ?hub = "NewBuilderHub (database_accessor x) sa"
  have hub: "dataAccessor ?hub = database_accessor x" by (simp add: NewBuilderHub_def)
  have ip: "\<exists>a. inet_value x ip = Inr (Some a)" using assms(3) by blast
  show ?thesis
    using dbh.Verify_complete [OF assms(1) hub assms(2) ip, of _ measurement _ k]
      dbh.Verify_refuses [OF assms(1) hub assms(2) ip, of measurement k]
    unfolding Let_def by auto
qed

theorem VerifyIPAndMeasurements_decides_witness:
  "\<exists>e. fst (VerifyIPAndMeasurements (NewBuilderHub (database_accessor sample_ext) inmem_accessor) 0
     sample_ip [(''4'', ''cd'')] ''azure-tdx'' sample_db) = Inl e \<and> errors_Is e ErrNotFound"
proof -
  have h: "db_healthy sample_ext sample_db" "pg_text ''azure-tdx''"
    "inet_value sample_ext sample_ip = Inr (Some sample_ip)" by code_simp+
  have "\<forall>r\<in>set (measurements_whitelist (tabs sample_db)).
      case convertMeasurementToDomain r of Inl _ \<Rightarrow> True | Inr t \<Rightarrow> \<not> satisfies [(''4'', ''cd'')] t"
    by code_simp
  then have "\<not> (\<exists>t. db_allowed sample_db ''azure-tdx'' t \<and> satisfies [(''4'', ''cd'')] t)"
    by (auto simp: db_allowed_def)
  with VerifyIPAndMeasurements_decides [OF h, of inmem_accessor 0 "[(''4'', ''cd'')]"]
  show ?thesis unfolding Let_def by (simp split: if_splits)
qed

end
