(* ===== verification/Config_Utils.thy ===== *)
theory Config_Utils
  imports Domain
begin

text \<open>
  \<open>application/config_utils.go\<close>: JSON values read into \<open>interface{}\<close>, the flattening of a
  document into dotted keys, and the merge of secrets into a configuration. Ranging over a map
  has no specified order: the order of each map is selected by the oracle \<open>ord\<close> at the path of
  the map. The flattened map is characterised independently of that order.
\<close>

section \<open>Values of type interface{}\<close>

text \<open>A number is the text that \<open>json.Marshal\<close> writes for it.\<close>

datatype ival =
    INil
  | IBool bool
  | INum bytes
  | IStr bytes
  | IArr "ival list"
  | IMap "(bytes \<times> ival) list"

text \<open>Decoding into an \<open>interface{}\<close>; a later member replaces an earlier one with the same key.\<close>

fun dec_any :: "ext \<Rightarrow> json \<Rightarrow> ival option"
  and dec_any_list :: "ext \<Rightarrow> json list \<Rightarrow> ival list option"
  and dec_any_members :: "ext \<Rightarrow> (bytes \<times> json) list \<Rightarrow> (bytes, ival) gomap \<Rightarrow> (bytes, ival) gomap option" where
  "dec_any x JNull = Some INil"
| "dec_any x (JBool b) = Some (IBool b)"
| "dec_any x (JNum n) = map_option INum (float64_text x n)"
| "dec_any x (JStr s) = Some (IStr (unquote s))"
| "dec_any x (JArr vs) = map_option IArr (dec_any_list x vs)"
| "dec_any x (JObj ms) = map_option IMap (dec_any_members x ms [])"
| "dec_any_list x [] = Some []"
| "dec_any_list x (v # vs) =
     (case dec_any x v of None \<Rightarrow> None | Some i \<Rightarrow> map_option ((#) i) (dec_any_list x vs))"
| "dec_any_members x [] m = Some m"
| "dec_any_members x ((k, v) # ms) m =
     (case dec_any x v of None \<Rightarrow> None
      | Some i \<Rightarrow> dec_any_members x ms (AList.update (unquote k) i m))"

text \<open>Decoding into a \<open>map[string]interface{}\<close> variable.\<close>

fun dec_any_map :: "ext \<Rightarrow> json \<Rightarrow> (bytes, ival) nmap \<Rightarrow> (bytes, ival) nmap option" where
  "dec_any_map x (JObj ms) old = map_option Some (dec_any_members x ms (entries old))"
| "dec_any_map x JNull old = Some None"
| "dec_any_map x _ old = None"

section \<open>Flattening\<close>

lemma size_list_mset: "mset xs = mset ys \<Longrightarrow> size_list f xs = size_list f ys"
proof -
  assume "mset xs = mset ys"
  then have "sum_mset (image_mset (\<lambda>x. Suc (f x)) (mset xs)) = sum_mset (image_mset (\<lambda>x. Suc (f x)) (mset ys))"
    by simp
  moreover have "size_list f zs = sum_mset (image_mset (\<lambda>x. Suc (f x)) (mset zs))" for zs
    by (induction zs) simp_all
  ultimately show ?thesis by simp
qed

lemma size_list_permute [simp]: "size_list f (permute k xs) = size_list f xs"
  by (rule size_list_mset) simp

definition sub_key :: "bytes \<Rightarrow> bytes \<Rightarrow> bytes" where
  "sub_key prefix key = (if prefix \<noteq> [] then prefix @ ''.'' @ key else key)"

definition index_key :: "bytes \<Rightarrow> nat \<Rightarrow> bytes" where
  "index_key prefix i = prefix @ ''.'' @ ''['' @ itoa i @ '']''"

text \<open>The loops over the entries of a map and over the elements of an array, and the switch on
  the type of a value. On an error the map filled so far is dropped, as by the caller.\<close>

function flattenJSON :: "(bytes list \<Rightarrow> nat) \<Rightarrow> bytes list \<Rightarrow> (bytes \<times> ival) list \<Rightarrow> bytes
    \<Rightarrow> (bytes, bytes) gomap \<Rightarrow> (bytes, bytes) gomap result"
  and flattenArray :: "(bytes list \<Rightarrow> nat) \<Rightarrow> bytes list \<Rightarrow> nat \<Rightarrow> ival list \<Rightarrow> bytes
    \<Rightarrow> (bytes, bytes) gomap \<Rightarrow> (bytes, bytes) gomap result"
  and flattenValue :: "(bytes list \<Rightarrow> nat) \<Rightarrow> bytes list \<Rightarrow> ival \<Rightarrow> bytes
    \<Rightarrow> (bytes, bytes) gomap \<Rightarrow> (bytes, bytes) gomap result" where
  "flattenJSON ord path [] prefix flatMap = Inr flatMap"
| "flattenJSON ord path ((key, value) # data) prefix flatMap =
     (case flattenValue ord (key # path) value (sub_key prefix key) flatMap of
        Inl e \<Rightarrow> Inl e
      | Inr flatMap' \<Rightarrow> flattenJSON ord path data prefix flatMap')"
| "flattenArray ord path i [] prefix flatMap = Inr flatMap"
| "flattenArray ord path i (value # data) prefix flatMap =
     (case flattenValue ord (itoa i # path) value (index_key prefix i) flatMap of
        Inl e \<Rightarrow> Inl e
      | Inr flatMap' \<Rightarrow> flattenArray ord path (Suc i) data prefix flatMap')"
| "flattenValue ord path (IMap m) newKey flatMap =
     flattenJSON ord path (permute (ord path) m) newKey flatMap"
| "flattenValue ord path (IArr vs) newKey flatMap = flattenArray ord path 0 vs newKey flatMap"
| "flattenValue ord path (IStr v) newKey flatMap = Inr (AList.update newKey v flatMap)"
| "flattenValue ord path INil newKey flatMap = Inl ErrNonStringSecret"
| "flattenValue ord path (IBool b) newKey flatMap = Inl ErrNonStringSecret"
| "flattenValue ord path (INum n) newKey flatMap = Inl ErrNonStringSecret"
  by pat_completeness auto
termination
  by (relation "measure (\<lambda>a. case a of
        Inl (ord, path, data, prefix, m) \<Rightarrow> 2 * size_list (size_prod (\<lambda>_. 0) size) data
      | Inr (Inl (ord, path, i, data, prefix, m)) \<Rightarrow> 2 * size_list size data
      | Inr (Inr (ord, path, v, newKey, m)) \<Rightarrow> 2 * size v + 1)") auto

definition FlattenJSONFromBytes ::
  "ext \<Rightarrow> (bytes list \<Rightarrow> nat) \<Rightarrow> bytes \<Rightarrow> (bytes, bytes) gomap result" where
  "FlattenJSONFromBytes x ord jsonBytes =
     (case Unmarshal (dec_any_map x) jsonBytes None of
        Inl e \<Rightarrow> Inl e
      | Inr data \<Rightarrow> flattenJSON ord [] (permute (ord []) (entries data)) [] [])"

section \<open>Merging secrets into a configuration\<close>

fun merge_loop :: "ext \<Rightarrow> (bytes \<times> bytes) list \<Rightarrow> bytes \<Rightarrow> bytes result" where
  "merge_loop x [] bts = Inr bts"
| "merge_loop x ((k, v) # secrets) bts =
     (case jsonparser_Set x bts (dq # v @ [dq]) (split_on (CHR ''.'') k) of
        Inl e \<Rightarrow> Inl e
      | Inr bts' \<Rightarrow> merge_loop x secrets bts')"

definition MergeConfigSecrets :: "ext \<Rightarrow> nat \<Rightarrow> bytes \<Rightarrow> (bytes, bytes) gomap \<Rightarrow> bytes result" where
  "MergeConfigSecrets x k config secrets = merge_loop x (permute k secrets) config"

section \<open>What flattening computes\<close>

text \<open>The string leaves of a value with their dotted keys, in document order; \<open>None\<close> when some
  leaf is not a string.\<close>

fun leaves :: "ival \<Rightarrow> bytes \<Rightarrow> (bytes \<times> bytes) list option"
  and leaves_members :: "(bytes \<times> ival) list \<Rightarrow> bytes \<Rightarrow> (bytes \<times> bytes) list option"
  and leaves_elems :: "nat \<Rightarrow> ival list \<Rightarrow> bytes \<Rightarrow> (bytes \<times> bytes) list option" where
  "leaves (IStr v) key = Some [(key, v)]"
| "leaves (IMap m) key = leaves_members m key"
| "leaves (IArr vs) key = leaves_elems 0 vs key"
| "leaves _ key = None"
| "leaves_members [] p = Some []"
| "leaves_members ((k, v) # ms) p =
     (case (leaves v (sub_key p k), leaves_members ms p) of (Some a, Some b) \<Rightarrow> Some (a @ b) | _ \<Rightarrow> None)"
| "leaves_elems i [] p = Some []"
| "leaves_elems i (v # vs) p =
     (case (leaves v (index_key p i), leaves_elems (Suc i) vs p) of (Some a, Some b) \<Rightarrow> Some (a @ b) | _ \<Rightarrow> None)"

abbreviation same_leaves :: "(bytes \<times> bytes) list option \<Rightarrow> (bytes \<times> bytes) list option \<Rightarrow> bool" where
  "same_leaves \<equiv> rel_option (\<lambda>l l'. mset l = mset l')"

lemma same_leaves_refl: "same_leaves a a"
  by (rule option.rel_refl) simp

lemma same_leaves_trans: "same_leaves a b \<Longrightarrow> same_leaves b c \<Longrightarrow> same_leaves a c"
  by (cases a; cases b; cases c) simp_all

lemma leaves_members_append:
  "leaves_members (xs @ ys) p =
     (case (leaves_members xs p, leaves_members ys p) of (Some a, Some b) \<Rightarrow> Some (a @ b) | _ \<Rightarrow> None)"
  by (induction xs) (auto split: option.splits)

lemma leaves_members_insert_nth:
  "same_leaves (leaves_members (insert_nth i x ys) p) (leaves_members (x # ys) p)"
proof -
  have "leaves_members ys p = leaves_members (take i ys @ drop i ys) p" by simp
  then show ?thesis
    unfolding insert_nth_def
    by (cases x) (auto simp: leaves_members_append union_ac
        simp del: append_take_drop_id split: option.splits)
qed

lemma leaves_members_permute: "same_leaves (leaves_members (permute k m) p) (leaves_members m p)"
proof (induction k m rule: permute.induct)
  case (2 k x xs)
  have "same_leaves (leaves_members (x # permute (k div Suc (length xs)) xs) p) (leaves_members (x # xs) p)"
    using 2 by (cases x) (auto split: option.splits simp: option_rel_Some1 option_rel_Some2)
  then show ?case
    using leaves_members_insert_nth same_leaves_trans by (simp only: permute.simps) blast
qed simp

text \<open>Assignments to the map, one after the other.\<close>

abbreviation assign :: "(bytes \<times> bytes) list \<Rightarrow> (bytes, bytes) gomap \<Rightarrow> (bytes, bytes) gomap" where
  "assign l m \<equiv> fold (\<lambda>p m. AList.update (fst p) (snd p) m) l m"

definition flattens :: "(bytes \<times> bytes) list option \<Rightarrow> (bytes, bytes) gomap
    \<Rightarrow> (bytes, bytes) gomap result \<Rightarrow> bool" where
  "flattens l m r = (case l of None \<Rightarrow> r = Inl ErrNonStringSecret
     | Some l \<Rightarrow> \<exists>l'. mset l' = mset l \<and> r = Inr (assign l' m))"

lemma flattens_same: "flattens a m r \<Longrightarrow> same_leaves a b \<Longrightarrow> flattens b m r"
  by (cases a; cases b) (auto simp: flattens_def)

lemma flattens_seq:
  assumes "flattens a m r" "\<And>m'. r = Inr m' \<Longrightarrow> flattens b m' (f m')"
  shows "flattens (case (a, b) of (Some a, Some b) \<Rightarrow> Some (a @ b) | _ \<Rightarrow> None) m
    (case r of Inl e \<Rightarrow> Inl e | Inr m' \<Rightarrow> f m')"
proof (cases a)
  case None
  with assms(1) show ?thesis by (simp add: flattens_def)
next
  case (Some la)
  with assms(1) obtain l' where l': "mset l' = mset la" "r = Inr (assign l' m)"
    by (auto simp: flattens_def)
  with assms(2) have "flattens b (assign l' m) (f (assign l' m))" by simp
  then show ?thesis
  proof (cases b)
    case (Some lb)
    with \<open>flattens b _ _\<close> obtain l'' where "mset l'' = mset lb" "f (assign l' m) = Inr (assign l'' (assign l' m))"
      by (auto simp: flattens_def)
    with l' Some \<open>a = Some la\<close> show ?thesis
      by (auto simp: flattens_def intro!: exI [of _ "l' @ l''"])
  qed (use l' Some in \<open>simp add: flattens_def\<close>)
qed

lemma flatten_leaves:
  "flattens (leaves_members data prefix) m (flattenJSON ord path data prefix m)"
  "flattens (leaves_elems i vs prefix) m (flattenArray ord path i vs prefix m)"
  "flattens (leaves v newKey) m (flattenValue ord path v newKey m)"
proof (induction ord path data prefix m and ord path i vs prefix m and ord path v newKey m
    rule: flattenJSON_flattenArray_flattenValue.induct)
  case (2 ord path key val data prefix m)
  show ?case unfolding leaves_members.simps flattenJSON.simps by (rule flattens_seq [OF 2])
next
  case (4 ord path i val data prefix m)
  show ?case unfolding leaves_elems.simps flattenArray.simps by (rule flattens_seq [OF 4])
next
  case (5 ord path d newKey m)
  show ?case
    using flattens_same [OF 5 leaves_members_permute] by simp
next
  case (7 ord path v newKey m)
  show ?case by (simp add: flattens_def)
qed (auto simp: flattens_def)

lemma map_of_assign:
  assumes "mset l' = mset l" "distinct (map fst l)"
  shows "map_of (assign l' []) = map_of l"
proof -
  have "map_of (assign l' []) = map_of (rev l')" by (simp add: fold_update_map_of)
  also have "\<dots> = map_of l"
    by (rule map_of_mset_eq [symmetric]) (use assms in simp_all)
  finally show ?thesis .
qed

text \<open>C34: Flattening a document whose leaves are all strings gives, for every iteration order of
  the maps, the map from the dotted keys of the leaves to their values, when these keys are
  distinct; a document with any other leaf is rejected as having a non-string secret.\<close>

theorem FlattenJSONFromBytes_correct:
  assumes "Unmarshal (dec_any_map x) doc None = Inr data"
    and "\<And>l. leaves_members (entries data) [] = Some l \<Longrightarrow> distinct (map fst l)"
  shows "case leaves_members (entries data) [] of
      None \<Rightarrow> FlattenJSONFromBytes x ord doc = Inl ErrNonStringSecret
    | Some l \<Rightarrow> \<exists>m. FlattenJSONFromBytes x ord doc = Inr m \<and> map_of m = map_of l"
proof -
  have "flattens (leaves_members (entries data) []) [] (FlattenJSONFromBytes x ord doc)"
    using flattens_same [OF flatten_leaves(1) leaves_members_permute] assms(1)
    by (simp add: FlattenJSONFromBytes_def)
  then show ?thesis
    using assms(2) by (auto simp: flattens_def map_of_assign split: option.splits)
qed

definition sample_doc :: bytes where
  "sample_doc = ''{\"a\":{\"b\":\"1\",\"c\":[\"2\",{\"d\":\"3\"}]},\"e\":\"4\"}''"

definition sample_data :: "(bytes, ival) gomap" where
  "sample_data = [(''a'', IMap [(''b'', IStr ''1''), (''c'', IArr [IStr ''2'', IMap [(''d'', IStr ''3'')]])]),
     (''e'', IStr ''4'')]"

definition sample_flat :: "(bytes \<times> bytes) list" where
  "sample_flat = [(''a.b'', ''1''), (''a.c.[0]'', ''2''), (''a.c.[1].d'', ''3''), (''e'', ''4'')]"

theorem FlattenJSONFromBytes_correct_witness:
  "\<forall>ord. \<exists>m. FlattenJSONFromBytes sample_ext ord sample_doc = Inr m \<and> map_of m = map_of sample_flat"
proof -
  have dec: "Unmarshal (dec_any_map sample_ext) sample_doc None = Inr (Some sample_data)" by code_simp
  have l: "leaves_members (entries (Some sample_data)) [] = Some sample_flat" by code_simp
  have d: "distinct (map fst sample_flat)" by code_simp
  show ?thesis
    using FlattenJSONFromBytes_correct [OF dec] l d by (auto split: option.splits)
qed

end
