(* ===== verification/Json_Raw.thy ===== *)
theory Json_Raw
  imports Domain
begin

text \<open>
  Documents whose members are kept as text (\<open>map[string]json.RawMessage\<close>): marshalling such a
  map, what the HTML escaping of \<open>json.Marshal\<close> makes of a raw value, and that the members of a
  printed object are read back as the texts they were printed from.
\<close>

section \<open>Marshalling\<close>

text \<open>The members in key order, each value compacted; an invalid value is an error.\<close>

fun raw_members :: "(bytes \<times> bytes) list \<Rightarrow> bytes list result" where
  "raw_members [] = Inr []"
| "raw_members ((k, raw) # ms) =
     (case Marshal_raw raw of Inl e \<Rightarrow> Inl e
      | Inr v \<Rightarrow> (case raw_members ms of Inl e \<Rightarrow> Inl e
          | Inr r \<Rightarrow> Inr ((dq # quote_body k @ dq # CHR '':'' # v) # r)))"

definition Marshal_raw_map :: "(bytes, bytes) gomap \<Rightarrow> bytes result" where
  "Marshal_raw_map m =
     (case raw_members (sort_key fst m) of Inl e \<Rightarrow> Inl e
      | Inr r \<Rightarrow> Inr (CHR ''{'' # join_with (CHR '','') r @ ''}''))"

section \<open>The members of a printed object\<close>

abbreviation lexed :: "tok list \<Rightarrow> lexeme list" where
  "lexed ts \<equiv> map (Pair []) ts"

text \<open>Tokens that are skipped inside an open container, and at every depth.\<close>

definition skips_inside :: "tok list \<Rightarrow> bool" where
  "skips_inside ts \<longleftrightarrow> (\<forall>d rest. take_value (Suc d) (lexed ts @ rest) =
     (lexed ts @ fst (take_value (Suc d) rest), snd (take_value (Suc d) rest)))"

definition skips :: "tok list \<Rightarrow> bool" where
  "skips ts \<longleftrightarrow> (\<forall>d rest. take_value d (lexed ts @ rest) =
     (lexed ts @ fst (take_value d rest), snd (take_value d rest)))"

lemma skips_inside_append: "skips_inside a \<Longrightarrow> skips_inside b \<Longrightarrow> skips_inside (a @ b)"
  by (simp add: skips_inside_def)

lemma skips_inside_simps:
  "skips_inside []" "skips_inside [TComma]" "skips_inside [TColon]" "skips_inside [TStr k]"
  by (simp_all add: skips_inside_def split: prod.splits)

lemma skips_inside: "skips ts \<Longrightarrow> skips_inside ts"
  by (simp add: skips_def skips_inside_def)

lemma skips_inside_join: "\<forall>x\<in>set xs. skips_inside x \<Longrightarrow> skips_inside (comma_join xs)"
proof (induction xs rule: comma_join.induct)
  case (3 x y zs)
  then have "skips_inside (x @ [TComma] @ comma_join (y # zs))"
    by (intro skips_inside_append skips_inside_simps) auto
  then show ?case by simp
qed (simp_all add: skips_inside_simps)

lemma skips_closed:
  assumes "skips_inside ts" "(op, cl) = (TLBrack, TRBrack) \<or> (op, cl) = (TLBrace, TRBrace)"
  shows "skips (op # ts @ [cl])"
proof -
  have "take_value d (lexed (op # ts @ [cl]) @ rest) =
      (lexed (op # ts @ [cl]) @ fst (take_value d rest), snd (take_value d rest))" for d rest
    using assms(2) assms(1) [unfolded skips_inside_def, rule_format, of d "([], cl) # rest"]
    by (auto simp: Let_def split: prod.splits)
  then show ?thesis by (simp add: skips_def)
qed

lemma skips_toks_of: "skips (toks_of v)"
proof (induction v)
  case (JArr vs)
  then have "skips_inside (comma_join (map toks_of vs))"
    by (intro skips_inside_join) (auto intro: skips_inside)
  then show ?case using skips_closed [of _ TLBrack TRBrack] by simp
next
  case (JObj ms)
  have "skips_inside (member_toks m)" if "m \<in> set ms" for m
  proof -
    obtain k v where m: "m = (k, v)" by (cases m)
    have "skips_inside ([TStr k] @ [TColon] @ toks_of v)"
      by (intro skips_inside_append skips_inside_simps skips_inside) (use JObj m that in force)
    then show ?thesis by (simp add: m)
  qed
  then have "skips_inside (comma_join (map member_toks ms))"
    by (intro skips_inside_join) auto
  then show ?case using skips_closed [of _ TLBrace TRBrace] by simp
qed (auto simp: skips_def split: prod.splits)

lemma take_member:
  assumes "t = TComma \<or> t = TRBrace"
  shows "take_value 0 (lexed (toks_of v) @ ([], t) # rest) = (lexed (toks_of v), ([], t) # rest)"
  using skips_toks_of [of v, unfolded skips_def, rule_format, of 0 "([], t) # rest"] assms by auto

lemma span_text_lexed: "ts \<noteq> [] \<Longrightarrow> span_text (lexed ts) = concat (map tok_text ts)"
  by (cases ts) (simp_all add: span_text_def comp_def)

lemma span_text_value: "span_text (lexed (toks_of v)) = json_print v"
  unfolding json_print_def by (rule span_text_lexed) (use toks_of_Cons [of v] in auto)

lemma member_spans_print:
  "member_spans (lexed (comma_join (map member_toks ms)) @ [([], TRBrace)]) =
     map (\<lambda>(k, v). (k, json_print v)) ms"
proof (induction ms)
  case (Cons m ms)
  obtain k v where m: "m = (k, v)" by (cases m)
  show ?case
  proof (cases ms)
    case Nil
    then show ?thesis using m take_member [of TRBrace v "[]"] by (simp add: span_text_value)
  next
    case (Cons m' ms')
    then show ?thesis
      using Cons.IH m take_member [of TComma v "lexed (comma_join (map member_toks ms)) @ [([], TRBrace)]"]
      by (simp add: span_text_value)
  qed
qed simp

lemma lex_json_print: "json_wf v \<Longrightarrow> lex (json_print v) = (lexed (toks_of v), True)"
  using sep_ok_toks_of [of v "[]"] by (simp add: json_wf_def delimited_def json_print_def lex_print)

lemma Unmarshal_raw_map_print:
  assumes "json_wf (JObj ms)"
  shows "Unmarshal_raw_map (json_print (JObj ms)) =
    Inr (Some (fold (\<lambda>p m. AList.update (fst p) (snd p) m) (map (\<lambda>(k, v). (unquote k, json_print v)) ms) []))"
proof -
  have "drop 1 (fst (lex (json_print (JObj ms)))) =
      lexed (comma_join (map member_toks ms)) @ [([], TRBrace)]"
    by (simp add: lex_json_print [OF assms])
  then have "map (\<lambda>(k, r). (unquote k, r)) (member_spans (drop 1 (fst (lex (json_print (JObj ms)))))) =
      map (\<lambda>(k, v). (unquote k, json_print v)) ms"
    unfolding member_spans_print by (simp add: member_spans_print comp_def case_prod_beta)
  then show ?thesis
    by (simp add: Unmarshal_raw_map_def json_parse_print [OF assms])
qed

section \<open>Every parsed document can be printed\<close>

subsection \<open>String literals\<close>

text \<open>One element of a string literal.\<close>

definition str_elem :: "bytes \<Rightarrow> bool" where
  "str_elem i \<longleftrightarrow> i \<noteq> [] \<and> str_item i = length i"

lemma hex4_take: "hex4 s \<noteq> None \<Longrightarrow> hex4 (take 4 s) = hex4 s"
  by (cases s rule: hex4.cases) auto

lemma str_item_cases: "str_item s = 0 \<or> str_item s = 1 \<or> str_item s = 2 \<or> str_item s = 6"
  by (cases s rule: str_item.cases) (auto split: list.splits)

lemma str_item_take: "str_item s \<noteq> 0 \<Longrightarrow> str_item (take (str_item s) s) = str_item s"
  by (cases s rule: str_item.cases) (auto simp: hex4_take split: list.splits if_splits)

lemma str_elem_take: "str_item s \<noteq> 0 \<Longrightarrow> str_elem (take (str_item s) s)"
  using str_item_take [of s] str_item_le [of s] by (auto simp: str_elem_def)

lemma scan_str_elems:
  assumes "scan_str s = Some (b, r)" and nil: "Q []"
    and elem: "\<And>i b. str_elem i \<Longrightarrow> Q b \<Longrightarrow> Q (i @ b)"
  shows "Q b"
  using assms(1)
proof (induction s arbitrary: b rule: scan_str.induct)
  case (1 s)
  show ?case
  proof (cases "s = [] \<or> hd s = dq \<or> str_item s = 0")
    case True
    with "1.prems" have "b = []"
      by (subst (asm) scan_str.simps) (auto split: if_splits)
    with nil show ?thesis by simp
  next
    case False
    then have item: "str_item s \<noteq> 0" by simp
    with "1.prems" obtain b' where b': "scan_str (drop (str_item s) s) = Some (b', r)"
      "b = take (str_item s) s @ b'"
      by (auto simp: scan_str_item)
    with False have "Q b'" by (intro "1.IH") auto
    then show ?thesis using b'(2) elem [OF str_elem_take [OF item]] by simp
  qed
qed

lemma str_piece_elem: "str_elem i \<Longrightarrow> str_piece i"
  by (rule str_piece_item) (auto simp: str_elem_def str_item_append)

lemma str_piece_lit: "str_piece b \<Longrightarrow> str_lit b"
  by (simp add: str_piece_def str_lit_def)

lemma scan_str_lit: "scan_str s = Some (b, r) \<Longrightarrow> str_lit b"
  by (rule str_piece_lit, erule scan_str_elems)
     (auto intro: str_piece_append str_piece_elem simp: str_piece_Nil)

subsection \<open>Number literals\<close>

definition num_char :: "char \<Rightarrow> bool" where
  "num_char c \<longleftrightarrow> is_digit c \<or> c \<in> set ''+-.eE''"

lemma takeWhile_digits: "c \<in> set (takeWhile is_digit s) \<Longrightarrow> is_digit c"
  by (rule set_takeWhileD [THEN conjunct2])

lemma takeWhile_again [simp]:
  "takeWhile P (takeWhile P s) = takeWhile P s" "dropWhile P (takeWhile P s) = []"
  by (induction s) auto

lemma num_char_simps [simp]: "is_digit c \<Longrightarrow> num_char c"
  "num_char (CHR ''+'')" "num_char (CHR ''-'')" "num_char (CHR ''.'')" "num_char (CHR ''e'')"
  "num_char (CHR ''E'')" "num_char (CHR ''0'')"
  by (simp_all add: num_char_def is_digit_def in_range_def)

lemma digits_num_char: "\<forall>c\<in>set (takeWhile is_digit s). num_char c"
  by (auto dest!: takeWhile_digits)

lemma scan_digits1_again:
  assumes "scan_digits1 p s = Some (b, r)" "\<forall>c\<in>set p. num_char c"
  obtains ds where "b = p @ ds" "scan_digits1 p ds = Some (b, [])" "ds \<noteq> []"
    "\<forall>c\<in>set b. num_char c" "hd ds = hd s"
proof -
  have "b = p @ takeWhile is_digit s" "takeWhile is_digit s \<noteq> []"
    using assms(1) by (auto simp: scan_digits1_def split: if_splits)
  moreover from this(2) have "hd (takeWhile is_digit s) = hd s" by (cases s) auto
  ultimately show ?thesis
    using assms(2) digits_num_char [of s]
    by (intro that [of "takeWhile is_digit s"]) (auto simp: scan_digits1_def)
qed

lemma scan_int_again:
  "scan_int s = Some (b, r) \<Longrightarrow> scan_int b = Some (b, []) \<and> (\<forall>c\<in>set b. num_char c)"
  by (cases s) (auto simp: digits_num_char split: if_splits)

lemma scan_frac_again:
  assumes "scan_frac s = Some (b, r)"
  shows "scan_frac b = Some (b, []) \<and> (\<forall>c\<in>set b. num_char c)"
proof (cases s)
  case (Cons c cs)
  show ?thesis
  proof (cases "c = CHR ''.''")
    case True
    then have "scan_digits1 [c] cs = Some (b, r)" using assms Cons by simp
    then show ?thesis by (rule scan_digits1_again) (use True in auto)
  qed (use assms Cons in auto)
qed (use assms in auto)

lemma scan_exp_again:
  assumes "scan_exp s = Some (b, r)"
  shows "scan_exp b = Some (b, []) \<and> (\<forall>c\<in>set b. num_char c)"
proof (cases s)
  case (Cons c cs)
  show ?thesis
  proof (cases "c = CHR ''e'' \<or> c = CHR ''E''")
    case True
    with assms Cons obtain d ds where cs: "cs = d # ds" by (cases cs) auto
    have c: "num_char c" using True by auto
    show ?thesis
    proof (cases "d = CHR ''+'' \<or> d = CHR ''-''")
      case sign: True
      then have "scan_digits1 [c, d] ds = Some (b, r)" using assms Cons cs True by auto
      then show ?thesis by (rule scan_digits1_again) (use sign c True in auto)
    next
      case False
      then have "scan_digits1 [c] (d # ds) = Some (b, r)" using assms Cons cs True by auto
      then obtain es where
        "b = c # es" "scan_digits1 [c] es = Some (b, [])" "es \<noteq> []" "\<forall>c\<in>set b. num_char c" "hd es = d"
        by (rule scan_digits1_again) (use c in auto)
      then show ?thesis using True False by (cases es) auto
    qed
  qed (use assms Cons in auto)
qed (use assms in auto)

text \<open>The three parts of a number fit together again.\<close>

definition no_digit :: "bytes \<Rightarrow> bool" where
  "no_digit t \<longleftrightarrow> t = [] \<or> \<not> is_digit (hd t)"

lemma no_digit_simps [simp]:
  "no_digit t \<Longrightarrow> takeWhile is_digit t = []" "no_digit t \<Longrightarrow> dropWhile is_digit t = t"
  by (cases t; simp add: no_digit_def)+

lemma all_digits: "takeWhile is_digit ds = ds \<Longrightarrow> \<forall>c\<in>set ds. is_digit c"
  by (metis set_takeWhileD)

lemma scan_int_then: "scan_int i = Some (i, []) \<Longrightarrow> no_digit t \<Longrightarrow> scan_int (i @ t) = Some (i, t)"
  by (cases i) (auto dest: all_digits split: if_splits)

lemma scan_digits1_then:
  "scan_digits1 p ds = Some (p @ ds, []) \<Longrightarrow> no_digit t \<Longrightarrow> scan_digits1 p (ds @ t) = Some (p @ ds, t)"
  by (auto simp: scan_digits1_def dest: all_digits split: if_splits)

lemma scan_frac_then:
  assumes "scan_frac f = Some (f, [])" "e = [] \<or> hd e = CHR ''e'' \<or> hd e = CHR ''E''"
  shows "scan_frac (f @ e) = Some (f, e)"
proof -
  have "no_digit e" using assms(2) by (auto simp: no_digit_def is_digit_def in_range_def)
  then show ?thesis
    using assms scan_digits1_then [of "''.''" "tl f" e]
    by (cases f; cases e) (auto split: if_splits)
qed

lemma scan_unsigned_again:
  assumes "scan_unsigned s = Some (n, r)"
  shows "scan_unsigned n = Some (n, []) \<and> (\<forall>c\<in>set n. num_char c)"
proof -
  from assms obtain i s1 f s2 e where parts: "scan_int s = Some (i, s1)" "scan_frac s1 = Some (f, s2)"
      "scan_exp s2 = Some (e, r)" and n: "n = i @ f @ e"
    by (auto simp: scan_unsigned_def split: option.splits prod.splits)
  note again = scan_int_again [OF parts(1)] scan_frac_again [OF parts(2)] scan_exp_again [OF parts(3)]
  have e: "e = [] \<or> hd e = CHR ''e'' \<or> hd e = CHR ''E''"
    using again(3) by (cases e) (auto split: if_splits)
  have f: "f = [] \<or> hd f = CHR ''.''"
    using again(2) by (cases f) (auto split: if_splits)
  have "no_digit (f @ e)"
    using e f by (cases f; cases e) (auto simp: no_digit_def is_digit_def in_range_def)
  then have "scan_int n = Some (i, f @ e)" unfolding n using again(1) by (intro scan_int_then) auto
  moreover have "scan_frac (f @ e) = Some (f, e)" using again(2) e by (intro scan_frac_then) auto
  ultimately show ?thesis using again n by (auto simp: scan_unsigned_def)
qed

lemma scan_number_again:
  assumes "scan_number s = Some (n, r)"
  shows "num_lit n \<and> (\<forall>c\<in>set n. num_char c)"
proof (cases s)
  case (Cons c cs)
  show ?thesis
  proof (cases "c = CHR ''-''")
    case True
    with assms Cons obtain m where "scan_unsigned cs = Some (m, r)" "n = c # m" by auto
    with scan_unsigned_again True show ?thesis by (auto simp: num_lit_def)
  next
    case False
    with assms Cons have u: "scan_unsigned (c # cs) = Some (n, r)" by simp
    then have "n \<noteq> [] \<and> hd n = c" using scan_unsigned_Some [OF u] by (cases n) auto
    with scan_unsigned_again [OF u] False show ?thesis by (cases n) (auto simp: num_lit_def)
  qed
qed (use assms in auto)

subsection \<open>Documents\<close>

lemma punct_ok: "map_of punct c = Some t \<Longrightarrow> tok_ok t"
  by (auto simp: punct_def split: if_splits)

lemma lex_token_ok: "lex_token s = Some (t, r) \<Longrightarrow> tok_ok t"
  by (cases s)
     (auto dest: punct_ok dest!: scan_str_lit scan_number_again
       simp del: scan_number.simps split: option.splits if_splits)

lemma lex_ok: "\<forall>l\<in>set (fst (lex s)). tok_ok (snd l)"
proof (induction s rule: lex.induct)
  case (1 s)
  show ?case
    using 1 by (subst lex.simps) (auto simp: Let_def lex_token_ok split: option.splits prod.splits)
qed

fun frame_ok :: "frame \<Rightarrow> bool" where
  "frame_ok (FArr vs) = (\<forall>v\<in>set vs. lits_ok v)"
| "frame_ok (FObj ms k) = (str_lit k \<and> (\<forall>(k, v)\<in>set ms. str_lit k \<and> lits_ok v))"

fun pstate_ok :: "pstate \<Rightarrow> bool" where
  "pstate_ok (PValue fs) = (\<forall>f\<in>set fs. frame_ok f)"
| "pstate_ok (PFirstElem fs) = (\<forall>f\<in>set fs. frame_ok f)"
| "pstate_ok (PFirstKey fs) = (\<forall>f\<in>set fs. frame_ok f)"
| "pstate_ok (PKey ms fs) = ((\<forall>(k, v)\<in>set ms. str_lit k \<and> lits_ok v) \<and> (\<forall>f\<in>set fs. frame_ok f))"
| "pstate_ok (PColon ms k fs) =
     (str_lit k \<and> (\<forall>(k, v)\<in>set ms. str_lit k \<and> lits_ok v) \<and> (\<forall>f\<in>set fs. frame_ok f))"
| "pstate_ok (PAfter v f fs) = (lits_ok v \<and> frame_ok f \<and> (\<forall>f\<in>set fs. frame_ok f))"
| "pstate_ok (PDone v) = lits_ok v"

lemma complete_ok: "lits_ok v \<Longrightarrow> \<forall>f\<in>set fs. frame_ok f \<Longrightarrow> pstate_ok (complete v fs)"
  by (cases fs) auto

lemma begin_value_ok:
  "begin_value t fs = Some p \<Longrightarrow> tok_ok t \<Longrightarrow> \<forall>f\<in>set fs. frame_ok f \<Longrightarrow> pstate_ok p"
  by (cases t) (auto simp: complete_ok split: if_splits)

lemma feed_ok: "feed t p = Some p' \<Longrightarrow> tok_ok t \<Longrightarrow> pstate_ok p \<Longrightarrow> pstate_ok p'"
  by (cases "(t, p)" rule: feed.cases)
     (auto simp: complete_ok elim!: begin_value_ok split: if_splits tok.splits)

lemma parse_toks_ok:
  "parse_toks ts p = Some (v, r) \<Longrightarrow> \<forall>t\<in>set ts. tok_ok t \<Longrightarrow> pstate_ok p \<Longrightarrow> lits_ok v"
  by (induction ts p rule: parse_toks.induct)
     (auto dest: feed_ok simp del: feed.simps pstate_ok.simps(1-6) split: option.splits)

lemma json_parse_lits: "json_parse s = Some v \<Longrightarrow> lits_ok v"
  using lex_ok [of s]
  by (auto simp: json_parse_def split: prod.splits bool.splits option.splits list.splits
      elim!: parse_toks_ok)

text \<open>The nesting limit of the scanner bounds the depth of what it accepts.\<close>

fun frame_vals :: "frame \<Rightarrow> json list" where
  "frame_vals (FArr vs) = vs"
| "frame_vals (FObj ms k) = map snd ms"

definition fits :: "json list \<Rightarrow> nat \<Rightarrow> bool" where
  "fits vs n \<longleftrightarrow> n \<le> maxNestingDepth \<and> (\<forall>v\<in>set vs. depth v + n \<le> maxNestingDepth)"

fun frames_fit :: "frame list \<Rightarrow> bool" where
  "frames_fit [] = True"
| "frames_fit (f # fs) = (fits (frame_vals f) (Suc (length fs)) \<and> frames_fit fs)"

fun pstate_fits :: "pstate \<Rightarrow> bool" where
  "pstate_fits (PValue fs) = frames_fit fs"
| "pstate_fits (PFirstElem fs) = (length fs < maxNestingDepth \<and> frames_fit fs)"
| "pstate_fits (PFirstKey fs) = (length fs < maxNestingDepth \<and> frames_fit fs)"
| "pstate_fits (PKey ms fs) = (fits (map snd ms) (Suc (length fs)) \<and> frames_fit fs)"
| "pstate_fits (PColon ms k fs) = (fits (map snd ms) (Suc (length fs)) \<and> frames_fit fs)"
| "pstate_fits (PAfter v f fs) = (depth v + Suc (length fs) \<le> maxNestingDepth \<and> frames_fit (f # fs))"
| "pstate_fits (PDone v) = (depth v \<le> maxNestingDepth)"

lemma fits_Cons: "fits (v # vs) n \<longleftrightarrow> depth v + n \<le> maxNestingDepth \<and> fits vs n"
  by (auto simp: fits_def)

lemma depth_containers:
  "fits vs (Suc n) \<Longrightarrow> set ws = set vs \<Longrightarrow> depth (JArr ws) + n \<le> maxNestingDepth"
  "fits (map snd ms) (Suc n) \<Longrightarrow> set ws' = set ms \<Longrightarrow> depth (JObj ws') + n \<le> maxNestingDepth"
proof -
  have max: "Suc (fold max ds 0) + n \<le> m" if "Suc n \<le> m" "\<forall>d\<in>set ds. d + Suc n \<le> m" for ds m
  proof -
    have "fold max ds 0 \<le> m - Suc n" using that by (auto simp: fold_max_le)
    with that(1) show ?thesis by simp
  qed
  show "depth (JArr ws) + n \<le> maxNestingDepth" if "fits vs (Suc n)" "set ws = set vs"
    using that max [of maxNestingDepth "map depth ws"] by (simp add: fits_def)
  show "depth (JObj ws') + n \<le> maxNestingDepth" if "fits (map snd ms) (Suc n)" "set ws' = set ms"
    using that max [of maxNestingDepth "map (\<lambda>(k, v). depth v) ws'"]
    by (simp add: fits_def case_prod_beta)
qed

lemma complete_fits: "depth v + length fs \<le> maxNestingDepth \<Longrightarrow> frames_fit fs \<Longrightarrow> pstate_fits (complete v fs)"
  by (cases fs) auto

lemma frames_fit_length: "frames_fit fs \<Longrightarrow> length fs \<le> maxNestingDepth"
  by (cases fs) (auto simp: fits_def)

lemma begin_value_fits: "begin_value t fs = Some p \<Longrightarrow> frames_fit fs \<Longrightarrow> pstate_fits p"
  by (cases t) (auto simp: complete_fits frames_fit_length split: if_splits)

lemma feed_fits:
  assumes "feed t p = Some p'" "pstate_fits p"
  shows "pstate_fits p'"
proof (cases p)
  case (PFirstElem fs)
  have "frames_fit (FArr [] # fs)" if "length fs < maxNestingDepth" "frames_fit fs"
    using that by (simp add: fits_def)
  then show ?thesis
    using assms PFirstElem depth_containers(1) [of "[]" "length fs" "[]"]
    by (auto simp: complete_fits fits_def elim!: begin_value_fits split: if_splits)
next
  case (PFirstKey fs)
  then show ?thesis
    using assms depth_containers(2) [of "[]" "length fs" "[]"]
    by (auto simp: complete_fits fits_def split: tok.splits)
next
  case (PAfter v f fs)
  then show ?thesis
  proof (cases f)
    case (FArr vs)
    then show ?thesis
      using assms PAfter depth_containers(1) [of "v # vs" "length fs" "rev (v # vs)"]
      by (auto simp: complete_fits fits_Cons simp del: depth.simps rev.simps split: tok.splits)
  next
    case (FObj ms k)
    then show ?thesis
      using assms PAfter depth_containers(2) [of "(k, v) # ms" "length fs" "rev ((k, v) # ms)"]
      by (auto simp: complete_fits fits_Cons simp del: depth.simps rev.simps split: tok.splits)
  qed
qed (use assms in \<open>auto simp: begin_value_fits split: tok.splits if_splits\<close>)

lemma parse_toks_fits: "parse_toks ts p = Some (v, r) \<Longrightarrow> pstate_fits p \<Longrightarrow> depth v \<le> maxNestingDepth"
  by (induction ts p rule: parse_toks.induct)
     (auto dest: feed_fits simp del: feed.simps pstate_fits.simps(1-6) split: option.splits)

lemma json_parse_wf: "json_parse s = Some v \<Longrightarrow> json_wf v"
  using json_parse_lits [of s v]
  by (auto simp: json_wf_def json_parse_def split: prod.splits bool.splits option.splits list.splits
      elim!: parse_toks_fits)

section \<open>HTML escaping of a document\<close>

lemma html_escape_Nil [simp]: "html_escape [] = []"
  by (subst html_escape.simps) simp

lemma html_escape_ascii: "byte c < 128 \<Longrightarrow> html_escape (c # s) = html_char c @ html_escape s"
  by (subst html_escape.simps) (auto simp: encode_8232 encode_8233)

abbreviation ascii_start :: "bytes \<Rightarrow> bool" where
  "ascii_start s \<equiv> s = [] \<or> byte (hd s) < 128"

lemma take3_append:
  assumes "ascii_start b" "a \<noteq> []"
  shows "take 3 (a @ b) = encode_rune 8232 \<longleftrightarrow> take 3 a = encode_rune 8232"
    "take 3 (a @ b) = encode_rune 8233 \<longleftrightarrow> take 3 a = encode_rune 8233"
  using assms
  by (cases a rule: remdups_adj.cases; cases "tl (tl a)"; cases b;
      auto simp: encode_8232 encode_8233 take_Cons' split: if_splits)+

lemma html_escape_unfold:
  "html_escape (c # s) =
     (if take 3 (c # s) = encode_rune 8232 then bsl # ''u2028'' @ html_escape (drop 3 (c # s))
      else if take 3 (c # s) = encode_rune 8233 then bsl # ''u2029'' @ html_escape (drop 3 (c # s))
      else html_char c @ html_escape s)"
  by (subst html_escape.simps) simp

lemma take3_length:
  assumes "take 3 a = encode_rune 8232 \<or> take 3 a = encode_rune 8233"
  shows "drop 3 (a @ b) = drop 3 a @ b"
proof -
  have "length (take 3 a) = 3"
    using assms by (elim disjE; simp only: encode_8232 encode_8233) simp_all
  then show ?thesis by simp
qed

lemma html_escape_append:
  assumes "ascii_start b"
  shows "html_escape (a @ b) = html_escape a @ html_escape b"
proof (induction a rule: length_induct)
  case (1 a)
  show ?case
  proof (cases a)
    case (Cons c cs)
    note t3 = take3_append [OF assms, of a]
    have IH: "html_escape (drop 3 a @ b) = html_escape (drop 3 a) @ html_escape b"
      "html_escape (cs @ b) = html_escape cs @ html_escape b"
      using 1 Cons by simp_all
    show ?thesis
      using t3 IH take3_length [of a b] html_escape_unfold [of c "cs @ b"] html_escape_unfold [of c cs] Cons
      by simp
  qed simp
qed

subsection \<open>Escaped literals are literals\<close>

lemma high_escape: "\<forall>c\<in>set a. 128 \<le> byte c \<Longrightarrow> str_piece (html_escape a)"
proof (induction a rule: length_induct)
  case (1 a)
  show ?case
  proof (cases a)
    case Nil
    then show ?thesis by (simp add: str_piece_Nil)
  next
    case (Cons c cs)
    have "\<forall>c\<in>set (drop 3 a). 128 \<le> byte c" using 1(2) by (meson in_set_dropD)
    moreover have "length (drop 3 a) < length a" "length cs < length a" using Cons by simp_all
    ultimately have "str_piece (html_escape (drop 3 a))" "str_piece (html_escape cs)"
      using 1 Cons by simp_all
    moreover have "html_char c = [c]" "str_piece [c]"
      using 1 Cons by (auto simp: html_char_def intro!: str_piece_high)
    ultimately show ?thesis
      using Cons html_escape_unfold [of c cs] str_piece_const_u(1,2)
        str_piece_append [of "bsl # ''u2028''" "html_escape (drop 3 a)"]
        str_piece_append [of "bsl # ''u2029''" "html_escape (drop 3 a)"]
        str_piece_append [of "[c]" "html_escape cs"]
      by simp
  qed
qed

lemma html_char_piece:
  assumes "str_elem [c]"
  shows "str_piece (html_char c)"
proof (cases "c \<in> {CHR ''<'', CHR ''>'', CHR ''&''}")
  case True
  then have "byte c < 128" by auto
  then have "str_piece (bsl # CHR ''u'' # [CHR ''0'', CHR ''0'', hexdigit (byte c div 16), hexdigit (byte c mod 16)])"
    using hex4_quote_ascii by (intro str_piece_u) auto
  with True show ?thesis by (simp add: html_char_def)
next
  case False
  with str_piece_elem [OF assms] show ?thesis by (simp add: html_char_def)
qed

text \<open>The bytes of an escape sequence are ASCII and are not escaped again.\<close>

lemma hexval_plain: "hexval c \<noteq> None \<Longrightarrow> byte c < 128 \<and> html_char c = [c]"
  by (auto simp: hexval_def in_range_def html_char_def split: if_splits)

lemma plain_run: "\<forall>c\<in>set i. byte c < 128 \<and> html_char c = [c] \<Longrightarrow> html_escape (i @ b) = i @ html_escape b"
  by (induction i) (auto simp: html_escape_ascii)

lemma escape_elem_plain:
  assumes "str_elem i" "length i \<noteq> 1"
  shows "\<forall>c\<in>set i. byte c < 128 \<and> html_char c = [c]"
proof (cases i rule: str_item.cases)
  case (2 c cs)
  show ?thesis
  proof (cases cs)
    case (Cons d ds)
    have "length i = 2 \<or> length i = 6" using str_item_cases [of i] assms by (auto simp: str_elem_def)
    then show ?thesis
    proof
      assume "length i = 2"
      then show ?thesis using assms 2 Cons
        by (auto simp: str_elem_def simple_escapes_def html_char_def split: if_splits)
    next
      assume "length i = 6"
      then have h: "c = bsl" "d = CHR ''u''" "hex4 ds \<noteq> None" "length ds = 4"
        using assms 2 Cons by (auto simp: str_elem_def split: if_splits)
      from h(3,4) have "\<forall>e\<in>set ds. hexval e \<noteq> None"
        by (cases ds rule: hex4.cases) (auto split: option.splits)
      then have "\<forall>e\<in>set ds. byte e < 128 \<and> html_char e = [e]" using hexval_plain by blast
      with h(1,2) 2 Cons show ?thesis by (simp add: html_char_def)
    qed
  qed (use assms 2 in auto)
qed (use assms in \<open>simp add: str_elem_def\<close>)

lemma html_escape_piece:
  assumes "scan_str s = Some (b, r)"
  shows "\<forall>a. (\<forall>c\<in>set a. 128 \<le> byte c) \<longrightarrow> str_piece (html_escape (a @ b))"
  using assms
proof (rule scan_str_elems)
  show "\<forall>a. (\<forall>c\<in>set a. 128 \<le> byte c) \<longrightarrow> str_piece (html_escape (a @ []))"
    by (simp add: high_escape)
next
  fix i b
  assume i: "str_elem i" and IH: "\<forall>a. (\<forall>c\<in>set a. 128 \<le> byte c) \<longrightarrow> str_piece (html_escape (a @ b))"
  from IH [rule_format, of "[]"] have rest: "str_piece (html_escape b)" by simp
  show "\<forall>a. (\<forall>c\<in>set a. 128 \<le> byte c) \<longrightarrow> str_piece (html_escape (a @ i @ b))"
  proof (intro allI impI)
    fix a :: bytes assume a: "\<forall>c\<in>set a. 128 \<le> byte c"
    note high = high_escape [OF a]
    consider (high1) c where "i = [c]" "128 \<le> byte c" | (low1) c where "i = [c]" "byte c < 128"
      | (esc) "length i \<noteq> 1"
      by (metis One_nat_def length_0_conv length_Suc_conv not_less)
    then show "str_piece (html_escape (a @ i @ b))"
    proof cases
      case high1
      then show ?thesis using IH [rule_format, of "a @ i"] a by auto
    next
      case low1
      then have "html_escape (a @ i @ b) = html_escape a @ html_char c @ html_escape b"
        by (simp add: html_escape_append html_escape_ascii)
      then show ?thesis using high rest html_char_piece i low1 by (simp add: str_piece_append)
    next
      case esc
      note plain = escape_elem_plain [OF i esc]
      have "i \<noteq> []" using i by (simp add: str_elem_def)
      then have "ascii_start (i @ b)" using plain by (cases i) auto
      then have "html_escape (a @ i @ b) = html_escape a @ i @ html_escape b"
        using html_escape_append [of "i @ b" a] plain_run [OF plain] by simp
      then show ?thesis using high rest str_piece_elem [OF i] by (simp add: str_piece_append)
    qed
  qed
qed

lemma str_lit_html: "str_lit b \<Longrightarrow> str_lit (html_escape b)"
  using html_escape_piece [of "b @ [dq]" b "[]"] unfolding str_lit_def [of b]
  by (auto intro!: str_piece_lit) (metis append_Nil empty_iff empty_set)

subsection \<open>Escaped documents\<close>

fun html_json :: "json \<Rightarrow> json" where
  "html_json (JStr s) = JStr (html_escape s)"
| "html_json (JArr vs) = JArr (map html_json vs)"
| "html_json (JObj ms) = JObj (map (\<lambda>(k, v). (html_escape k, html_json v)) ms)"
| "html_json v = v"

fun html_tok :: "tok \<Rightarrow> tok" where
  "html_tok (TStr s) = TStr (html_escape s)"
| "html_tok t = t"

lemma map_comma_join: "map html_tok (comma_join xs) = comma_join (map (map html_tok) xs)"
  by (induction xs rule: comma_join.induct) auto

lemma toks_of_html: "toks_of (html_json v) = map html_tok (toks_of v)"
proof (induction v)
  case (JArr vs)
  then have eq: "map (\<lambda>v. toks_of (html_json v)) vs = map (\<lambda>v. map html_tok (toks_of v)) vs" by simp
  show ?case by (simp add: map_comma_join comp_def eq del: map_eq_conv)
next
  case (JObj ms)
  have eq: "map (\<lambda>m. member_toks (case m of (k, v) \<Rightarrow> (html_escape k, html_json v))) ms =
      map (\<lambda>m. map html_tok (member_toks m)) ms"
    using JObj by (force simp: case_prod_beta)
  show ?case by (simp add: map_comma_join comp_def eq del: map_eq_conv)
qed auto

lemma num_char_plain: "num_char c \<Longrightarrow> byte c < 128 \<and> html_char c = [c]"
  by (auto simp: num_char_def is_digit_def in_range_def html_char_def)

lemma html_tok_text:
  assumes "tok_ok t"
  shows "html_escape (tok_text t) = tok_text (html_tok t)"
proof (cases t)
  case (TStr b)
  then show ?thesis
    by (simp add: html_escape_ascii html_escape_append) (simp add: html_char_def)
next
  case (TNum n)
  then have "\<forall>c\<in>set n. num_char c" using assms scan_number_again [of n n "[]"] by (simp add: num_lit_def)
  then have "\<forall>c\<in>set n. byte c < 128 \<and> html_char c = [c]" using num_char_plain by blast
  from plain_run [OF this, of "[]"] TNum show ?thesis by simp
qed (simp_all add: html_escape_ascii html_char_def)

lemma ascii_tok_text: "tok_ok t \<Longrightarrow> ascii_start (tok_text t @ r)"
proof (cases t)
  case (TNum n)
  assume "tok_ok t"
  with TNum have "n \<noteq> []" "\<forall>c\<in>set n. num_char c"
    using scan_number_again [of n n "[]"] by (auto simp: num_lit_def)
  then show ?thesis using TNum num_char_plain by (cases n) auto
qed simp_all

lemma ascii_toks: "\<forall>t\<in>set ts. tok_ok t \<Longrightarrow> ascii_start (concat (map tok_text ts))"
  using ascii_tok_text [of "hd ts" "concat (map tok_text (tl ts))"] by (cases ts) simp_all

lemma html_toks:
  "\<forall>t\<in>set ts. tok_ok t \<Longrightarrow>
   html_escape (concat (map tok_text ts)) = concat (map (\<lambda>t. tok_text (html_tok t)) ts)"
  by (induction ts) (simp_all add: html_escape_append [OF ascii_toks] html_tok_text)

lemma sep_ok_all: "sep_ok ts \<Longrightarrow> \<forall>t\<in>set ts. tok_ok t"
  by (induction ts) auto

lemma html_json_print: "lits_ok v \<Longrightarrow> html_escape (json_print v) = json_print (html_json v)"
  using sep_ok_all [OF sep_ok_toks_of [of v "[]"]]
  by (simp add: json_print_def toks_of_html html_toks delimited_def comp_def)

lemma lits_ok_html: "lits_ok v \<Longrightarrow> lits_ok (html_json v)"
  by (induction v) (auto simp: str_lit_html)

lemma depth_html [simp]: "depth (html_json v) = depth v"
proof (induction v)
  case (JArr vs)
  then have eq: "map (\<lambda>v. depth (html_json v)) vs = map depth vs" by simp
  show ?case by (simp add: comp_def eq del: map_eq_conv)
next
  case (JObj ms)
  then have eq: "map (\<lambda>m. depth (html_json (snd m))) ms = map (\<lambda>m. depth (snd m)) ms" by force
  show ?case by (simp add: comp_def case_prod_unfold eq del: map_eq_conv)
qed auto

text \<open>The text that \<open>json.Marshal\<close> writes for a raw value.\<close>

definition compact :: "json \<Rightarrow> bytes" where
  "compact v = json_print (html_json v)"

lemma Marshal_raw_compact: "json_parse raw = Some v \<Longrightarrow> Marshal_raw raw = Inr (compact v)"
  by (simp add: Marshal_raw_def compact_def html_json_print json_parse_lits)

lemma compact_parse: "json_parse raw = Some v \<Longrightarrow> json_parse (compact v) = Some (html_json v)"
  unfolding compact_def
  by (rule json_parse_print) (use json_parse_wf [of raw v] in \<open>simp add: json_wf_def lits_ok_html\<close>)

section \<open>A marshalled map is read back\<close>

lemma concat_comma_join:
  "concat (map tok_text (comma_join xs)) = join_with (CHR '','') (map (\<lambda>x. concat (map tok_text x)) xs)"
  by (induction xs rule: comma_join.induct) auto

definition raw_ok :: "(bytes, bytes) gomap \<Rightarrow> bool" where
  "raw_ok m \<longleftrightarrow> distinct (map fst m) \<and> (\<forall>(k, raw)\<in>set m. utf8_valid k \<and>
     (case json_parse raw of None \<Rightarrow> False | Some v \<Rightarrow> depth v < maxNestingDepth))"

definition raw_doc :: "bytes \<Rightarrow> json" where
  "raw_doc raw = (case json_parse raw of Some v \<Rightarrow> html_json v | None \<Rightarrow> JNull)"

lemma raw_members_print:
  assumes "\<forall>(k, raw)\<in>set m. json_parse raw \<noteq> None"
  shows "raw_members m = Inr (map (\<lambda>(k, raw). concat (map tok_text (member_toks (quote_body k, raw_doc raw)))) m)"
  using assms
proof (induction m)
  case (Cons p m)
  obtain k raw where p: "p = (k, raw)" by (cases p)
  with Cons.prems obtain v where v: "json_parse raw = Some v" by auto
  then have "Marshal_raw raw = Inr (json_print (raw_doc raw))"
    by (simp add: Marshal_raw_compact compact_def raw_doc_def)
  with Cons p show ?case by (simp add: json_print_def)
qed simp

lemma Marshal_raw_map_print:
  assumes "\<forall>(k, raw)\<in>set m. json_parse raw \<noteq> None"
  shows "Marshal_raw_map m =
    Inr (json_print (JObj (map (\<lambda>(k, raw). (quote_body k, raw_doc raw)) (sort_key fst m))))"
proof -
  have "\<forall>(k, raw)\<in>set (sort_key fst m). json_parse raw \<noteq> None" using assms by simp
  from raw_members_print [OF this] show ?thesis
    by (simp add: Marshal_raw_map_def json_print_def concat_comma_join comp_def case_prod_unfold)
qed

lemma raw_map_roundtrip:
  assumes "raw_ok m"
  shows "\<exists>s m'. Marshal_raw_map m = Inr s \<and> Unmarshal_raw_map s = Inr (Some m') \<and> distinct (map fst m') \<and>
    (\<forall>k. map_of m' k = map_option (\<lambda>raw. json_print (raw_doc raw)) (map_of m k))"
proof -
  let ?sm = "sort_key fst m"
  let ?ms = "map (\<lambda>(k, raw). (quote_body k, raw_doc raw)) ?sm"
  have entry: "utf8_valid k \<and> (\<exists>v. json_parse raw = Some v \<and> depth v < maxNestingDepth)"
    if "(k, raw) \<in> set m" for k raw
    using assms that by (fastforce simp: raw_ok_def split: option.splits)
  have "lits_ok (JObj ?ms)"
    using entry by (auto simp: raw_doc_def lits_ok_html json_parse_lits split: option.splits)
  moreover have "depth (JObj ?ms) \<le> maxNestingDepth"
  proof -
    have "depth (raw_doc raw) \<le> maxNestingDepth - 1" if "(k, raw) \<in> set m" for k raw
      using entry [OF that] by (auto simp: raw_doc_def)
    then have "fold max (map (\<lambda>(k, v). depth v) ?ms) 0 \<le> maxNestingDepth - 1"
      by (auto simp: fold_max_le)
    then show ?thesis by (simp add: maxNestingDepth_def)
  qed
  ultimately have wf: "json_wf (JObj ?ms)" by (simp add: json_wf_def)
  have ms: "map (\<lambda>(k, v). (unquote k, json_print v)) ?ms = map (\<lambda>(k, raw). (k, json_print (raw_doc raw))) ?sm"
    using entry by (auto simp: unquote_quote)
  have d: "distinct (map fst ?sm)" using assms by (metis raw_ok_def mset_map mset_sort mset_eq_imp_distinct_iff)
  define l where "l = map (\<lambda>(k, raw). (k, json_print (raw_doc raw))) ?sm"
  define m' where "m' = fold (\<lambda>p m. AList.update (fst p) (snd p) m) l []"
  have fl: "map fst l = map fst ?sm" by (simp add: l_def comp_def case_prod_beta)
  then have "map_of m' = map_of (rev l)" by (simp add: m'_def fold_update_map_of)
  also have "\<dots> = map_of l"
    by (rule map_of_mset_eq) (use d fl in \<open>simp_all add: rev_map [symmetric]\<close>)
  finally have "map_of m' k = map_option (\<lambda>raw. json_print (raw_doc raw)) (map_of m k)" for k
    using assms map_of_sort_key [of m fst]
    by (simp add: l_def raw_ok_def map_of_map)
  moreover have "Marshal_raw_map m = Inr (json_print (JObj ?ms))"
    using entry by (intro Marshal_raw_map_print) force
  moreover have "Unmarshal_raw_map (json_print (JObj ?ms)) = Inr (Some m')"
    unfolding Unmarshal_raw_map_print [OF wf] ms m'_def l_def ..
  moreover have "distinct (map fst m')" unfolding m'_def by (rule fold_update_distinct) simp
  ultimately show ?thesis by blast
qed

end
