(* ===== verification/Secrets.thy ===== *)
theory Secrets
  imports Builder_Hub Config_Utils Json_Raw
begin

text \<open>
  Package \<open>adapters/secrets\<close>: the AWS Secrets Manager backend and the HashiCorp Vault backend,
  and the in-memory backend of package \<open>domain\<close>, each as an instance of the interface
  \<open>AdminSecretService\<close>. The clients of the two services are parameters (records of their
  operations on the state of the service). The contract of a secret store is a locale: what is
  set is what is read. The in-memory store interprets it; the other two fulfil it when their
  service answers as documented.
\<close>

section \<open>The interface\<close>

record 's AdminSecretService = "'s SecretAccessor" +
  as_SetSecretValues :: "bytes \<Rightarrow> bytes \<Rightarrow> 's \<Rightarrow> go_error option outcome \<times> 's"

section \<open>The in-memory store\<close>

definition inmem_service :: "InmemorySecretService AdminSecretService" where
  "inmem_service = \<lparr>
     sa_GetSecretValues = \<lambda>b s. (Ret (inmem_GetSecretValues s b), s),
     as_SetSecretValues = \<lambda>b v s. (case inmem_SetSecretValues s b v of (e, s') \<Rightarrow> (Ret e, s'))\<rparr>"

section \<open>AWS Secrets Manager\<close>

text \<open>The operations of the client that the code calls. \<open>GetSecretValue\<close> returns the pointer
  \<open>SecretString\<close>, which is nil for a binary secret.\<close>

record 'c aws_client =
  aws_GetSecretValue :: "bytes \<Rightarrow> 'c \<Rightarrow> bytes option result \<times> 'c"
  aws_CreateSecret :: "bytes \<Rightarrow> bytes \<Rightarrow> 'c \<Rightarrow> go_error option \<times> 'c"
  aws_PutSecretValue :: "bytes \<Rightarrow> bytes \<Rightarrow> 'c \<Rightarrow> go_error option \<times> 'c"

record awsSecretsService =
  aws_secretPrefix :: bytes

text \<open>The argument \<open>session\<close> is the error of creating the session of the client library.\<close>

definition NewAWSSecretsManagerService :: "go_error option \<Rightarrow> bytes \<Rightarrow> awsSecretsService result" where
  "NewAWSSecretsManagerService session secretPrefix =
     (case session of Some e \<Rightarrow> Inl e | None \<Rightarrow> Inr \<lparr>aws_secretPrefix = secretPrefix\<rparr>)"

definition secretName :: "awsSecretsService \<Rightarrow> bytes \<Rightarrow> bytes" where
  "secretName s builderName = aws_secretPrefix s @ ''/'' @ builderName"

text \<open>\<open>errors.As\<close> to an \<open>awserr.Error\<close>, then its code.\<close>

fun aws_code :: "go_error \<Rightarrow> string option" where
  "aws_code (ErrAws c) = Some c"
| "aws_code (Wrap m e) = aws_code e"
| "aws_code _ = None"

definition ErrCodeResourceNotFoundException :: string where
  "ErrCodeResourceNotFoundException = ''ResourceNotFoundException''"

abbreviation aws_missing :: "go_error \<Rightarrow> bool" where
  "aws_missing e \<equiv> aws_code e = Some ErrCodeResourceNotFoundException"

definition nil_deref :: string where
  "nil_deref = ''invalid memory address or nil pointer dereference''"

definition aws_GetSecretValues ::
  "'c aws_client \<Rightarrow> awsSecretsService \<Rightarrow> bytes \<Rightarrow> 'c \<Rightarrow> bytes result outcome \<times> 'c" where
  "aws_GetSecretValues sm s builderName c =
     (case aws_GetSecretValue sm (secretName s builderName) c of
        (Inl e, c') \<Rightarrow> (Ret (if aws_missing e then Inr ''{}'' else Inl e), c')
      | (Inr None, c') \<Rightarrow> (Panic nil_deref, c')
      | (Inr (Some str), c') \<Rightarrow>
          (Ret (case Unmarshal_raw_map str of
                  Inl e \<Rightarrow> Inl e
                | Inr secretData \<Rightarrow>
                    (case map_of (entries secretData) builderName of
                       None \<Rightarrow> Inl ErrMissingSecret
                     | Some builderSecret \<Rightarrow> Inr builderSecret)), c'))"

text \<open>The runtime error of an assignment into a nil map.\<close>

definition nil_map :: string where
  "nil_map = ''assignment to entry in nil map''"

definition ret_err :: "go_error option \<times> 'c \<Rightarrow> go_error option outcome \<times> 'c" where
  "ret_err r = (Ret (fst r), snd r)"

definition aws_SetSecretValues ::
  "'c aws_client \<Rightarrow> awsSecretsService \<Rightarrow> bytes \<Rightarrow> bytes \<Rightarrow> 'c \<Rightarrow> go_error option outcome \<times> 'c" where
  "aws_SetSecretValues sm s builderName values c =
     (let name = secretName s builderName in
      case aws_GetSecretValue sm name c of
        (Inl e, c') \<Rightarrow>
          (if aws_missing e then
             (case Marshal_raw_map [(builderName, values)] of
                Inl marshalErr \<Rightarrow> (Ret (Some marshalErr), c')
              | Inr newSecretString \<Rightarrow> ret_err (aws_CreateSecret sm name newSecretString c'))
           else (Ret (Some e), c'))
      | (Inr None, c') \<Rightarrow> (Panic nil_deref, c')
      | (Inr (Some str), c') \<Rightarrow>
          (case Unmarshal_raw_map str of
             Inl e \<Rightarrow> (Ret (Some e), c')
           | Inr None \<Rightarrow> (Panic nil_map, c')
           | Inr (Some secretData) \<Rightarrow>
               (case Marshal_raw_map (AList.update builderName values secretData) of
                  Inl e \<Rightarrow> (Ret (Some e), c')
                | Inr newSecretString \<Rightarrow> ret_err (aws_PutSecretValue sm name newSecretString c'))))"

definition aws_service :: "'c aws_client \<Rightarrow> awsSecretsService \<Rightarrow> 'c AdminSecretService" where
  "aws_service sm s = \<lparr>sa_GetSecretValues = aws_GetSecretValues sm s,
     as_SetSecretValues = aws_SetSecretValues sm s\<rparr>"

text \<open>\<open>MergeSecrets\<close>: the entries of the second map win; the order of ranging is selected by
  the two numbers.\<close>

definition MergeSecrets ::
  "nat \<Rightarrow> nat \<Rightarrow> (bytes, bytes) gomap \<Rightarrow> (bytes, bytes) gomap \<Rightarrow> (bytes, bytes) gomap" where
  "MergeSecrets k1 k2 defaultSecrets secrets =
     fold (\<lambda>p m. AList.update (fst p) (snd p) m) (permute k2 secrets)
       (fold (\<lambda>p m. AList.update (fst p) (snd p) m) (permute k1 defaultSecrets) [])"

section \<open>HashiCorp Vault\<close>

record hashicorpVaultService =
  vs_secretPath :: bytes
  vs_mountPath :: bytes
  vs_token :: bytes
  vs_watching :: bool

record VaultConfig =
  vc_Address :: bytes
  vc_Token :: bytes
  vc_SecretPrefix :: bytes
  vc_MountPath :: bytes
  vc_AuthMethod :: bytes
  vc_AuthMountPath :: bytes
  vc_Role :: bytes
  vc_Jwt :: bytes

text \<open>What the construction calls of the client libraries: creating the client, creating the
  Kubernetes method (role, token, mount path when set), logging in with it (the token of the
  answer), the write to a login path (nil, an answer without authentication data, or a token)
  and creating the lifetime watcher.\<close>

record vault_api =
  va_NewClient :: "bytes \<Rightarrow> go_error option"
  va_NewKubernetesAuth :: "bytes \<Rightarrow> bytes \<Rightarrow> bytes option \<Rightarrow> go_error option"
  va_Login :: "bytes \<Rightarrow> bytes \<Rightarrow> bytes option \<Rightarrow> bytes result"
  va_WriteLogin :: "bytes \<Rightarrow> bytes \<Rightarrow> bytes \<Rightarrow> bytes option option result"
  va_NewLifetimeWatcher :: "bytes \<Rightarrow> go_error option"

definition k8s_login :: "vault_api \<Rightarrow> VaultConfig \<Rightarrow> hashicorpVaultService \<Rightarrow> hashicorpVaultService result" where
  "k8s_login api cfg svc =
     (let mount = (if vc_AuthMountPath cfg \<noteq> [] then Some (vc_AuthMountPath cfg) else None) in
      if vc_Jwt cfg = [] then Inl (ErrOther ''JWT is required for Kubernetes auth'')
      else case va_NewKubernetesAuth api (vc_Role cfg) (vc_Jwt cfg) mount of
        Some e \<Rightarrow> Inl (Wrap ''failed to initialize Kubernetes auth'' e)
      | None \<Rightarrow> (case va_Login api (vc_Role cfg) (vc_Jwt cfg) mount of
          Inl e \<Rightarrow> Inl (Wrap ''kubernetes auth failed'' e)
        | Inr token \<Rightarrow> (case va_NewLifetimeWatcher api token of
            Some e \<Rightarrow> Inl (Wrap ''failed to create token lifetime watcher'' e)
          | None \<Rightarrow> Inr (svc\<lparr>vs_token := token, vs_watching := True\<rparr>))))"

definition jwt_login :: "vault_api \<Rightarrow> VaultConfig \<Rightarrow> hashicorpVaultService \<Rightarrow> hashicorpVaultService result" where
  "jwt_login api cfg svc =
     (if vc_Jwt cfg = [] then Inl (ErrOther ''JWT is required for JWT auth'')
      else if vc_Role cfg = [] then Inl (ErrOther ''role is required for JWT auth'')
      else let mount = (if vc_AuthMountPath cfg = [] then ''jwt'' else vc_AuthMountPath cfg) in
        case va_WriteLogin api (''auth/'' @ mount @ ''/login'') (vc_Role cfg) (vc_Jwt cfg) of
          Inl e \<Rightarrow> Inl (Wrap ''JWT auth failed'' e)
        | Inr (Some (Some token)) \<Rightarrow> (case va_NewLifetimeWatcher api token of
            Some e \<Rightarrow> Inl (Wrap ''failed to create token lifetime watcher'' e)
          | None \<Rightarrow> Inr (svc\<lparr>vs_token := token, vs_watching := True\<rparr>))
        | Inr _ \<Rightarrow> Inl (ErrOther ''JWT auth returned no authentication info''))"

definition NewHashicorpVaultService :: "vault_api \<Rightarrow> VaultConfig \<Rightarrow> hashicorpVaultService result" where
  "NewHashicorpVaultService api cfg0 =
     (let cfg = (if vc_MountPath cfg0 = [] then cfg0\<lparr>vc_MountPath := ''secret''\<rparr> else cfg0) in
      if vc_AuthMethod cfg \<notin> {''token'', ''kubernetes'', ''jwt'', []}
      then Inl (ErrOther ''unsupported AuthMethod'')
      else case va_NewClient api (vc_Address cfg) of
        Some e \<Rightarrow> Inl (Wrap ''failed to create Vault client'' e)
      | None \<Rightarrow>
          (let svc = \<lparr>vs_secretPath = vc_SecretPrefix cfg, vs_mountPath = vc_MountPath cfg,
                      vs_token = [], vs_watching = False\<rparr> in
           if vc_AuthMethod cfg = ''kubernetes'' then k8s_login api cfg svc
           else if vc_AuthMethod cfg = ''jwt'' then jwt_login api cfg svc
           else if vc_Token cfg = [] then Inl (ErrOther ''token is required for vault auth'')
           else Inr (svc\<lparr>vs_token := vc_Token cfg\<rparr>)))"

text \<open>The watcher's loop on the events it selects, in their order: its log, and whether it has
  returned.\<close>

datatype watch_event = CtxDone | DoneCh "go_error option" | RenewCh

datatype watch_log = RenewalStopped go_error | TokenRenewed

fun watchTokenRenewal :: "watch_event list \<Rightarrow> watch_log list \<times> bool" where
  "watchTokenRenewal [] = ([], False)"
| "watchTokenRenewal (CtxDone # evs) = ([], True)"
| "watchTokenRenewal (DoneCh (Some e) # evs) = ([RenewalStopped e], True)"
| "watchTokenRenewal (DoneCh None # evs) = ([], True)"
| "watchTokenRenewal (RenewCh # evs) =
     (case watchTokenRenewal evs of (l, r) \<Rightarrow> (TokenRenewed # l, r))"

fun isVault404 :: "go_error \<Rightarrow> bool" where
  "isVault404 (ErrVaultResponse c) = (c = 404)"
| "isVault404 (Wrap m e) = isVault404 e"
| "isVault404 _ = False"

definition secretKVPath :: "hashicorpVaultService \<Rightarrow> bytes \<Rightarrow> bytes" where
  "secretKVPath s builderName =
     (if vs_secretPath s = [] then builderName else vs_secretPath s @ ''/'' @ builderName)"

text \<open>The key-value client, by mount path and path. A read gives a nil secret, a secret with
  nil data, or data; a write stores a map.\<close>

record 'v vault_kv =
  kv_Get :: "bytes \<Rightarrow> bytes \<Rightarrow> 'v \<Rightarrow> (bytes, ival) nmap option result \<times> 'v"
  kv_Put :: "bytes \<Rightarrow> bytes \<Rightarrow> (bytes, ival) nmap \<Rightarrow> 'v \<Rightarrow> go_error option \<times> 'v"

text \<open>\<open>json.Marshal\<close> of a value of type \<open>interface{}\<close>: maps in key order; the text of a number
  has to be a number literal (an empty one is written as zero).\<close>

fun enc_any :: "ival \<Rightarrow> json option"
  and enc_any_list :: "ival list \<Rightarrow> json list option"
  and enc_any_members :: "(bytes \<times> ival) list \<Rightarrow> (bytes \<times> json) list option" where
  "enc_any INil = Some JNull"
| "enc_any (IBool b) = Some (JBool b)"
| "enc_any (INum n) = (if n = [] then Some (JNum ''0'') else if num_lit n then Some (JNum n) else None)"
| "enc_any (IStr s) = Some (enc_string s)"
| "enc_any (IArr vs) = map_option JArr (enc_any_list vs)"
| "enc_any (IMap m) = map_option enc_map (enc_any_members m)"
| "enc_any_list [] = Some []"
| "enc_any_list (v # vs) =
     (case (enc_any v, enc_any_list vs) of (Some j, Some js) \<Rightarrow> Some (j # js) | _ \<Rightarrow> None)"
| "enc_any_members [] = Some []"
| "enc_any_members ((k, v) # ms) =
     (case (enc_any v, enc_any_members ms) of (Some j, Some js) \<Rightarrow> Some ((k, j) # js) | _ \<Rightarrow> None)"

definition Marshal_any :: "ival \<Rightarrow> bytes result" where
  "Marshal_any v = (case enc_any v of None \<Rightarrow> Inl ErrJson | Some j \<Rightarrow> Inr (json_print j))"

definition vault_GetSecretValues ::
  "'v vault_kv \<Rightarrow> hashicorpVaultService \<Rightarrow> bytes \<Rightarrow> 'v \<Rightarrow> bytes result outcome \<times> 'v" where
  "vault_GetSecretValues kv s builderName v =
     (case kv_Get kv (vs_mountPath s) (secretKVPath s builderName) v of
        (Inl e, v') \<Rightarrow>
          (Ret (if isVault404 e then Inr ''{}'' else Inl (Wrap ''failed to read secret from Vault'' e)), v')
      | (Inr None, v') \<Rightarrow> (Ret (Inr ''{}''), v')
      | (Inr (Some None), v') \<Rightarrow> (Ret (Inr ''{}''), v')
      | (Inr (Some (Some data)), v') \<Rightarrow>
          (Ret (case Marshal_any (IMap data) of
                  Inl e \<Rightarrow> Inl (Wrap ''failed to marshal Vault secret'' e)
                | Inr secretJSON \<Rightarrow> Inr secretJSON), v'))"

definition vault_SetSecretValues ::
  "ext \<Rightarrow> 'v vault_kv \<Rightarrow> hashicorpVaultService \<Rightarrow> bytes \<Rightarrow> bytes \<Rightarrow> 'v \<Rightarrow> go_error option outcome \<times> 'v" where
  "vault_SetSecretValues x kv s builderName values v =
     (case Unmarshal (dec_any_map x) values None of
        Inl e \<Rightarrow> (Ret (Some (Wrap ''failed to unmarshal secret values'' e)), v)
      | Inr dataMap \<Rightarrow>
          (case kv_Put kv (vs_mountPath s) (secretKVPath s builderName) dataMap v of
             (Some e, v') \<Rightarrow> (Ret (Some (Wrap ''failed to write secret to Vault'' e)), v')
           | (None, v') \<Rightarrow> (Ret None, v')))"

definition vault_service ::
  "ext \<Rightarrow> 'v vault_kv \<Rightarrow> hashicorpVaultService \<Rightarrow> 'v AdminSecretService" where
  "vault_service x kv s = \<lparr>sa_GetSecretValues = vault_GetSecretValues kv s,
     as_SetSecretValues = vault_SetSecretValues x kv s\<rparr>"

section \<open>The contract of a secret store\<close>

text \<open>A sequence of writes, each of a value for a builder.\<close>

definition write_all :: "'s AdminSecretService \<Rightarrow> (bytes \<times> bytes) list \<Rightarrow> 's \<Rightarrow> 's" where
  "write_all ops ws s = fold (\<lambda>(b, v) s. snd (as_SetSecretValues ops b v s)) ws s"

text \<open>\<open>norm v\<close> is what a read gives back for an accepted value \<open>v\<close>.\<close>

locale secret_store =
  fixes ops :: "'s AdminSecretService"
    and inv :: "'s \<Rightarrow> bool"
    and name_ok :: "bytes \<Rightarrow> bool"
    and norm :: "bytes \<Rightarrow> bytes option"
  assumes get_inv: "inv s \<Longrightarrow> inv (snd (sa_GetSecretValues ops b s))"
    and get_get: "inv s \<Longrightarrow> fst (sa_GetSecretValues ops b (snd (sa_GetSecretValues ops b' s))) =
      fst (sa_GetSecretValues ops b s)"
    and set_ok: "inv s \<Longrightarrow> name_ok b \<Longrightarrow> norm v = Some w \<Longrightarrow>
      fst (as_SetSecretValues ops b v s) = Ret None \<and> inv (snd (as_SetSecretValues ops b v s))"
    and get_set: "inv s \<Longrightarrow> name_ok b \<Longrightarrow> name_ok b' \<Longrightarrow> norm v = Some w \<Longrightarrow>
      fst (sa_GetSecretValues ops b' (snd (as_SetSecretValues ops b v s))) =
        (if b' = b then Ret (Inr w) else fst (sa_GetSecretValues ops b' s))"
begin

lemma write_all_inv:
  "inv s \<Longrightarrow> \<forall>(b, v)\<in>set ws. name_ok b \<and> norm v \<noteq> None \<Longrightarrow> inv (write_all ops ws s)"
proof (induction ws arbitrary: s)
  case (Cons p ws)
  obtain b v where p: "p = (b, v)" by (cases p)
  with Cons.prems have "inv (snd (as_SetSecretValues ops b v s))" using set_ok by auto
  with Cons p show ?case by (simp add: write_all_def)
qed (simp add: write_all_def)

text \<open>After any sequence of writes, a read gives the last value written for the builder, and what
  was there before when there is none.\<close>

lemma read_after_writes:
  assumes "inv s" "\<forall>(b, v)\<in>set ws. name_ok b \<and> norm v \<noteq> None" "name_ok b"
  shows "fst (sa_GetSecretValues ops b (write_all ops ws s)) =
    (case map_of (rev ws) b of None \<Rightarrow> fst (sa_GetSecretValues ops b s)
     | Some v \<Rightarrow> Ret (Inr (the (norm v))))"
  using assms(2)
proof (induction ws rule: rev_induct)
  case (snoc p ws)
  obtain b0 v0 where p: "p = (b0, v0)" by (cases p)
  then obtain w where w: "norm v0 = Some w" and b0: "name_ok b0" using snoc.prems by auto
  have "inv (write_all ops ws s)" using assms(1) snoc.prems by (intro write_all_inv) auto
  from get_set [OF this b0 assms(3) w] snoc p w show ?case
    by (auto simp: write_all_def)
qed (simp add: write_all_def)

end

interpretation mss: secret_store inmem_service "\<lambda>_. True" "\<lambda>_. True" Some
  by unfold_locales
     (simp_all add: inmem_service_def inmem_SetSecretValues_def inmem_GetSecretValues_def update_conv'
       split: prod.splits)

section \<open>The two services fulfil the contract\<close>

subsection \<open>AWS\<close>

text \<open>Documented behaviour of Secrets Manager while it answers: a read returns the current
  secret string or the code for a missing secret; creating works for a missing secret, putting
  for an existing one, and both set exactly the named secret.\<close>

definition aws_contract :: "'c aws_client \<Rightarrow> ('c \<Rightarrow> bool) \<Rightarrow> (bytes \<Rightarrow> bool) \<Rightarrow> ('c \<Rightarrow> bytes \<rightharpoonup> bytes) \<Rightarrow> bool" where
  "aws_contract sm live valid content \<longleftrightarrow>
     (\<forall>c n. live c \<longrightarrow>
        fst (aws_GetSecretValue sm n c) = (case content c n of
           None \<Rightarrow> Inl (ErrAws ErrCodeResourceNotFoundException) | Some str \<Rightarrow> Inr (Some str)) \<and>
        live (snd (aws_GetSecretValue sm n c)) \<and>
        content (snd (aws_GetSecretValue sm n c)) = content c) \<and>
     (\<forall>c n str. live c \<longrightarrow> valid n \<longrightarrow> content c n = None \<longrightarrow>
        fst (aws_CreateSecret sm n str c) = None \<and> live (snd (aws_CreateSecret sm n str c)) \<and>
        content (snd (aws_CreateSecret sm n str c)) = (content c)(n \<mapsto> str)) \<and>
     (\<forall>c n str. live c \<longrightarrow> valid n \<longrightarrow> content c n \<noteq> None \<longrightarrow>
        fst (aws_PutSecretValue sm n str c) = None \<and> live (snd (aws_PutSecretValue sm n str c)) \<and>
        content (snd (aws_PutSecretValue sm n str c)) = (content c)(n \<mapsto> str))"

text \<open>The secrets under the prefix are objects, as the code writes them. (A secret that some other
  client has set to the document \<open>null\<close> is none: a write over it panics.)\<close>

definition aws_inv :: "awsSecretsService \<Rightarrow> ('c \<Rightarrow> bool) \<Rightarrow> ('c \<Rightarrow> bytes \<rightharpoonup> bytes) \<Rightarrow> 'c \<Rightarrow> bool" where
  "aws_inv s live content c \<longleftrightarrow> live c \<and>
     (\<forall>b str. content c (secretName s b) = Some str \<longrightarrow> (\<exists>m. Unmarshal_raw_map str = Inr (Some m) \<and> raw_ok m))"

definition aws_norm :: "bytes \<Rightarrow> bytes option" where
  "aws_norm v = (case json_parse v of None \<Rightarrow> None
     | Some j \<Rightarrow> if depth j < maxNestingDepth then Some (compact j) else None)"

lemma secretName_inj [simp]: "secretName s b = secretName s b' \<longleftrightarrow> b = b'"
  by (simp add: secretName_def)

lemma raw_ok_update:
  assumes "raw_ok m" "utf8_valid b" "json_parse v = Some j" "depth j < maxNestingDepth"
  shows "raw_ok (AList.update b v m)"
proof -
  have "set (AList.update b v m) \<subseteq> insert (b, v) (set m)"
    by (induction m) auto
  moreover have "\<forall>(k, raw)\<in>insert (b, v) (set m). utf8_valid k \<and>
      (case json_parse raw of None \<Rightarrow> False | Some v \<Rightarrow> depth v < maxNestingDepth)"
    using assms by (simp add: raw_ok_def)
  ultimately show ?thesis using assms(1) unfolding raw_ok_def by (blast intro: distinct_update)
qed

text \<open>What is stored for a map with an accepted value is read back, and is again well-formed.\<close>

lemma stored_map:
  assumes "raw_ok m"
  obtains str m' where "Marshal_raw_map m = Inr str" "Unmarshal_raw_map str = Inr (Some m')" "raw_ok m'"
    "\<forall>k. map_of m' k = map_option (\<lambda>raw. json_print (raw_doc raw)) (map_of m k)"
proof -
  obtain str m' where str: "Marshal_raw_map m = Inr str" "Unmarshal_raw_map str = Inr (Some m')"
      "distinct (map fst m')" "\<forall>k. map_of m' k = map_option (\<lambda>raw. json_print (raw_doc raw)) (map_of m k)"
    using raw_map_roundtrip [OF assms] by blast
  have "utf8_valid k \<and> (case json_parse raw of None \<Rightarrow> False | Some v \<Rightarrow> depth v < maxNestingDepth)"
    if "(k, raw) \<in> set m'" for k raw
  proof -
    have "map_of m' k = Some raw" using that str(3) by simp
    then obtain raw0 where raw0: "map_of m k = Some raw0" "raw = json_print (raw_doc raw0)" using str(4) by auto
    then have "(k, raw0) \<in> set m" by (simp add: map_of_SomeD)
    with assms obtain v where "utf8_valid k" "json_parse raw0 = Some v" "depth v < maxNestingDepth"
      by (fastforce simp: raw_ok_def split: option.splits)
    then show ?thesis using raw0(2) compact_parse [of raw0 v] by (simp add: raw_doc_def compact_def)
  qed
  with str(3) have "raw_ok m'" by (auto simp: raw_ok_def)
  with str show ?thesis using that by blast
qed

lemma aws_contractD:
  assumes "aws_contract sm live valid content" "live c"
  shows "fst (aws_GetSecretValue sm n c) = (case content c n of
      None \<Rightarrow> Inl (ErrAws ErrCodeResourceNotFoundException) | Some str \<Rightarrow> Inr (Some str))"
    "live (snd (aws_GetSecretValue sm n c))" "content (snd (aws_GetSecretValue sm n c)) = content c"
    "valid n \<Longrightarrow> content c n = None \<Longrightarrow> fst (aws_CreateSecret sm n str c) = None \<and>
      live (snd (aws_CreateSecret sm n str c)) \<and>
      content (snd (aws_CreateSecret sm n str c)) = (content c)(n \<mapsto> str)"
    "valid n \<Longrightarrow> content c n \<noteq> None \<Longrightarrow> fst (aws_PutSecretValue sm n str c) = None \<and>
      live (snd (aws_PutSecretValue sm n str c)) \<and>
      content (snd (aws_PutSecretValue sm n str c)) = (content c)(n \<mapsto> str)"
  using assms unfolding aws_contract_def by blast+

lemma aws_Get_eq:
  assumes "aws_contract sm live valid content" "live c"
  shows "fst (aws_GetSecretValues sm s b c) =
    Ret (case content c (secretName s b) of None \<Rightarrow> Inr ''{}''
     | Some str \<Rightarrow> (case Unmarshal_raw_map str of Inl e \<Rightarrow> Inl e
         | Inr m \<Rightarrow> (case map_of (entries m) b of None \<Rightarrow> Inl ErrMissingSecret | Some r \<Rightarrow> Inr r)))"
  and "snd (aws_GetSecretValues sm s b c) = snd (aws_GetSecretValue sm (secretName s b) c)"
  using aws_contractD(1) [OF assms, of "secretName s b"]
  by (auto simp: aws_GetSecretValues_def split: prod.splits option.splits sum.splits)

text \<open>The map that a write starts from.\<close>

definition aws_current :: "awsSecretsService \<Rightarrow> (bytes \<rightharpoonup> bytes) \<Rightarrow> bytes \<Rightarrow> (bytes, bytes) gomap" where
  "aws_current s content b = (case content (secretName s b) of None \<Rightarrow> []
     | Some str \<Rightarrow> (case Unmarshal_raw_map str of Inl e \<Rightarrow> [] | Inr m \<Rightarrow> entries m))"

lemma aws_Set_eq:
  assumes con: "aws_contract sm live valid content" and inv: "aws_inv s live content c"
    and ok: "utf8_valid b" "valid (secretName s b)" "json_parse v = Some j" "depth j < maxNestingDepth"
  obtains str m' where "fst (aws_SetSecretValues sm s b v c) = Ret None"
    "live (snd (aws_SetSecretValues sm s b v c))"
    "content (snd (aws_SetSecretValues sm s b v c)) = (content c)(secretName s b \<mapsto> str)"
    "Unmarshal_raw_map str = Inr (Some m')" "raw_ok m'" "map_of m' b = Some (compact j)"
proof -
  have live: "live c" using inv by (simp add: aws_inv_def)
  let ?n = "secretName s b" let ?c = "snd (aws_GetSecretValue sm ?n c)"
  let ?m = "AList.update b v (aws_current s (content c) b)"
  have "raw_ok (aws_current s (content c) b)"
    using inv by (fastforce simp: aws_inv_def aws_current_def raw_ok_def split: option.splits)
  then have "raw_ok ?m" using ok by (intro raw_ok_update)
  then obtain str m' where str: "Marshal_raw_map ?m = Inr str" "Unmarshal_raw_map str = Inr (Some m')" "raw_ok m'"
      "\<forall>k. map_of m' k = map_option (\<lambda>raw. json_print (raw_doc raw)) (map_of ?m k)"
    by (rule stored_map)
  have b: "map_of m' b = Some (compact j)"
    using str(4) ok(3) by (simp add: update_conv' raw_doc_def compact_def)
  note get = aws_contractD(1-3) [OF con live, of ?n]
  have "aws_SetSecretValues sm s b v c = ret_err
      (if content c ?n = None then aws_CreateSecret sm ?n str ?c else aws_PutSecretValue sm ?n str ?c)"
    using get(1) str(1) inv
    by (fastforce simp: aws_SetSecretValues_def aws_current_def Let_def aws_inv_def
        split: prod.splits option.splits sum.splits)
  then show ?thesis
    using aws_contractD(4,5) [OF con get(2) ok(2), of str] get(3) str b
    by (intro that [of str m']) (auto simp: ret_err_def)
qed

lemma aws_secret_store:
  assumes con: "aws_contract sm live valid content"
  shows "secret_store (aws_service sm s) (aws_inv s live content)
    (\<lambda>b. utf8_valid b \<and> valid (secretName s b)) aws_norm"
proof
  fix c b
  assume "aws_inv s live content c"
  then show "aws_inv s live content (snd (sa_GetSecretValues (aws_service sm s) b c))"
    using aws_contractD [OF con] by (simp add: aws_inv_def aws_service_def aws_Get_eq(2) [OF con])
next
  fix c b b'
  assume "aws_inv s live content c"
  then show "fst (sa_GetSecretValues (aws_service sm s) b (snd (sa_GetSecretValues (aws_service sm s) b' c))) =
      fst (sa_GetSecretValues (aws_service sm s) b c)"
    using aws_contractD [OF con] by (simp add: aws_inv_def aws_service_def aws_Get_eq [OF con])
next
  fix c b v w
  assume a: "aws_inv s live content c" "utf8_valid b \<and> valid (secretName s b)" "aws_norm v = Some w"
  then obtain j where j: "json_parse v = Some j" "depth j < maxNestingDepth"
    by (auto simp: aws_norm_def split: option.splits if_splits)
  show "fst (as_SetSecretValues (aws_service sm s) b v c) = Ret None \<and>
      aws_inv s live content (snd (as_SetSecretValues (aws_service sm s) b v c))"
    by (rule aws_Set_eq [OF con a(1) _ _ j]) (use a in \<open>auto simp: aws_service_def aws_inv_def split: if_splits\<close>)
next
  fix c b b' v w
  assume a: "aws_inv s live content c" "utf8_valid b \<and> valid (secretName s b)"
    "utf8_valid b' \<and> valid (secretName s b')" "aws_norm v = Some w"
  then obtain j where j: "json_parse v = Some j" "depth j < maxNestingDepth" "w = compact j"
    by (auto simp: aws_norm_def split: option.splits if_splits)
  have live: "live c" using a(1) by (simp add: aws_inv_def)
  show "fst (sa_GetSecretValues (aws_service sm s) b' (snd (as_SetSecretValues (aws_service sm s) b v c))) =
      (if b' = b then Ret (Inr w) else fst (sa_GetSecretValues (aws_service sm s) b' c))"
    by (rule aws_Set_eq [OF con a(1) _ _ j(1,2)])
       (use a live j(3) in \<open>auto simp: aws_service_def aws_Get_eq [OF con]\<close>)
qed

subsection \<open>Vault\<close>

text \<open>Documented behaviour of the key-value store while it answers: a read returns the data at
  the path, a write of a map sets exactly the data at the path. What a read of a path without
  data returns is left open (\<open>absent\<close>).\<close>

definition vault_contract :: "'v vault_kv \<Rightarrow> ('v \<Rightarrow> bool) \<Rightarrow> (bytes \<Rightarrow> bool)
    \<Rightarrow> ('v \<Rightarrow> bytes \<times> bytes \<rightharpoonup> (bytes, ival) gomap)
    \<Rightarrow> (bytes \<Rightarrow> bytes \<Rightarrow> (bytes, ival) nmap option result) \<Rightarrow> bool" where
  "vault_contract kv live valid content absent \<longleftrightarrow>
     (\<forall>v mt p. live v \<longrightarrow>
        fst (kv_Get kv mt p v) = (case content v (mt, p) of None \<Rightarrow> absent mt p | Some d \<Rightarrow> Inr (Some (Some d))) \<and>
        live (snd (kv_Get kv mt p v)) \<and> content (snd (kv_Get kv mt p v)) = content v) \<and>
     (\<forall>v mt p m. live v \<longrightarrow> valid p \<longrightarrow>
        fst (kv_Put kv mt p (Some m) v) = None \<and> live (snd (kv_Put kv mt p (Some m) v)) \<and>
        content (snd (kv_Put kv mt p (Some m) v)) = (content v)((mt, p) \<mapsto> m))"

definition vault_norm :: "ext \<Rightarrow> bytes \<Rightarrow> bytes option" where
  "vault_norm x v =
     (case Unmarshal (dec_any_map x) v None of
        Inr (Some m) \<Rightarrow> (case Marshal_any (IMap m) of Inl e \<Rightarrow> None | Inr t \<Rightarrow> Some t)
      | _ \<Rightarrow> None)"

lemma secretKVPath_inj [simp]: "secretKVPath s b = secretKVPath s b' \<longleftrightarrow> b = b'"
  by (simp add: secretKVPath_def)

lemma vault_contractD:
  assumes "vault_contract kv live valid content absent" "live v"
  shows "fst (kv_Get kv mt p v) = (case content v (mt, p) of None \<Rightarrow> absent mt p | Some d \<Rightarrow> Inr (Some (Some d)))"
    "live (snd (kv_Get kv mt p v))" "content (snd (kv_Get kv mt p v)) = content v"
    "valid p \<Longrightarrow> fst (kv_Put kv mt p (Some m) v) = None \<and> live (snd (kv_Put kv mt p (Some m) v)) \<and>
       content (snd (kv_Put kv mt p (Some m) v)) = (content v)((mt, p) \<mapsto> m)"
  using assms unfolding vault_contract_def by blast+

text \<open>A read of the service, as a function of the answer of the client.\<close>

definition vault_answer :: "(bytes, ival) nmap option result \<Rightarrow> bytes result" where
  "vault_answer r = (case r of
      Inl e \<Rightarrow> if isVault404 e then Inr ''{}'' else Inl (Wrap ''failed to read secret from Vault'' e)
    | Inr None \<Rightarrow> Inr ''{}'' | Inr (Some None) \<Rightarrow> Inr ''{}''
    | Inr (Some (Some data)) \<Rightarrow> (case Marshal_any (IMap data) of
        Inl e \<Rightarrow> Inl (Wrap ''failed to marshal Vault secret'' e) | Inr t \<Rightarrow> Inr t))"

lemma vault_Get_eq:
  "vault_GetSecretValues kv s b v =
     (Ret (vault_answer (fst (kv_Get kv (vs_mountPath s) (secretKVPath s b) v))),
      snd (kv_Get kv (vs_mountPath s) (secretKVPath s b) v))"
  by (simp add: vault_GetSecretValues_def vault_answer_def split: prod.splits sum.splits option.splits)

lemma vault_Set_eq:
  assumes "vault_contract kv live valid content absent" "live v" "valid (secretKVPath s b)"
    and "vault_norm x val = Some w"
  obtains m where "fst (vault_SetSecretValues x kv s b val v) = Ret None"
    "live (snd (vault_SetSecretValues x kv s b val v))"
    "content (snd (vault_SetSecretValues x kv s b val v)) =
       (content v)((vs_mountPath s, secretKVPath s b) \<mapsto> m)"
    "Marshal_any (IMap m) = Inr w"
proof -
  from assms(4) obtain m where m: "Unmarshal (dec_any_map x) val None = Inr (Some m)" "Marshal_any (IMap m) = Inr w"
    by (auto simp: vault_norm_def split: sum.splits option.splits)
  with vault_contractD(4) [OF assms(1-3), of "vs_mountPath s" m] show ?thesis
    by (intro that [of m]) (auto simp: vault_SetSecretValues_def split: prod.splits option.splits)
qed

lemma vault_secret_store:
  assumes con: "vault_contract kv live valid content absent"
  shows "secret_store (vault_service x kv s) live (\<lambda>b. valid (secretKVPath s b)) (vault_norm x)"
proof
  show "live (snd (sa_GetSecretValues (vault_service x kv s) b v))" if "live v" for v b
    using vault_contractD [OF con that] by (simp add: vault_service_def vault_Get_eq)
  show "fst (sa_GetSecretValues (vault_service x kv s) b (snd (sa_GetSecretValues (vault_service x kv s) b' v))) =
      fst (sa_GetSecretValues (vault_service x kv s) b v)" if "live v" for v b b'
    using vault_contractD(1-3) [OF con] that by (simp add: vault_service_def vault_Get_eq)
  show "fst (as_SetSecretValues (vault_service x kv s) b val v) = Ret None \<and>
      live (snd (as_SetSecretValues (vault_service x kv s) b val v))"
    if "live v" "valid (secretKVPath s b)" "vault_norm x val = Some w" for v b val w
    by (rule vault_Set_eq [OF con that]) (simp add: vault_service_def)
  show "fst (sa_GetSecretValues (vault_service x kv s) b' (snd (as_SetSecretValues (vault_service x kv s) b val v))) =
      (if b' = b then Ret (Inr w) else fst (sa_GetSecretValues (vault_service x kv s) b' v))"
    if live: "live v" and ok: "valid (secretKVPath s b)" "valid (secretKVPath s b')" "vault_norm x val = Some w"
    for v b b' val w
    by (rule vault_Set_eq [OF con live ok(1,3)])
       (auto simp: vault_service_def vault_Get_eq vault_contractD(1) [OF con] live vault_answer_def)
qed

section \<open>Properties\<close>

text \<open>On the in-memory store every read returns the last value written for the builder, and
  what was there before when none was written (nothing for a new store).\<close>

theorem inmem_read_after_writes:
  "fst (sa_GetSecretValues inmem_service b (write_all inmem_service ws s)) =
     (case map_of (rev ws) b of None \<Rightarrow> Ret (inmem_GetSecretValues s b) | Some v \<Rightarrow> Ret (Inr v))"
  using mss.read_after_writes [where s = s and ws = ws and b = b] by (simp add: inmem_service_def split: option.splits)

text \<open>C36: On AWS Secrets Manager, while the service answers as documented and the stored secrets
  are documents this code has written, a read after any sequence of writes of valid JSON
  returns the compacted and HTML-escaped text of the last value written for the builder, and
  the other builders' secrets are unchanged.\<close>

theorem aws_read_after_writes:
  assumes "aws_contract sm live valid content" "aws_inv s live content c"
    and "\<forall>(b, v)\<in>set ws. utf8_valid b \<and> valid (secretName s b) \<and> aws_norm v \<noteq> None"
    and "utf8_valid b" "valid (secretName s b)"
  shows "fst (sa_GetSecretValues (aws_service sm s) b (write_all (aws_service sm s) ws c)) =
    (case map_of (rev ws) b of None \<Rightarrow> fst (sa_GetSecretValues (aws_service sm s) b c)
     | Some v \<Rightarrow> Ret (Inr (the (aws_norm v))))"
  by (rule secret_store.read_after_writes [OF aws_secret_store [OF assms(1)] assms(2)])
     (use assms in auto)

definition sample_aws :: "(bytes \<times> bytes) list aws_client" where
  "sample_aws = \<lparr>
     aws_GetSecretValue = \<lambda>n c. (case map_of c n of
        None \<Rightarrow> Inl (ErrAws ErrCodeResourceNotFoundException) | Some s \<Rightarrow> Inr (Some s), c),
     aws_CreateSecret = \<lambda>n s c. (None, AList.update n s c),
     aws_PutSecretValue = \<lambda>n s c. (None, AList.update n s c)\<rparr>"

lemma sample_aws_contract: "aws_contract sample_aws (\<lambda>_. True) (\<lambda>_. True) map_of"
  by (simp add: aws_contract_def sample_aws_def update_conv')

definition sample_aws_service :: awsSecretsService where
  "sample_aws_service = \<lparr>aws_secretPrefix = ''hub''\<rparr>"

theorem aws_read_after_writes_witness:
  "fst (sa_GetSecretValues (aws_service sample_aws sample_aws_service) ''alpha''
     (write_all (aws_service sample_aws sample_aws_service)
       [(''alpha'', ''{ \"k\" : 1 }''), (''beta'', ''[]''), (''alpha'', ''{ \"k\" : 2 }'')] [])) =
   Ret (Inr ''{\"k\":2}'')"
proof -
  have inv: "aws_inv sample_aws_service (\<lambda>_. True) map_of []" by (simp add: aws_inv_def)
  have ok: "\<forall>(b, v)\<in>set [(''alpha'', ''{ \"k\" : 1 }''), (''beta'', ''[]''), (''alpha'', ''{ \"k\" : 2 }'')].
      utf8_valid b \<and> True \<and> aws_norm v \<noteq> None" by code_simp
  have u: "utf8_valid ''alpha''" by code_simp
  have n: "aws_norm ''{ \"k\" : 2 }'' = Some ''{\"k\":2}''" by code_simp
  show ?thesis
    using aws_read_after_writes [OF sample_aws_contract inv ok u TrueI] n by simp
qed

text \<open>A write over a secret that is stored as \<open>null\<close> panics: the unmarshalled map is nil.\<close>

lemma aws_null_secret_panics:
  assumes "aws_contract sm live valid content" "live c" "content c (secretName s b) = Some str"
    and "json_parse str = Some JNull"
  shows "fst (aws_SetSecretValues sm s b v c) = Panic nil_map"
  using aws_contractD(1) [OF assms(1,2), of "secretName s b"] assms(3,4)
  by (auto simp: aws_SetSecretValues_def Let_def Unmarshal_raw_map_def split: prod.splits sum.splits option.splits)

text \<open>C37: On Vault, while the key-value store answers as documented, a read after any sequence of
  writes of JSON objects returns the JSON text of the last object written for the builder, and
  the other builders' secrets are unchanged.\<close>

theorem vault_read_after_writes:
  assumes "vault_contract kv live valid content absent" "live v"
    and "\<forall>(b, val)\<in>set ws. valid (secretKVPath s b) \<and> vault_norm x val \<noteq> None"
    and "valid (secretKVPath s b)"
  shows "fst (sa_GetSecretValues (vault_service x kv s) b (write_all (vault_service x kv s) ws v)) =
    (case map_of (rev ws) b of None \<Rightarrow> fst (sa_GetSecretValues (vault_service x kv s) b v)
     | Some val \<Rightarrow> Ret (Inr (the (vault_norm x val))))"
  by (rule secret_store.read_after_writes [OF vault_secret_store [OF assms(1)] assms(2)])
     (use assms in auto)

definition sample_vault :: "((bytes \<times> bytes) \<times> (bytes, ival) gomap) list vault_kv" where
  "sample_vault = \<lparr>
     kv_Get = \<lambda>mt p v. (case map_of v (mt, p) of
        None \<Rightarrow> Inl (ErrVaultResponse 404) | Some d \<Rightarrow> Inr (Some (Some d)), v),
     kv_Put = \<lambda>mt p m v. (None, AList.update (mt, p) (entries m) v)\<rparr>"

lemma sample_vault_contract:
  "vault_contract sample_vault (\<lambda>_. True) (\<lambda>_. True) map_of (\<lambda>_ _. Inl (ErrVaultResponse 404))"
  by (simp add: vault_contract_def sample_vault_def update_conv')

definition sample_vault_service :: hashicorpVaultService where
  "sample_vault_service = \<lparr>vs_secretPath = ''hub'', vs_mountPath = ''secret'', vs_token = ''t'',
     vs_watching = False\<rparr>"

theorem vault_read_after_writes_witness:
  "fst (sa_GetSecretValues (vault_service sample_ext sample_vault sample_vault_service) ''alpha''
     (write_all (vault_service sample_ext sample_vault sample_vault_service)
       [(''alpha'', ''{ \"k\" : \"v\" }''), (''beta'', ''{}'')] [])) = Ret (Inr ''{\"k\":\"v\"}'')"
proof -
  have ok: "\<forall>(b, val)\<in>set [(''alpha'', ''{ \"k\" : \"v\" }''), (''beta'', ''{}'')].
      True \<and> vault_norm sample_ext val \<noteq> None" by code_simp
  have n: "vault_norm sample_ext ''{ \"k\" : \"v\" }'' = Some ''{\"k\":\"v\"}''" by code_simp
  show ?thesis
    using vault_read_after_writes [OF sample_vault_contract TrueI ok TrueI, where b = "''alpha''"] n by simp
qed

text \<open>Merging secrets gives, for every iteration order of the two maps, the second map where
  it has the key and the default elsewhere.\<close>

theorem MergeSecrets_overrides:
  assumes "distinct (map fst defaultSecrets)" "distinct (map fst secrets)"
  shows "map_of (MergeSecrets k1 k2 defaultSecrets secrets) = map_of defaultSecrets ++ map_of secrets"
proof -
  have "map_of (rev (permute k xs)) = map_of xs" if "distinct (map fst xs)" for k and xs :: "(bytes, bytes) gomap"
    by (rule map_of_mset_eq) (use that in \<open>simp_all add: rev_map [symmetric]\<close>)
  with assms show ?thesis by (simp add: MergeSecrets_def fold_update_map_of)
qed

theorem MergeSecrets_overrides_witness:
  "map_of (MergeSecrets 1 0 [(''a'', ''1''), (''b'', ''2'')] [(''b'', ''3'')]) ''b'' = Some ''3''"
  using MergeSecrets_overrides [of "[(''a'', ''1''), (''b'', ''2'')]" "[(''b'', ''3'')]" 1 0] by simp

text \<open>A Vault service is created only with a supported authentication method and the
  credentials of that method: a token, or a JWT whose login returned the token in use, with a
  role for the JWT method; it watches the token exactly when it logged in; an empty mount path
  becomes the default.\<close>

theorem NewHashicorpVaultService_authenticated:
  assumes "NewHashicorpVaultService api cfg = Inr svc"
  shows "vs_secretPath svc = vc_SecretPrefix cfg \<and>
    vs_mountPath svc = (if vc_MountPath cfg = [] then ''secret'' else vc_MountPath cfg) \<and>
    (vc_AuthMethod cfg \<in> {''token'', []} \<and> vs_token svc = vc_Token cfg \<and> vc_Token cfg \<noteq> [] \<and> \<not> vs_watching svc \<or>
     vc_AuthMethod cfg = ''kubernetes'' \<and> vc_Jwt cfg \<noteq> [] \<and> vs_watching svc \<and>
       va_Login api (vc_Role cfg) (vc_Jwt cfg)
         (if vc_AuthMountPath cfg \<noteq> [] then Some (vc_AuthMountPath cfg) else None) = Inr (vs_token svc) \<or>
     vc_AuthMethod cfg = ''jwt'' \<and> vc_Jwt cfg \<noteq> [] \<and> vc_Role cfg \<noteq> [] \<and> vs_watching svc \<and>
       va_WriteLogin api (''auth/'' @ (if vc_AuthMountPath cfg = [] then ''jwt'' else vc_AuthMountPath cfg) @ ''/login'')
         (vc_Role cfg) (vc_Jwt cfg) = Inr (Some (Some (vs_token svc))))"
  using assms
  by (auto simp: NewHashicorpVaultService_def k8s_login_def jwt_login_def Let_def
      split: if_splits option.splits sum.splits)

definition sample_api :: vault_api where
  "sample_api = \<lparr>va_NewClient = \<lambda>_. None, va_NewKubernetesAuth = \<lambda>_ _ _. None,
     va_Login = \<lambda>_ _ _. Inr ''k8s'', va_WriteLogin = \<lambda>_ _ _. Inr (Some (Some ''tok'')),
     va_NewLifetimeWatcher = \<lambda>_. None\<rparr>"

definition sample_vault_config :: VaultConfig where
  "sample_vault_config = \<lparr>vc_Address = ''http://vault:8200'', vc_Token = [], vc_SecretPrefix = ''hub'',
     vc_MountPath = [], vc_AuthMethod = ''jwt'', vc_AuthMountPath = [], vc_Role = ''hub'', vc_Jwt = ''j''\<rparr>"

theorem NewHashicorpVaultService_authenticated_witness:
  "\<exists>svc. NewHashicorpVaultService sample_api sample_vault_config = Inr svc \<and>
     vs_mountPath svc = ''secret'' \<and> vs_watching svc"
proof -
  obtain svc where svc: "NewHashicorpVaultService sample_api sample_vault_config = Inr svc"
    by (simp add: NewHashicorpVaultService_def jwt_login_def sample_api_def sample_vault_config_def)
  from NewHashicorpVaultService_authenticated [OF svc] svc show ?thesis
    by (auto simp: sample_vault_config_def)
qed

text \<open>C40: The renewal watcher returns exactly when the context is done or the watcher reports its
  end, whatever has been renewed before; it has then logged one line per renewal up to there, and
  the error when the end has one, and nothing for the events after it.\<close>

theorem watchTokenRenewal_returns:
  "snd (watchTokenRenewal evs) = (\<exists>e\<in>set evs. e \<noteq> RenewCh) \<and>
   fst (watchTokenRenewal evs) = map (\<lambda>_. TokenRenewed) (takeWhile (\<lambda>e. e = RenewCh) evs) @
     (case dropWhile (\<lambda>e. e = RenewCh) evs of DoneCh (Some e) # _ \<Rightarrow> [RenewalStopped e] | _ \<Rightarrow> [])"
  by (induction evs rule: watchTokenRenewal.induct) (auto split: prod.splits)

end
