(* ===== verification/Net_IP.thy ===== *)
theory Net_IP
  imports Json_Lex
begin

text \<open>
  Go's \<open>net.ParseIP\<close> and \<open>net.IP.String\<close> (which call \<open>net/netip\<close>): dotted-decimal IPv4
  without leading zeros, IPv6 with one \<open>::\<close> and an optional trailing IPv4 part, no zones. An
  address is its 4 or 16 bytes; parsing always gives the 16-byte form, with IPv4 addresses
  mapped into \<open>::ffff:0:0/96\<close>.
\<close>

section \<open>Parsing\<close>

text \<open>The loop of \<open>parseIPv4Fields\<close>: the value and the digit count of the current octet, the
  octets read (in reverse), and whether the loop is at the start or after a dot.\<close>

fun parse4_loop :: "bytes \<Rightarrow> nat \<Rightarrow> nat \<Rightarrow> nat list \<Rightarrow> bool \<Rightarrow> nat list option" where
  "parse4_loop [] val digLen fs edge =
     (if length fs < 3 then None else Some (rev (val # fs)))"
| "parse4_loop (c # cs) val digLen fs edge =
     (if is_digit c then
        (if digLen = 1 \<and> val = 0 then None
         else let v = val * 10 + (byte c - 48) in
           if v > 255 then None else parse4_loop cs v (Suc digLen) fs False)
      else if c = CHR ''.'' then
        (if edge \<or> cs = [] then None
         else if length fs = 3 then None
         else parse4_loop cs 0 0 (val # fs) True)
      else None)"

definition parseIPv4Fields :: "bytes \<Rightarrow> bytes option" where
  "parseIPv4Fields s = map_option (map char_of) (parse4_loop s 0 0 [] True)"

definition is_hex :: "char \<Rightarrow> bool" where
  "is_hex c \<longleftrightarrow> hexval c \<noteq> None"

definition hex_value :: "bytes \<Rightarrow> nat" where
  "hex_value s = foldl (\<lambda>n c. 16 * n + the (hexval c)) 0 s"

text \<open>The loop of \<open>parseIPv6\<close> with \<open>n\<close> groups left: the bytes read and the position of the
  ellipsis; \<open>None\<close> is a parse error.\<close>

fun parse6_loop :: "nat \<Rightarrow> bytes \<Rightarrow> bytes \<Rightarrow> nat option \<Rightarrow> (bytes \<times> nat option) option" where
  "parse6_loop 0 s ip ell = (if s = [] then Some (ip, ell) else None)"
| "parse6_loop (Suc n) s ip ell =
     (let hs = takeWhile is_hex s; rest = dropWhile is_hex s; acc = hex_value hs in
      if length hs > 4 \<or> hs = [] then None
      else if rest \<noteq> [] \<and> hd rest = CHR ''.'' then
        (if ell = None \<and> length ip \<noteq> 12 then None
         else if length ip + 4 > 16 then None
         else (case parseIPv4Fields s of None \<Rightarrow> None | Some q \<Rightarrow> Some (ip @ q, ell)))
      else
        let ip' = ip @ [char_of (acc div 256), char_of (acc mod 256)] in
        (case rest of
           [] \<Rightarrow> Some (ip', ell)
         | [c] \<Rightarrow> None
         | c # d # s' \<Rightarrow>
             (if c \<noteq> CHR '':'' then None
              else if d = CHR '':'' then
                (if ell \<noteq> None then None
                 else if s' = [] then Some (ip', Some (length ip'))
                 else parse6_loop n s' ip' (Some (length ip')))
              else parse6_loop n (d # s') ip' ell)))"

definition zeros :: "nat \<Rightarrow> bytes" where
  "zeros n = replicate n (char_of (0::nat))"

definition expand_ellipsis :: "bytes \<Rightarrow> nat option \<Rightarrow> bytes option" where
  "expand_ellipsis ip ell =
     (case ell of
        None \<Rightarrow> (if length ip < 16 then None else Some ip)
      | Some e \<Rightarrow> (if length ip < 16 then Some (take e ip @ zeros (16 - length ip) @ drop e ip)
                  else None))"

text \<open>\<open>net.ParseIP\<close> refuses zones, so a text with a percent sign is not an address.\<close>

definition parseIPv6 :: "bytes \<Rightarrow> bytes option" where
  "parseIPv6 s =
     (if CHR ''%'' \<in> set s then None
      else
        let (s', ell) = (if take 2 s = ''::'' then (drop 2 s, Some 0) else (s, None)) in
        if ell \<noteq> None \<and> s' = [] then Some (zeros 16)
        else (case parse6_loop 8 s' [] ell of
                None \<Rightarrow> None
              | Some (ip, ell') \<Rightarrow> expand_ellipsis ip ell'))"

definition v4InV6Prefix :: bytes where
  "v4InV6Prefix = zeros 10 @ [char_of (255::nat), char_of (255::nat)]"

text \<open>The first dot, colon or percent sign decides.\<close>

fun parse_addr :: "bytes \<Rightarrow> bytes \<Rightarrow> bytes option" where
  "parse_addr s [] = None"
| "parse_addr s (c # cs) =
     (if c = CHR ''.'' then map_option (\<lambda>q. v4InV6Prefix @ q) (parseIPv4Fields s)
      else if c = CHR '':'' then parseIPv6 s
      else if c = CHR ''%'' then None
      else parse_addr s cs)"

definition ParseIP :: "bytes \<Rightarrow> bytes option" where
  "ParseIP s = parse_addr s s"

section \<open>Printing\<close>

fun dotted :: "bytes \<Rightarrow> bytes" where
  "dotted q = join_with (CHR ''.'') (map (\<lambda>c. itoa (byte c)) q)"

definition To4 :: "bytes \<Rightarrow> bytes option" where
  "To4 ip = (if length ip = 4 then Some ip
             else if length ip = 16 \<and> take 12 ip = v4InV6Prefix then Some (drop 12 ip)
             else None)"

fun groups :: "bytes \<Rightarrow> nat list" where
  "groups (a # b # r) = (256 * byte a + byte b) # groups r"
| "groups _ = []"

fun lowhex :: "nat \<Rightarrow> bytes" where
  "lowhex n = (let d = (if n mod 16 < 10 then char_of (48 + n mod 16) else char_of (87 + n mod 16))
               in if n < 16 then [d] else lowhex (n div 16) @ [d])"

declare lowhex.simps [simp del]

text \<open>The first longest run of at least two zero groups: its start and its length.\<close>

fun best_run :: "nat \<Rightarrow> nat list \<Rightarrow> nat \<times> nat \<Rightarrow> nat \<times> nat" where
  "best_run i [] best = best"
| "best_run i (g # gs) (z, l) =
     (let r = length (takeWhile (\<lambda>x. x = 0) (g # gs)) in
      best_run (Suc i) gs (if 2 \<le> r \<and> l < r then (i, r) else (z, l)))"

definition string6 :: "bytes \<Rightarrow> bytes" where
  "string6 ip =
     (let gs = groups ip; (z, l) = best_run 0 gs (0, 0); show = (\<lambda>g. join_with (CHR '':'') (map lowhex g))
      in if l = 0 then show gs else show (take z gs) @ ''::'' @ show (drop (z + l) gs))"

definition IP_String :: "bytes \<Rightarrow> bytes" where
  "IP_String ip =
     (if ip = [] then ''<nil>''
      else if length ip \<noteq> 4 \<and> length ip \<noteq> 16
        then CHR ''?'' # concat (map (\<lambda>c. [if byte c div 16 < 10 then char_of (48 + byte c div 16) else char_of (87 + byte c div 16),
             if byte c mod 16 < 10 then char_of (48 + byte c mod 16) else char_of (87 + byte c mod 16)]) ip)
      else (case To4 ip of Some q \<Rightarrow> dotted q | None \<Rightarrow> string6 ip))"

section \<open>A printed IPv4 address is read back\<close>

lemma byte_lt_256 [simp]: "byte c < 256"
  using of_char_mod_256 [of c] by (metis mod_less_divisor zero_less_numeral)

lemma itoa_lt_10: "n < 10 \<Longrightarrow> itoa n = [char_of (48 + n)]"
  by (simp add: itoa.simps)

lemma is_digit_char [simp]: "d < (10::nat) \<Longrightarrow> is_digit (char_of (48 + d))"
  by (simp add: is_digit_def in_range_def)

text \<open>The digits of an octet without a leading zero are consumed.\<close>

lemma parse4_itoa:
  assumes "n < 256"
  shows "parse4_loop (itoa n @ r) 0 0 fs edge =
    parse4_loop r n (length (itoa n)) fs False"
proof -
  consider (one) "n < 10" | (two) "10 \<le> n" "n < 100" | (three) "100 \<le> n"
    by linarith
  then show ?thesis
  proof cases
    case one
    with assms show ?thesis by (simp add: itoa_lt_10)
  next
    case two
    then have "itoa n = [char_of (48 + n div 10), char_of (48 + n mod 10)]"
      by (subst itoa.simps) (simp add: itoa_lt_10)
    moreover have "n div 10 \<noteq> 0" "n div 10 < 10" "\<not> 255 < n div 10"
      using two by auto
    ultimately show ?thesis using assms by (simp add: Let_def)
  next
    case three
    then have "itoa (n div 10) = [char_of (48 + n div 100), char_of (48 + n div 10 mod 10)]"
      using assms
      by (subst itoa.simps) (simp add: itoa_lt_10 div_mult2_eq [symmetric, of n 10 10, simplified])
    then have "itoa n = [char_of (48 + n div 100), char_of (48 + n div 10 mod 10), char_of (48 + n mod 10)]"
      using three by (subst itoa.simps) simp
    moreover have "n div 100 \<noteq> 0" "n div 100 < 10" "\<not> 255 < n div 10" "\<not> 255 < n div 100"
      using three assms by auto
    moreover have "n div 100 * 10 + n div 10 mod 10 = n div 10"
      using div_mult2_eq [of n 10 10] div_mult_mod_eq [of "n div 10" 10] by simp
    ultimately show ?thesis using assms by (simp add: Let_def)
  qed
qed

lemma dot_not_digit [simp]: "\<not> is_digit (CHR ''.'')"
  by (simp add: is_digit_def in_range_def)

lemma itoa_digit_set: "c \<in> set (itoa n) \<Longrightarrow> is_digit c"
  using itoa_digits [of n] by (simp add: digits_only_def is_digit_def)

lemma parse_addr_digits:
  "\<forall>c\<in>set ds. is_digit c \<Longrightarrow> parse_addr s (ds @ CHR ''.'' # r) =
     map_option (\<lambda>q. v4InV6Prefix @ q) (parseIPv4Fields s)"
  by (induction ds) (auto simp: is_digit_def in_range_def)

lemma parseIPv4_dotted: "parseIPv4Fields (dotted [a, b, c, d]) = Some [a, b, c, d]"
  by (simp add: parseIPv4Fields_def parse4_itoa [of "byte d" "[]", simplified] parse4_itoa)

theorem ParseIP_String_v4:
  assumes "length q = 4"
  shows "ParseIP (IP_String q) = Some (v4InV6Prefix @ q)"
proof -
  obtain a b c d where q: "q = [a, b, c, d]"
    using assms by (auto simp: length_Suc_conv numeral_eq_Suc)
  have "ParseIP (dotted [a, b, c, d]) = Some (v4InV6Prefix @ [a, b, c, d])"
    using parse_addr_digits [of "itoa (byte a)" "dotted [a, b, c, d]"] parseIPv4_dotted [of a b c d]
    by (simp add: ParseIP_def itoa_digit_set)
  then show ?thesis by (simp add: q IP_String_def To4_def)
qed

text \<open>Every parsed address has 16 bytes.\<close>

lemma parse4_loop_length: "parse4_loop s v n fs e = Some qs \<Longrightarrow> length fs \<le> 3 \<Longrightarrow> length qs = 4"
  by (induction s v n fs e rule: parse4_loop.induct) (auto simp: Let_def split: if_splits)

lemma parseIPv4Fields_length: "parseIPv4Fields s = Some q \<Longrightarrow> length q = 4"
  by (auto simp: parseIPv4Fields_def dest: parse4_loop_length)

lemma parse6_loop_length:
  "parse6_loop n s ip ell = Some (ip', ell') \<Longrightarrow> length ip + 2 * n = 16 \<Longrightarrow> length ip' \<le> 16"
proof (induction n s ip ell rule: parse6_loop.induct)
  case (1 s ip ell)
  then show ?case by (auto split: if_splits)
next
  case (2 n s ip ell)
  then show ?case
    by (auto simp: Let_def split: if_splits list.splits option.splits
        dest!: parseIPv4Fields_length) 
qed

lemma expand_ellipsis_length:
  "expand_ellipsis ip ell = Some ip' \<Longrightarrow> length ip \<le> 16 \<Longrightarrow> length ip' = 16"
  by (auto simp: expand_ellipsis_def zeros_def split: option.splits if_splits)

lemma parseIPv6_length: "parseIPv6 s = Some ip \<Longrightarrow> length ip = 16"
  by (auto simp: parseIPv6_def zeros_def split: if_splits option.splits
      dest!: parse6_loop_length intro: expand_ellipsis_length)

lemma parse_addr_length: "parse_addr s t = Some ip \<Longrightarrow> length ip = 16"
  by (induction s t rule: parse_addr.induct)
     (auto simp: v4InV6Prefix_def zeros_def parseIPv6_length split: if_splits
       dest!: parseIPv4Fields_length)

lemma ParseIP_length: "ParseIP s = Some ip \<Longrightarrow> length ip = 16"
  by (simp add: ParseIP_def parse_addr_length)

end
