(* ===== verification/Ports_Types.thy ===== *)
theory Ports_Types
  imports Secrets Net_IP
begin

text \<open>
  \<open>ports/types.go\<close>: the types of the HTTP interface, their JSON forms (struct tags, the custom
  marshaller and unmarshaller of a builder with its service credentials) and the conversions
  from and to the domain.
\<close>

section \<open>Types\<close>

definition AttestationTypeHeader :: bytes where
  "AttestationTypeHeader = ''X-Flashbots-Attestation-Type''"

definition MeasurementHeader :: bytes where
  "MeasurementHeader = ''X-Flashbots-Measurement''"

definition ForwardedHeader :: bytes where
  "ForwardedHeader = ''X-Forwarded-For''"

record ServiceCred =
  C_TLSCert :: bytes
  C_ECDSAPubkey :: "bytes option"
  C_Region :: bytes

record BuilderWithServiceCreds =
  BC_IP :: bytes
  BC_DNSName :: bytes
  BC_Name :: bytes
  BC_ServiceCreds :: "(bytes, ServiceCred) gomap"

record pMeasurement =
  PM_Name :: bytes
  PM_AttestationType :: bytes
  PM_Measurements :: "(bytes, SingleMeasurement) nmap"

record pBuilder =
  PB_Name :: bytes
  PB_DNSName :: bytes
  PB_IPAddress :: bytes
  PB_Network :: bytes

section \<open>Service credentials as JSON\<close>

text \<open>An address is written as the string of its text form (\<open>MarshalText\<close>).\<close>

definition enc_cred :: "ext \<Rightarrow> ServiceCred \<Rightarrow> json" where
  "enc_cred x c = JObj
     ((if C_TLSCert c = [] then [] else [(''tls_cert'', enc_string (C_TLSCert c))]) @
      (case C_ECDSAPubkey c of None \<Rightarrow> []
       | Some a \<Rightarrow> [(''ecdsa_pubkey_address'', enc_string (eth_MarshalText x a))]) @
      (if C_Region c = [] then [] else [(''region'', enc_string (C_Region c))]))"

text \<open>\<open>Address.UnmarshalJSON\<close> gets the text of the value; \<open>null\<close> makes the pointer nil.\<close>

definition cred_fields :: "ext \<Rightarrow> ServiceCred field list" where
  "cred_fields x =
     [(''tls_cert'', \<lambda>v c. map_option (\<lambda>s. c\<lparr>C_TLSCert := s\<rparr>) (dec_string v (C_TLSCert c))),
      (''ecdsa_pubkey_address'', \<lambda>v c.
         if v = JNull then Some (c\<lparr>C_ECDSAPubkey := None\<rparr>)
         else map_option (\<lambda>a. c\<lparr>C_ECDSAPubkey := Some a\<rparr>) (eth_UnmarshalJSON x (json_print v))),
      (''region'', \<lambda>v c. map_option (\<lambda>s. c\<lparr>C_Region := s\<rparr>) (dec_string v (C_Region c)))]"

definition zero_cred :: ServiceCred where
  "zero_cred = \<lparr>C_TLSCert = [], C_ECDSAPubkey = None, C_Region = []\<rparr>"

definition dec_cred :: "ext \<Rightarrow> json \<Rightarrow> ServiceCred \<Rightarrow> ServiceCred option" where
  "dec_cred x v c = dec_struct (cred_fields x) v c"

section \<open>A builder with its credentials as JSON\<close>

text \<open>The map that is marshalled: the three known fields, then every service by its name; the
  number selects the order in which the services are ranged over.\<close>

definition creds_map :: "ext \<Rightarrow> nat \<Rightarrow> BuilderWithServiceCreds \<Rightarrow> (bytes, json) gomap" where
  "creds_map x k b =
     fold (\<lambda>p m. AList.update (fst p) (enc_cred x (snd p)) m) (permute k (BC_ServiceCreds b))
       (AList.update ''dns_name'' (enc_string (BC_DNSName b))
         (AList.update ''name'' (enc_string (BC_Name b))
           (AList.update ''ip'' (enc_string (BC_IP b)) [])))"

definition enc_builder :: "ext \<Rightarrow> nat \<Rightarrow> BuilderWithServiceCreds \<Rightarrow> json" where
  "enc_builder x k b = enc_map (creds_map x k b)"

definition BWSC_MarshalJSON :: "ext \<Rightarrow> nat \<Rightarrow> BuilderWithServiceCreds \<Rightarrow> bytes" where
  "BWSC_MarshalJSON x k b = json_print (enc_builder x k b)"

record Alias =
  A_IP :: bytes
  A_Name :: bytes
  A_DNSName :: bytes

definition alias_fields :: "Alias field list" where
  "alias_fields =
     [(''ip'', \<lambda>v a. map_option (\<lambda>s. a\<lparr>A_IP := s\<rparr>) (dec_string v (A_IP a))),
      (''name'', \<lambda>v a. map_option (\<lambda>s. a\<lparr>A_Name := s\<rparr>) (dec_string v (A_Name a))),
      (''dns_name'', \<lambda>v a. map_option (\<lambda>s. a\<lparr>A_DNSName := s\<rparr>) (dec_string v (A_DNSName a)))]"

text \<open>The loop over the remaining members.\<close>

fun decode_creds :: "ext \<Rightarrow> (bytes \<times> bytes) list \<Rightarrow> (bytes, ServiceCred) gomap
    \<Rightarrow> (bytes, ServiceCred) gomap result" where
  "decode_creds x [] m = Inr m"
| "decode_creds x ((key, rawValue) # rest) m =
     (case Unmarshal (dec_cred x) rawValue zero_cred of
        Inl e \<Rightarrow> Inl e
      | Inr serviceCred \<Rightarrow> decode_creds x rest (AList.update key serviceCred m))"

definition BWSC_UnmarshalJSON :: "ext \<Rightarrow> nat \<Rightarrow> bytes \<Rightarrow> BuilderWithServiceCreds result" where
  "BWSC_UnmarshalJSON x k data =
     (case Unmarshal (dec_struct alias_fields) data \<lparr>A_IP = [], A_Name = [], A_DNSName = []\<rparr> of
        Inl e \<Rightarrow> Inl e
      | Inr alias \<Rightarrow>
          (case Unmarshal_raw_map data of
             Inl e \<Rightarrow> Inl e
           | Inr rawMap \<Rightarrow>
               (let rest = AList.delete ''dns_name'' (AList.delete ''name'' (AList.delete ''ip'' (entries rawMap))) in
                case decode_creds x (permute k rest) [] of
                  Inl e \<Rightarrow> Inl e
                | Inr creds \<Rightarrow> Inr \<lparr>BC_IP = A_IP alias, BC_DNSName = A_DNSName alias,
                    BC_Name = A_Name alias, BC_ServiceCreds = creds\<rparr>)))"

section \<open>Conversions\<close>

definition service_cred :: "BuilderServices \<Rightarrow> ServiceCred" where
  "service_cred v = \<lparr>C_TLSCert = S_TLSCert v, C_ECDSAPubkey = S_ECDSAPubKey v, C_Region = S_Region v\<rparr>"

definition fromDomainBuilderWithServices :: "BuilderWithServices \<Rightarrow> BuilderWithServiceCreds" where
  "fromDomainBuilderWithServices builder = \<lparr>
     BC_IP = IP_String (B_IPAddress (BWS_Builder builder)),
     BC_DNSName = B_DNSName (BWS_Builder builder),
     BC_Name = B_Name (BWS_Builder builder),
     BC_ServiceCreds = fold (\<lambda>v m. AList.update (S_Service v) (service_cred v) m) (BWS_Services builder) []\<rparr>"

definition fromDomainMeasurement :: "Measurement \<Rightarrow> pMeasurement" where
  "fromDomainMeasurement measurement = \<lparr>PM_Name = M_Name measurement,
     PM_AttestationType = M_AttestationType measurement, PM_Measurements = M_Measurement measurement\<rparr>"

definition toDomainMeasurement :: "pMeasurement \<Rightarrow> Measurement" where
  "toDomainMeasurement measurement =
     NewMeasurement (PM_Name measurement) (PM_AttestationType measurement) (PM_Measurements measurement)"

definition toDomainBuilder :: "pBuilder \<Rightarrow> bool \<Rightarrow> Builder result" where
  "toDomainBuilder builder enabled =
     (case ParseIP (PB_IPAddress builder) of
        None \<Rightarrow> Inl ErrInvalidIPAddress
      | Some ip \<Rightarrow> Inr \<lparr>B_Name = PB_Name builder, B_IPAddress = ip, B_IsActive = enabled,
          B_Network = PB_Network builder, B_DNSName = PB_DNSName builder\<rparr>)"

section \<open>Measurements and builders as JSON\<close>

definition enc_measurement :: "pMeasurement \<Rightarrow> json" where
  "enc_measurement m = JObj [(''measurement_id'', enc_string (PM_Name m)),
     (''attestation_type'', enc_string (PM_AttestationType m)),
     (''measurements'', enc_singles (PM_Measurements m))]"

definition measurement_fields :: "pMeasurement field list" where
  "measurement_fields =
     [(''measurement_id'', \<lambda>v m. map_option (\<lambda>s. m\<lparr>PM_Name := s\<rparr>) (dec_string v (PM_Name m))),
      (''attestation_type'', \<lambda>v m.
         map_option (\<lambda>s. m\<lparr>PM_AttestationType := s\<rparr>) (dec_string v (PM_AttestationType m))),
      (''measurements'', \<lambda>v m.
         map_option (\<lambda>s. m\<lparr>PM_Measurements := s\<rparr>) (dec_singles v (PM_Measurements m)))]"

definition zero_measurement :: pMeasurement where
  "zero_measurement = \<lparr>PM_Name = [], PM_AttestationType = [], PM_Measurements = None\<rparr>"

definition builder_fields :: "pBuilder field list" where
  "builder_fields =
     [(''name'', \<lambda>v b. map_option (\<lambda>s. b\<lparr>PB_Name := s\<rparr>) (dec_string v (PB_Name b))),
      (''dns_name'', \<lambda>v b. map_option (\<lambda>s. b\<lparr>PB_DNSName := s\<rparr>) (dec_string v (PB_DNSName b))),
      (''ip_address'', \<lambda>v b. map_option (\<lambda>s. b\<lparr>PB_IPAddress := s\<rparr>) (dec_string v (PB_IPAddress b))),
      (''network'', \<lambda>v b. map_option (\<lambda>s. b\<lparr>PB_Network := s\<rparr>) (dec_string v (PB_Network b)))]"

definition zero_builder :: pBuilder where
  "zero_builder = \<lparr>PB_Name = [], PB_DNSName = [], PB_IPAddress = [], PB_Network = []\<rparr>"

section \<open>Round trips\<close>

subsection \<open>Struct tags\<close>

lemma unquote_ports_tags [simp]:
  "unquote ''tls_cert'' = ''tls_cert''" "unquote ''ecdsa_pubkey_address'' = ''ecdsa_pubkey_address''"
  "unquote ''region'' = ''region''" "unquote ''measurement_id'' = ''measurement_id''"
  "unquote ''attestation_type'' = ''attestation_type''" "unquote ''measurements'' = ''measurements''"
  by code_simp+

lemma str_lit_ports_tags [simp]:
  "str_lit ''tls_cert''" "str_lit ''ecdsa_pubkey_address''" "str_lit ''region''"
  "str_lit ''measurement_id''" "str_lit ''attestation_type''" "str_lit ''measurements''"
  by code_simp+

lemma utf8_known [simp]: "utf8_valid ''ip''" "utf8_valid ''name''" "utf8_valid ''dns_name''"
  by code_simp+

subsection \<open>Credentials\<close>

text \<open>The text of the credentials is UTF-8, and the address is read from its own text form.\<close>

definition cred_ok :: "ext \<Rightarrow> ServiceCred \<Rightarrow> bool" where
  "cred_ok x c \<longleftrightarrow> utf8_valid (C_TLSCert c) \<and> utf8_valid (C_Region c) \<and>
     (case C_ECDSAPubkey c of None \<Rightarrow> True
      | Some a \<Rightarrow> eth_UnmarshalJSON x (json_print (enc_string (eth_MarshalText x a))) = Some a)"

lemma find_cred_fields [simp]:
  "find_field (cred_fields x) ''tls_cert'' =
     Some (\<lambda>v c. map_option (\<lambda>s. c\<lparr>C_TLSCert := s\<rparr>) (dec_string v (C_TLSCert c)))"
  "find_field (cred_fields x) ''ecdsa_pubkey_address'' = Some (\<lambda>v c.
     if v = JNull then Some (c\<lparr>C_ECDSAPubkey := None\<rparr>)
     else map_option (\<lambda>a. c\<lparr>C_ECDSAPubkey := Some a\<rparr>) (eth_UnmarshalJSON x (json_print v)))"
  "find_field (cred_fields x) ''region'' =
     Some (\<lambda>v c. map_option (\<lambda>s. c\<lparr>C_Region := s\<rparr>) (dec_string v (C_Region c)))"
  by (simp_all add: find_field_def cred_fields_def)

lemma enc_string_neq_JNull [simp]: "enc_string s \<noteq> JNull"
  by (simp add: enc_string_def)

lemma dec_cred_enc: "cred_ok x c \<Longrightarrow> dec_cred x (enc_cred x c) zero_cred = Some c"
  by (cases c) (auto simp: cred_ok_def dec_cred_def enc_cred_def zero_cred_def split: option.splits)

lemma enc_cred_wf: "lits_ok (enc_cred x c) \<and> depth (enc_cred x c) \<le> 1"
  by (auto simp: enc_cred_def split: option.splits)

lemma Unmarshal_cred: "cred_ok x c \<Longrightarrow> Unmarshal (dec_cred x) (json_print (enc_cred x c)) zero_cred = Inr c"
  using enc_cred_wf [of x c]
  by (simp add: Unmarshal_def json_parse_print json_wf_def maxNestingDepth_def dec_cred_enc)

subsection \<open>Builders\<close>

text \<open>No service is called like a known field: the decoder matches field names up to case.\<close>

definition service_names_ok :: "BuilderWithServiceCreds \<Rightarrow> bool" where
  "service_names_ok b \<longleftrightarrow> distinct (map fst (BC_ServiceCreds b)) \<and>
     (\<forall>n\<in>set (map fst (BC_ServiceCreds b)). utf8_valid n \<and> find_field alias_fields n = None)"

definition creds_ok :: "ext \<Rightarrow> BuilderWithServiceCreds \<Rightarrow> bool" where
  "creds_ok x b \<longleftrightarrow> utf8_valid (BC_IP b) \<and> utf8_valid (BC_Name b) \<and> utf8_valid (BC_DNSName b) \<and>
     service_names_ok b \<and> (\<forall>(n, c)\<in>set (BC_ServiceCreds b). cred_ok x c)"

lemma fold_update_fresh:
  assumes "distinct (map fst (m @ map (\<lambda>(k, v). (k, g v)) l))"
  shows "fold (\<lambda>p m. AList.update (fst p) (g (snd p)) m) l m = m @ map (\<lambda>(k, v). (k, g v)) l"
  using assms
proof (induction l arbitrary: m)
  case (Cons p l)
  obtain k v where p: "p = (k, v)" by (cases p)
  with Cons.prems have "AList.update k (g v) m = m @ [(k, g v)]"
    by (intro update_new) auto
  with Cons p show ?case by (simp add: case_prod_unfold comp_def)
qed simp

definition known :: "BuilderWithServiceCreds \<Rightarrow> (bytes, json) gomap" where
  "known b = [(''ip'', enc_string (BC_IP b)), (''name'', enc_string (BC_Name b)),
     (''dns_name'', enc_string (BC_DNSName b))]"

lemma alias_names: "find_field alias_fields n = None \<Longrightarrow> n \<noteq> ''ip'' \<and> n \<noteq> ''name'' \<and> n \<noteq> ''dns_name''"
  by (auto simp: find_field_def alias_fields_def)

lemma creds_map_eq:
  assumes "service_names_ok b"
  shows "creds_map x k b = known b @ map (\<lambda>(n, c). (n, enc_cred x c)) (permute k (BC_ServiceCreds b))"
proof -
  have "distinct (map fst (known b @ map (\<lambda>(n, c). (n, enc_cred x c)) (permute k (BC_ServiceCreds b))))"
    using assms alias_names by (force simp: service_names_ok_def known_def comp_def case_prod_unfold)
  from fold_update_fresh [OF this] show ?thesis
    by (simp add: creds_map_def known_def)
qed

lemma dec_fields_filter:
  "dec_fields fs ms s = dec_fields fs (filter (\<lambda>(k, v). find_field fs (unquote k) \<noteq> None) ms) s"
  by (induction ms arbitrary: s) (auto split: option.splits)

lemma filter_quote:
  assumes "\<forall>(k, v)\<in>set l. utf8_valid k"
  shows "filter (\<lambda>(k, v). P (unquote k)) (map (\<lambda>(k, v). (quote_body k, v)) l) =
    map (\<lambda>(k, v). (quote_body k, v)) (filter (\<lambda>(k, v). P k) l)"
  using assms by (induction l) (auto simp: unquote_quote)

lemma sort_known:
  "sort_key fst (known b) = [(''dns_name'', enc_string (BC_DNSName b)), (''ip'', enc_string (BC_IP b)),
     (''name'', enc_string (BC_Name b))]"
  by (simp add: known_def less_eq_char_def less_char_def)

lemma known_fields [simp]:
  "find_field alias_fields ''ip'' = Some (\<lambda>v a. map_option (\<lambda>s. a\<lparr>A_IP := s\<rparr>) (dec_string v (A_IP a)))"
  "find_field alias_fields ''name'' = Some (\<lambda>v a. map_option (\<lambda>s. a\<lparr>A_Name := s\<rparr>) (dec_string v (A_Name a)))"
  "find_field alias_fields ''dns_name'' =
     Some (\<lambda>v a. map_option (\<lambda>s. a\<lparr>A_DNSName := s\<rparr>) (dec_string v (A_DNSName a)))"
  by (simp_all add: find_field_def alias_fields_def)

text \<open>The members of the document: the known fields and the services, in key order.\<close>

definition members :: "ext \<Rightarrow> nat \<Rightarrow> BuilderWithServiceCreds \<Rightarrow> (bytes, json) gomap" where
  "members x k b = sort_key fst (creds_map x k b)"

lemma enc_builder_members: "enc_builder x k b = JObj (map (\<lambda>(n, v). (quote_body n, v)) (members x k b))"
  by (simp add: enc_builder_def enc_map_def members_def)

lemma members_split:
  assumes "service_names_ok b"
  shows "filter (\<lambda>(n, v). find_field alias_fields n \<noteq> None) (members x k b) = sort_key fst (known b)"
    "filter (\<lambda>(n, v). find_field alias_fields n = None) (members x k b) =
       sort_key fst (map (\<lambda>(n, c). (n, enc_cred x c)) (permute k (BC_ServiceCreds b)))"
proof -
  let ?cs = "map (\<lambda>(n, c). (n, enc_cred x c)) (permute k (BC_ServiceCreds b))"
  have svc: "\<forall>(n, v)\<in>set ?cs. find_field alias_fields n = None"
    using assms by (auto simp: service_names_ok_def)
  have "filter (\<lambda>(n, v). find_field alias_fields n \<noteq> None) (creds_map x k b) = known b"
    unfolding creds_map_eq [OF assms] using svc by (auto simp: known_def filter_empty_conv)
  then show "filter (\<lambda>(n, v). find_field alias_fields n \<noteq> None) (members x k b) = sort_key fst (known b)"
    by (simp only: members_def filter_sort)
  have "filter (\<lambda>(n, v). find_field alias_fields n = None) (creds_map x k b) = ?cs"
    unfolding creds_map_eq [OF assms] using svc by (auto simp: known_def filter_id_conv)
  then show "filter (\<lambda>(n, v). find_field alias_fields n = None) (members x k b) = sort_key fst ?cs"
    by (simp only: members_def filter_sort)
qed

lemma members_facts:
  assumes "creds_ok x b"
  shows "distinct (map fst (members x k b))"
    "\<forall>(n, v)\<in>set (members x k b). utf8_valid n \<and> lits_ok v \<and> depth v \<le> 1"
proof -
  have ok: "service_names_ok b" using assms by (simp add: creds_ok_def)
  have cm: "creds_map x k b = known b @ map (\<lambda>(n, c). (n, enc_cred x c)) (permute k (BC_ServiceCreds b))"
    by (rule creds_map_eq [OF ok])
  have "distinct (map fst (creds_map x k b))"
    unfolding cm using ok alias_names by (force simp: service_names_ok_def known_def comp_def case_prod_unfold)
  then show "distinct (map fst (members x k b))"
    by (metis members_def mset_map mset_sort mset_eq_imp_distinct_iff)
  show "\<forall>(n, v)\<in>set (members x k b). utf8_valid n \<and> lits_ok v \<and> depth v \<le> 1"
  proof -
    have "set (members x k b) = set (creds_map x k b)" by (simp add: members_def)
    moreover have "\<forall>(n, v)\<in>set (creds_map x k b). utf8_valid n \<and> lits_ok v \<and> depth v \<le> 1"
      unfolding cm using assms ok enc_cred_wf by (auto simp: known_def creds_ok_def service_names_ok_def)
    ultimately show ?thesis by simp
  qed
qed

lemma enc_builder_wf:
  assumes "creds_ok x b"
  shows "json_wf (enc_builder x k b)"
proof -
  note f = members_facts [OF assms, of k]
  have "fold max (map (\<lambda>(k, v). depth v) (map (\<lambda>(n, v). (quote_body n, v)) (members x k b))) 0 \<le> 1"
    using f(2) by (auto simp: fold_max_le)
  then have "depth (enc_builder x k b) \<le> 2" by (simp add: enc_builder_members)
  moreover have "lits_ok (enc_builder x k b)" using f(2) by (auto simp: enc_builder_members)
  ultimately show ?thesis by (simp add: json_wf_def maxNestingDepth_def)
qed

lemma alias_decoded:
  assumes "creds_ok x b"
  shows "dec_struct alias_fields (enc_builder x k b) \<lparr>A_IP = [], A_Name = [], A_DNSName = []\<rparr> =
    Some \<lparr>A_IP = BC_IP b, A_Name = BC_Name b, A_DNSName = BC_DNSName b\<rparr>"
proof -
  have ok: "service_names_ok b" using assms by (simp add: creds_ok_def)
  have "\<forall>(n, v)\<in>set (members x k b). utf8_valid n" using members_facts [OF assms] by blast
  from filter_quote [OF this, of "\<lambda>n. find_field alias_fields n \<noteq> None"] members_split(1) [OF ok, of x k]
  have "filter (\<lambda>(n, v). find_field alias_fields (unquote n) \<noteq> None)
      (map (\<lambda>(n, v). (quote_body n, v)) (members x k b)) = map (\<lambda>(n, v). (quote_body n, v)) (sort_key fst (known b))"
    by (simp only:)
  then show ?thesis
    unfolding enc_builder_members dec_struct.simps dec_fields_filter [of alias_fields "map _ _"]
    using assms by (simp add: sort_known unquote_quote creds_ok_def)
qed

lemma fold_update_self:
  "distinct (map fst l) \<Longrightarrow> fold (\<lambda>p m. AList.update (fst p) (snd p) m) l [] = l"
  using fold_update_fresh [of "[]" "\<lambda>v. v" l] by (simp add: comp_def case_prod_unfold)

lemma raw_members_decoded:
  assumes "creds_ok x b"
  shows "Unmarshal_raw_map (json_print (enc_builder x k b)) =
    Inr (Some (map (\<lambda>(n, v). (n, json_print v)) (members x k b)))"
proof -
  note f = members_facts [OF assms, of k]
  let ?l = "map (\<lambda>(n, v). (n, json_print v)) (members x k b)"
  have eq: "map (\<lambda>(n, v). (unquote n, json_print v)) (map (\<lambda>(n, v). (quote_body n, v)) (members x k b)) = ?l"
    using f(2) by (auto simp: unquote_quote)
  have "fold (\<lambda>p m. AList.update (fst p) (snd p) m) ?l [] = ?l"
    by (rule fold_update_self) (use f(1) in \<open>simp add: comp_def case_prod_unfold\<close>)
  with Unmarshal_raw_map_print [OF enc_builder_wf [OF assms, of k, unfolded enc_builder_members], unfolded eq]
  show ?thesis unfolding enc_builder_members by (simp only:)
qed

lemma decode_creds_all:
  assumes "\<forall>(n, raw)\<in>set l. Unmarshal (dec_cred x) raw zero_cred = Inr (g n)"
  shows "decode_creds x l m = Inr (fold (\<lambda>p m. AList.update (fst p) (snd p) m) (map (\<lambda>(n, raw). (n, g n)) l) m)"
  using assms by (induction l arbitrary: m) auto

lemma delete_known:
  "AList.delete ''dns_name'' (AList.delete ''name'' (AList.delete ''ip'' m)) =
     filter (\<lambda>p. fst p \<noteq> ''ip'' \<and> fst p \<noteq> ''name'' \<and> fst p \<noteq> ''dns_name'') m"
  by (induction m) (auto simp: AList.delete_eq)

lemma rest_members:
  assumes "service_names_ok b"
  shows "AList.delete ''dns_name'' (AList.delete ''name'' (AList.delete ''ip''
      (map (\<lambda>(n, v). (n, json_print v)) (members x k b)))) =
    map (\<lambda>(n, c). (n, json_print (enc_cred x c))) (sort_key fst (permute k (BC_ServiceCreds b)))"
proof -
  have mem: "set (members x k b) = set (creds_map x k b)" by (simp add: members_def)
  have names: "fst p \<noteq> ''ip'' \<and> fst p \<noteq> ''name'' \<and> fst p \<noteq> ''dns_name'' \<longleftrightarrow> find_field alias_fields (fst p) = None"
    if "p \<in> set (members x k b)" for p
  proof
    show "find_field alias_fields (fst p) = None"
      if "fst p \<noteq> ''ip'' \<and> fst p \<noteq> ''name'' \<and> fst p \<noteq> ''dns_name''"
      using \<open>p \<in> set (members x k b)\<close> that assms
      unfolding mem creds_map_eq [OF assms] by (auto simp: known_def service_names_ok_def)
  qed (rule alias_names)
  have "filter (\<lambda>p. fst p \<noteq> ''ip'' \<and> fst p \<noteq> ''name'' \<and> fst p \<noteq> ''dns_name'') (members x k b) =
      filter (\<lambda>(n, v). find_field alias_fields n = None) (members x k b)"
    by (rule filter_cong [OF refl]) (use names in \<open>auto simp: case_prod_unfold\<close>)
  also have "\<dots> = map (\<lambda>(n, c). (n, enc_cred x c)) (sort_key fst (permute k (BC_ServiceCreds b)))"
    unfolding members_split(2) [OF assms] by (rule sort_key_map_snd)
  finally show ?thesis
    unfolding delete_known by (simp add: filter_map comp_def case_prod_unfold)
qed

text \<open>C38: A builder with its service credentials that is marshalled and unmarshalled is the same
  builder, for every iteration order of the maps involved, when its text is UTF-8, its addresses
  survive their own text form, and no service name matches a known field up to case.\<close>

theorem BWSC_roundtrip:
  assumes "creds_ok x b"
  shows "\<exists>b'. BWSC_UnmarshalJSON x k' (BWSC_MarshalJSON x k b) = Inr b' \<and> BC_IP b' = BC_IP b \<and>
    BC_Name b' = BC_Name b \<and> BC_DNSName b' = BC_DNSName b \<and>
    map_of (BC_ServiceCreds b') = map_of (BC_ServiceCreds b)"
proof -
  have ok: "service_names_ok b" using assms by (simp add: creds_ok_def)
  define S where "S = sort_key fst (permute k (BC_ServiceCreds b))"
  have mS: "mset S = mset (BC_ServiceCreds b)" by (simp add: S_def)
  have dB: "distinct (map fst (BC_ServiceCreds b))" using ok by (simp add: service_names_ok_def)
  have cred: "cred_ok x c \<and> the (map_of (BC_ServiceCreds b) n) = c" if "(n, c) \<in> set S" for n c
    using that assms dB mset_eq_setD [OF mS] by (auto simp: creds_ok_def)
  define R where "R = permute k' (map (\<lambda>(n, c). (n, json_print (enc_cred x c))) S)"
  define g where "g = (\<lambda>n. the (map_of (BC_ServiceCreds b) n))"
  have "\<forall>(n, raw)\<in>set R. Unmarshal (dec_cred x) raw zero_cred = Inr (g n)"
    using cred by (auto simp: R_def g_def Unmarshal_cred)
  note dec = decode_creds_all [OF this, of "[]"]
  let ?l = "map (\<lambda>(n, raw). (n, g n)) R"
  have "mset ?l = image_mset (\<lambda>p. (fst p, g (fst p))) (mset (map (\<lambda>(n, c). (n, json_print (enc_cred x c))) S))"
    unfolding R_def by (simp add: case_prod_unfold)
  also have "\<dots> = image_mset (\<lambda>p. (fst p, g (fst p))) (mset S)"
    by (simp add: image_mset.compositionality comp_def case_prod_unfold)
  also have "\<dots> = image_mset id (mset S)"
    by (rule image_mset_cong) (use cred in \<open>force simp: g_def\<close>)
  finally have l: "mset ?l = mset (BC_ServiceCreds b)" by (simp add: mS)
  have "map_of (fold (\<lambda>p m. AList.update (fst p) (snd p) m) ?l []) = map_of (rev ?l)"
    by (simp add: fold_update_map_of)
  also have "\<dots> = map_of (BC_ServiceCreds b)"
    by (rule map_of_mset_eq [symmetric]) (use l dB in simp_all)
  finally have creds: "map_of (fold (\<lambda>p m. AList.update (fst p) (snd p) m) ?l []) = map_of (BC_ServiceCreds b)" .
  have "Unmarshal (dec_struct alias_fields) (BWSC_MarshalJSON x k b) \<lparr>A_IP = [], A_Name = [], A_DNSName = []\<rparr> =
      Inr \<lparr>A_IP = BC_IP b, A_Name = BC_Name b, A_DNSName = BC_DNSName b\<rparr>"
    by (simp add: Unmarshal_def BWSC_MarshalJSON_def json_parse_print enc_builder_wf [OF assms]
        alias_decoded [OF assms])
  moreover have "Unmarshal_raw_map (BWSC_MarshalJSON x k b) = Inr (Some (map (\<lambda>(n, v). (n, json_print v)) (members x k b)))"
    unfolding BWSC_MarshalJSON_def by (rule raw_members_decoded [OF assms])
  ultimately show ?thesis
    using dec creds by (simp add: BWSC_UnmarshalJSON_def rest_members [OF ok] Let_def S_def R_def)
qed

definition sample_creds :: BuilderWithServiceCreds where
  "sample_creds = \<lparr>BC_IP = ''10.0.0.7'', BC_DNSName = ''a.example'', BC_Name = ''alpha'',
     BC_ServiceCreds = [(''rbuilder'', \<lparr>C_TLSCert = ''cert'', C_ECDSAPubkey = None, C_Region = ''eu''\<rparr>),
       (''of-proxy'', \<lparr>C_TLSCert = [], C_ECDSAPubkey = Some ''addr'', C_Region = []\<rparr>)]\<rparr>"

definition quoting_ext :: ext where
  "quoting_ext = sample_ext\<lparr>eth_UnmarshalJSON := \<lambda>s. Some (butlast (drop 1 s))\<rparr>"

theorem BWSC_roundtrip_witness:
  "\<exists>b'. BWSC_UnmarshalJSON quoting_ext 1 (BWSC_MarshalJSON quoting_ext 0 sample_creds) = Inr b' \<and>
     BC_Name b' = ''alpha'' \<and> map_of (BC_ServiceCreds b') ''of-proxy'' =
       Some \<lparr>C_TLSCert = [], C_ECDSAPubkey = Some ''addr'', C_Region = []\<rparr>"
proof -
  have "creds_ok quoting_ext sample_creds" by code_simp
  from BWSC_roundtrip [OF this, of 1 0] show ?thesis by (auto simp: sample_creds_def)
qed

lemma update_mem: "p \<in> set (AList.update k v m) \<Longrightarrow> p = (k, v) \<or> p \<in> set m"
  by (induction m) (auto split: if_splits)

lemma update_mem_other: "n \<noteq> k \<Longrightarrow> (n, c) \<in> set (AList.update k v m) \<longleftrightarrow> (n, c) \<in> set m"
  by (induction m) auto

lemma update_mem_same: "(k, v) \<in> set (AList.update k v m)"
  by (induction m) auto

lemma fold_update_mem:
  assumes "(n, c) \<in> set l" "distinct (map fst l)"
  shows "(n, g c) \<in> set (fold (\<lambda>p m. AList.update (fst p) (g (snd p)) m) l m)"
  using assms
proof (induction l rule: rev_induct)
  case (snoc p l)
  obtain k v where p: "p = (k, v)" by (cases p)
  show ?case
  proof (cases "(n, c) \<in> set l")
    case True
    with snoc.prems p have "n \<noteq> k" by force
    with snoc True p show ?thesis by (auto simp: update_mem_other)
  next
    case False
    with snoc p show ?thesis by (auto simp: update_mem_same)
  qed
qed simp

text \<open>Every value of the document is printable, whatever the text of the builder is.\<close>

lemma creds_map_values: "\<forall>(n, v)\<in>set (creds_map x k b). lits_ok v \<and> depth v \<le> 1"
proof -
  have "\<forall>(n, v)\<in>set (fold (\<lambda>p m. AList.update (fst p) (enc_cred x (snd p)) m) l m). lits_ok v \<and> depth v \<le> 1"
    if "\<forall>(n, v)\<in>set m. lits_ok v \<and> depth v \<le> 1" for l :: "(bytes \<times> ServiceCred) list" and m
    using that
  proof (induction l arbitrary: m)
    case (Cons p l)
    have "\<forall>(n, v)\<in>set (AList.update (fst p) (enc_cred x (snd p)) m). lits_ok v \<and> depth v \<le> 1"
      using Cons.prems enc_cred_wf by (auto dest: update_mem)
    then show ?case using Cons.IH by simp
  qed simp
  note keeps = this
  show ?thesis unfolding creds_map_def by (rule keeps) simp
qed

lemma enc_builder_lits: "json_wf (enc_builder x k b)"
proof -
  have v: "\<forall>(n, v)\<in>set (members x k b). lits_ok v \<and> depth v \<le> 1"
    using creds_map_values [of x k b] by (simp add: members_def)
  then have "fold max (map (\<lambda>(k, v). depth v) (map (\<lambda>(n, v). (quote_body n, v)) (members x k b))) 0 \<le> 1"
    by (auto simp: fold_max_le)
  then have "depth (enc_builder x k b) \<le> 2" by (simp add: enc_builder_members)
  moreover have "lits_ok (enc_builder x k b)" using v by (auto simp: enc_builder_members)
  ultimately show ?thesis by (simp add: json_wf_def maxNestingDepth_def)
qed

lemma dec_fields_rejects:
  assumes "(k, v) \<in> set ms" "find_field fs (unquote k) = Some d" "\<forall>s. d v s = None"
  shows "dec_fields fs ms s = None"
  using assms by (induction ms arbitrary: s) (auto split: option.splits)

lemma find_field_mem: "find_field fs n = Some d \<Longrightarrow> \<exists>m. (m, d) \<in> set fs"
  by (fastforce simp: find_field_def split: option.splits dest: map_of_SomeD)

lemma alias_field_object: "find_field alias_fields n = Some d \<Longrightarrow> d (JObj ms) a = None"
  by (drule find_field_mem) (auto simp: alias_fields_def)

text \<open>C39: A service called like a known field up to case breaks the JSON form of its builder:
  the document of a builder with a service whose name the decoder takes for the address, the
  name or the DNS name cannot be unmarshalled.\<close>

theorem BWSC_reserved_service:
  assumes "(n, c) \<in> set (BC_ServiceCreds b)" "distinct (map fst (BC_ServiceCreds b))"
    and "utf8_valid n" "find_field alias_fields n \<noteq> None"
  shows "\<exists>e. BWSC_UnmarshalJSON x k' (BWSC_MarshalJSON x k b) = Inl e"
proof -
  have "(n, enc_cred x c) \<in> set (creds_map x k b)"
    unfolding creds_map_def
    by (rule fold_update_mem) (use assms in simp_all)
  then have mem: "(quote_body n, enc_cred x c) \<in> set (map (\<lambda>(n, v). (quote_body n, v)) (members x k b))"
    by (force simp: members_def)
  obtain d where d: "find_field alias_fields n = Some d" using assms(4) by blast
  have "dec_struct alias_fields (enc_builder x k b) a = None" for a
    unfolding enc_builder_members dec_struct.simps
    by (rule dec_fields_rejects [OF mem]) (use d assms(3) alias_field_object in \<open>auto simp: unquote_quote enc_cred_def\<close>)
  then show ?thesis
    by (simp add: BWSC_UnmarshalJSON_def Unmarshal_def BWSC_MarshalJSON_def json_parse_print enc_builder_lits)
qed

theorem BWSC_reserved_service_witness:
  "\<exists>e. BWSC_UnmarshalJSON sample_ext 1 (BWSC_MarshalJSON sample_ext 0
     (sample_creds\<lparr>BC_ServiceCreds := [(''Name'', zero_cred)]\<rparr>)) = Inl e"
proof -
  have "utf8_valid ''Name''" "find_field alias_fields ''Name'' \<noteq> None" by code_simp+
  then show ?thesis by (intro BWSC_reserved_service [of "''Name''" zero_cred]) simp_all
qed

end
