(* ===== verification/Http.thy ===== *)
theory Http
  imports Ports_Types
begin

text \<open>
  The part of \<open>net/http\<close> and of the router's request context that the handlers use: requests
  with their headers, path parameters and body, the response writer, and handlers as functions
  on the state behind them; \<open>ports/handler.go\<close> with its \<open>BadRequest\<close>.

  A handler gets a request, the response written so far and the state, and gives the response,
  a panic if there is one, and the state. What the handlers log is not modelled.
\<close>

section \<open>Requests\<close>

text \<open>Header names are canonical, as the server stores them. Reading the body gives the bytes
  \<open>rq_Body\<close> and then the end of the body or, with \<open>rq_ReadFails\<close>, an error. \<open>rq_Seed\<close> selects
  the iteration orders of the maps ranged over while the request is handled.\<close>

record request =
  rq_Method :: bytes
  rq_Path :: bytes
  rq_Header :: "(bytes, bytes list) gomap"
  rq_Params :: "(bytes, bytes) gomap"
  rq_Body :: bytes
  rq_ReadFails :: bool
  rq_Seed :: nat

definition Header_Get :: "request \<Rightarrow> bytes \<Rightarrow> bytes" where
  "Header_Get r k = (case map_of (rq_Header r) k of Some (v # vs) \<Rightarrow> v | _ \<Rightarrow> [])"

definition Header_Values :: "request \<Rightarrow> bytes \<Rightarrow> bytes list" where
  "Header_Values r k = (case map_of (rq_Header r) k of Some vs \<Rightarrow> vs | None \<Rightarrow> [])"

definition URLParam :: "request \<Rightarrow> bytes \<Rightarrow> bytes" where
  "URLParam r k = (case map_of (rq_Params r) k of Some v \<Rightarrow> v | None \<Rightarrow> [])"

definition ReadAll :: "request \<Rightarrow> bytes result" where
  "ReadAll r = (if rq_ReadFails r then Inl ErrRead else Inr (rq_Body r))"

text \<open>\<open>json.NewDecoder(r.Body).Decode\<close>: the first value of the body. An object or an array is
  complete with its closing bracket; any other value only with the byte after it or the end of
  the body, which a failing read does not give.\<close>

fun is_container :: "json \<Rightarrow> bool" where
  "is_container (JObj ms) = True"
| "is_container (JArr vs) = True"
| "is_container _ = False"

definition unterminated :: "request \<Rightarrow> bool" where
  "unterminated r \<longleftrightarrow> rq_ReadFails r \<and> rq_Body r \<noteq> [] \<and> \<not> is_ws (last (rq_Body r)) \<and>
     (case json_parse (rq_Body r) of None \<Rightarrow> False | Some v \<Rightarrow> \<not> is_container v)"

definition Decode_body :: "(json \<Rightarrow> 'a \<Rightarrow> 'a option) \<Rightarrow> request \<Rightarrow> 'a \<Rightarrow> 'a result" where
  "Decode_body d r old = (if unterminated r then Inl ErrRead else Decode d (rq_Body r) old)"

section \<open>Responses\<close>

text \<open>The status is open until \<open>WriteHeader\<close> or the first \<open>Write\<close>; a later \<open>WriteHeader\<close> has
  no effect. A response that stays open is sent with status 200.\<close>

record response =
  rs_Status :: "nat option"
  rs_Header :: "(bytes, bytes) gomap"
  rs_Body :: bytes

definition NewResponse :: response where
  "NewResponse = \<lparr>rs_Status = None, rs_Header = [], rs_Body = []\<rparr>"

definition WriteHeader :: "nat \<Rightarrow> response \<Rightarrow> response" where
  "WriteHeader code w = (case rs_Status w of None \<Rightarrow> w\<lparr>rs_Status := Some code\<rparr> | Some _ \<Rightarrow> w)"

definition Write :: "bytes \<Rightarrow> response \<Rightarrow> response" where
  "Write b w = (let w' = WriteHeader 200 w in w'\<lparr>rs_Body := rs_Body w' @ b\<rparr>)"

definition Header_Set :: "bytes \<Rightarrow> bytes \<Rightarrow> response \<Rightarrow> response" where
  "Header_Set k v w = w\<lparr>rs_Header := AList.update k v (rs_Header w)\<rparr>"

definition sent_status :: "response \<Rightarrow> nat" where
  "sent_status w = (case rs_Status w of None \<Rightarrow> 200 | Some c \<Rightarrow> c)"

definition StatusOK :: nat where "StatusOK = 200"
definition StatusBadRequest :: nat where "StatusBadRequest = 400"
definition StatusUnauthorized :: nat where "StatusUnauthorized = 401"
definition StatusForbidden :: nat where "StatusForbidden = 403"
definition StatusNotFound :: nat where "StatusNotFound = 404"
definition StatusMethodNotAllowed :: nat where "StatusMethodNotAllowed = 405"
definition StatusInternalServerError :: nat where "StatusInternalServerError = 500"
definition StatusServiceUnavailable :: nat where "StatusServiceUnavailable = 503"

lemmas status_defs [simp] = StatusOK_def StatusBadRequest_def StatusUnauthorized_def StatusForbidden_def
  StatusNotFound_def StatusMethodNotAllowed_def StatusInternalServerError_def StatusServiceUnavailable_def

type_synonym 'st reply = "response \<times> string option \<times> 'st"
type_synonym 'st Handler = "request \<Rightarrow> response \<Rightarrow> 'st \<Rightarrow> 'st reply"

abbreviation replies :: "response \<Rightarrow> 'st \<Rightarrow> 'st reply" where
  "replies w h \<equiv> (w, None, h)"

abbreviation panics :: "string \<Rightarrow> response \<Rightarrow> 'st \<Rightarrow> 'st reply" where
  "panics p w h \<equiv> (w, Some p, h)"

section \<open>Bad requests (ports/handler.go)\<close>

record badRequestParams =
  BR_Message :: bytes
  BR_Error :: bytes

definition enc_badRequest :: "badRequestParams \<Rightarrow> json" where
  "enc_badRequest p = JObj ((''message'', enc_string (BR_Message p)) #
     (if BR_Error p = [] then [] else [(''error'', enc_string (BR_Error p))]))"

definition Encode :: "json \<Rightarrow> response \<Rightarrow> response" where
  "Encode v w = Write (json_print v @ [CHR 0x0A]) w"

definition BadRequest :: "ext \<Rightarrow> response \<Rightarrow> bytes \<Rightarrow> go_error list \<Rightarrow> response" where
  "BadRequest x w msg errs =
     (let w = WriteHeader StatusBadRequest w in
      case errs of
        [] \<Rightarrow> Encode (enc_badRequest \<lparr>BR_Message = msg, BR_Error = []\<rparr>) w
      | e # _ \<Rightarrow> Encode (enc_badRequest \<lparr>BR_Message = msg, BR_Error = error_Error x e\<rparr>) w)"

lemma rs_Status_simps [simp]:
  "rs_Status w = None \<Longrightarrow> rs_Status (WriteHeader c w) = Some c"
  "rs_Status w = Some c' \<Longrightarrow> WriteHeader c w = w"
  "rs_Status w = None \<Longrightarrow> rs_Status (Write b w) = Some 200"
  "rs_Status w = Some c' \<Longrightarrow> rs_Status (Write b w) = Some c'"
  "rs_Body (WriteHeader c w) = rs_Body w"
  "rs_Body (Write b w) = rs_Body w @ b"
  "rs_Status NewResponse = None" "rs_Body NewResponse = []"
  by (auto simp: WriteHeader_def Write_def NewResponse_def Let_def split: option.splits)

lemma sent_status_simps [simp]:
  "rs_Status w = None \<Longrightarrow> sent_status w = 200"
  "rs_Status w = Some c \<Longrightarrow> sent_status w = c"
  by (simp_all add: sent_status_def)

lemma BadRequest_status [simp]:
  "rs_Status w = None \<Longrightarrow> rs_Status (BadRequest x w msg errs) = Some 400"
  by (simp add: BadRequest_def Encode_def Let_def split: list.splits)

end
