(* ===== verification/Hub_Handler.thy ===== *)
theory Hub_Handler
  imports Http
begin

text \<open>
  \<open>ports/http_handler.go\<close>: the interface \<open>BuilderHubService\<close> as a record of operations, the
  authentication data of a request, and the six handlers. The contract of the service is a
  locale, in which the handlers are proved to serve authenticated builders only; the hub on the
  database service interprets it.
\<close>

section \<open>The service interface\<close>

text \<open>The number that \<open>VerifyIPAndMeasurements\<close> takes selects the iteration order of its maps.\<close>

record 'h BuilderHubService =
  bh_GetAllowedMeasurements :: "'h \<Rightarrow> Measurement list result \<times> 'h"
  bh_GetActiveBuilders :: "bytes \<Rightarrow> 'h \<Rightarrow> BuilderWithServices list result \<times> 'h"
  bh_VerifyIPAndMeasurements :: "nat \<Rightarrow> bytes \<Rightarrow> (bytes, bytes) gomap \<Rightarrow> bytes \<Rightarrow> 'h
    \<Rightarrow> (Builder \<times> bytes) result \<times> 'h"
  bh_GetConfigWithSecrets :: "bytes \<Rightarrow> 'h \<Rightarrow> bytes result outcome \<times> 'h"
  bh_RegisterCredentialsForBuilder ::
    "bytes \<Rightarrow> bytes \<Rightarrow> bytes \<Rightarrow> bytes \<Rightarrow> bytes \<Rightarrow> bytes \<Rightarrow> bytes \<Rightarrow> 'h \<Rightarrow> go_error option \<times> 'h"
  bh_LogEvent :: "bytes \<Rightarrow> bytes \<Rightarrow> bytes \<Rightarrow> 'h \<Rightarrow> go_error option \<times> 'h"

record 'h BuilderHubHandler =
  builderHubService :: "'h BuilderHubService"

definition NewBuilderHubHandler :: "'h BuilderHubService \<Rightarrow> 'h BuilderHubHandler" where
  "NewBuilderHubHandler svc = \<lparr>builderHubService = svc\<rparr>"

section \<open>Authentication data\<close>

record AuthData =
  AD_AttestationType :: bytes
  AD_MeasurementData :: "(bytes, bytes) gomap"
  AD_IP :: bytes

definition getAuthData :: "request \<Rightarrow> AuthData result" where
  "getAuthData r =
     (let attestationType = Header_Get r AttestationTypeHeader in
      if attestationType = [] then Inl (Wrap ''attestation type is empty'' ErrInvalidAuthData)
      else
        (case Unmarshal (dec_map (\<lambda>v. dec_string v [])) (Header_Get r MeasurementHeader) (Some []) of
           Inl _ \<Rightarrow> Inl (Wrap ''failed to unmarshal measurement header'' ErrInvalidAuthData)
         | Inr measurementData \<Rightarrow>
             (let ipHeaders = Header_Values r ForwardedHeader in
              if length ipHeaders = 0 then Inl (Wrap ''ip header is empty'' ErrInvalidAuthData)
              else
                (let ipHeader = TrimSpace (last (split_on (CHR '','') (last ipHeaders))) in
                 case ParseIP ipHeader of
                   None \<Rightarrow> Inl (Wrap ''failed to parse ip'' ErrInvalidAuthData)
                 | Some ip \<Rightarrow> Inr \<lparr>AD_AttestationType = attestationType,
                     AD_MeasurementData = entries measurementData, AD_IP = ip\<rparr>))))"

section \<open>Handlers\<close>

text \<open>\<open>json.Marshal\<close> of the two kinds of list cannot fail: their values are strings, maps with
  string keys and addresses. An error of \<open>w.Write\<close> is only logged.\<close>

definition h_GetAllowedMeasurements :: "'h BuilderHubHandler \<Rightarrow> 'h Handler" where
  "h_GetAllowedMeasurements bhs r w h =
     (case ReadAll r of
        Inl e \<Rightarrow> replies (WriteHeader StatusInternalServerError w) h
      | Inr _ \<Rightarrow>
          (case bh_GetAllowedMeasurements (builderHubService bhs) h of
             (Inl e, h1) \<Rightarrow> replies (WriteHeader StatusInternalServerError w) h1
           | (Inr measurements, h1) \<Rightarrow>
               (let pMeasurements = map fromDomainMeasurement measurements in
                replies (Write (json_print (JArr (map enc_measurement pMeasurements))) w) h1)))"

text \<open>The end of the three listings: fetch the builders of a network and write them.\<close>

definition write_builders :: "ext \<Rightarrow> 'h BuilderHubHandler \<Rightarrow> bytes \<Rightarrow> 'h Handler" where
  "write_builders x bhs network r w h =
     (case bh_GetActiveBuilders (builderHubService bhs) network h of
        (Inl e, h1) \<Rightarrow> replies (WriteHeader StatusInternalServerError w) h1
      | (Inr bs, h1) \<Rightarrow>
          (let pBuilders = map fromDomainBuilderWithServices bs in
           replies (Write (json_print (JArr (map (enc_builder x (rq_Seed r)) pBuilders))) w) h1))"

definition h_GetActiveBuilders :: "ext \<Rightarrow> 'h BuilderHubHandler \<Rightarrow> 'h Handler" where
  "h_GetActiveBuilders x bhs r w h =
     (case getAuthData r of
        Inl e \<Rightarrow> replies (WriteHeader StatusForbidden w) h
      | Inr authData \<Rightarrow>
          (case bh_VerifyIPAndMeasurements (builderHubService bhs) (rq_Seed r) (AD_IP authData)
              (AD_MeasurementData authData) (AD_AttestationType authData) h of
             (Inl e, h1) \<Rightarrow>
               if errors_Is e ErrNotFound then replies (WriteHeader StatusForbidden w) h1
               else replies (WriteHeader StatusInternalServerError w) h1
           | (Inr (builder, _), h1) \<Rightarrow> write_builders x bhs (B_Network builder) r w h1))"

definition h_GetActiveBuildersNoAuth :: "ext \<Rightarrow> 'h BuilderHubHandler \<Rightarrow> 'h Handler" where
  "h_GetActiveBuildersNoAuth x bhs r w h = write_builders x bhs ProductionNetwork r w h"

definition h_GetActiveBuildersNoAuthNetworked :: "ext \<Rightarrow> 'h BuilderHubHandler \<Rightarrow> 'h Handler" where
  "h_GetActiveBuildersNoAuthNetworked x bhs r w h =
     (let network = URLParam r ''network'' in
      if network = [] then replies (BadRequest x w ''network is empty'' []) h
      else write_builders x bhs network r w h)"

text \<open>An error of the verification other than \<open>ErrNotFound\<close> is not handled: the builder is nil
  and \<open>builder.Name\<close> panics.\<close>

definition h_GetConfigSecrets :: "'h BuilderHubHandler \<Rightarrow> 'h Handler" where
  "h_GetConfigSecrets bhs r w h =
     (case getAuthData r of
        Inl e \<Rightarrow> replies (WriteHeader StatusForbidden w) h
      | Inr authData \<Rightarrow>
          (case bh_VerifyIPAndMeasurements (builderHubService bhs) (rq_Seed r) (AD_IP authData)
              (AD_MeasurementData authData) (AD_AttestationType authData) h of
             (Inl e, h1) \<Rightarrow>
               if errors_Is e ErrNotFound then replies (WriteHeader StatusForbidden w) h1
               else panics nil_deref w h1
           | (Inr (builder, measurementName), h1) \<Rightarrow>
               (case bh_GetConfigWithSecrets (builderHubService bhs) (B_Name builder) h1 of
                  (Panic p, h2) \<Rightarrow> panics p w h2
                | (Ret (Inl e), h2) \<Rightarrow> replies (WriteHeader StatusInternalServerError w) h2
                | (Ret (Inr bts), h2) \<Rightarrow>
                    (case bh_LogEvent (builderHubService bhs) EventGetConfig (B_Name builder) measurementName h2 of
                       (Some e, h3) \<Rightarrow> replies (WriteHeader StatusInternalServerError w) h3
                     | (None, h3) \<Rightarrow> replies (Write bts w) h3))))"

text \<open>The part of a registration after the authentication.\<close>

definition register_body :: "ext \<Rightarrow> 'h BuilderHubHandler \<Rightarrow> AuthData \<Rightarrow> Builder \<Rightarrow> bytes \<Rightarrow> 'h Handler" where
  "register_body x bhs authData builder measurementName r w h =
     (let service = URLParam r ''service'' in
      if service = [] then replies (BadRequest x w ''service is empty'' []) h
      else
        (case ReadAll r of
           Inl e \<Rightarrow> replies (WriteHeader StatusInternalServerError w) h
         | Inr body \<Rightarrow>
             (case Unmarshal (dec_cred x) body zero_cred of
                Inl e \<Rightarrow> replies (BadRequest x w ''failed to unmarshal request body'' [e]) h
              | Inr sc \<Rightarrow>
                  if C_ECDSAPubkey sc = None \<and> C_TLSCert sc = []
                  then replies (BadRequest x w ''no credentials provided'' []) h
                  else
                    (let tlsCert = C_TLSCert sc;
                         ecdsaPubkey = (case C_ECDSAPubkey sc of None \<Rightarrow> [] | Some a \<Rightarrow> a) in
                     case bh_RegisterCredentialsForBuilder (builderHubService bhs) (B_Name builder) service
                         tlsCert ecdsaPubkey measurementName (AD_AttestationType authData) (C_Region sc) h of
                       (Some e, h1) \<Rightarrow> replies (WriteHeader StatusInternalServerError w) h1
                     | (None, h1) \<Rightarrow> replies (WriteHeader StatusOK w) h1))))"

definition h_RegisterCredentials :: "ext \<Rightarrow> 'h BuilderHubHandler \<Rightarrow> 'h Handler" where
  "h_RegisterCredentials x bhs r w h =
     (case getAuthData r of
        Inl e \<Rightarrow> replies (WriteHeader StatusForbidden w) h
      | Inr authData \<Rightarrow>
          (case bh_VerifyIPAndMeasurements (builderHubService bhs) (rq_Seed r) (AD_IP authData)
              (AD_MeasurementData authData) (AD_AttestationType authData) h of
             (Inl e, h1) \<Rightarrow>
               if errors_Is e ErrNotFound then replies (WriteHeader StatusForbidden w) h1
               else replies (WriteHeader StatusInternalServerError w) h1
           | (Inr (builder, measurementName), h1) \<Rightarrow>
               register_body x bhs authData builder measurementName r w h1))"

section \<open>The hub as the service\<close>

text \<open>The state behind the hub: the data provider's and the secret store's.\<close>

definition on_data :: "('d \<Rightarrow> 'a \<times> 'd) \<Rightarrow> 'd \<times> 's \<Rightarrow> 'a \<times> ('d \<times> 's)" where
  "on_data f h = (case f (fst h) of (a, d') \<Rightarrow> (a, (d', snd h)))"

definition hub_service :: "('d, 's) BuilderHub \<Rightarrow> ('d \<times> 's) BuilderHubService" where
  "hub_service b = \<lparr>
     bh_GetAllowedMeasurements = on_data (GetAllowedMeasurements b),
     bh_GetActiveBuilders = \<lambda>nw. on_data (GetActiveBuilders b nw),
     bh_VerifyIPAndMeasurements = \<lambda>k ip m ty. on_data (VerifyIPAndMeasurements b k ip m ty),
     bh_GetConfigWithSecrets = GetConfigWithSecrets b,
     bh_RegisterCredentialsForBuilder = \<lambda>n s c pk m ty reg.
       on_data (hub_RegisterCredentialsForBuilder b n s c pk m ty reg),
     bh_LogEvent = \<lambda>ev n m. on_data (hub_LogEvent b ev n m)\<rparr>"

section \<open>What a request can do\<close>

text \<open>The contract of the service: a verification that succeeds is authentic, and the
  verification and the reads leave the view of the state that the claims are about.\<close>

abbreviation verify :: "'h BuilderHubService \<Rightarrow> request \<Rightarrow> AuthData \<Rightarrow> 'h \<Rightarrow> (Builder \<times> bytes) result \<times> 'h" where
  "verify svc r auth \<equiv> bh_VerifyIPAndMeasurements svc (rq_Seed r) (AD_IP auth)
     (AD_MeasurementData auth) (AD_AttestationType auth)"

locale hub_contract =
  fixes svc :: "'h BuilderHubService"
    and inv :: "'h \<Rightarrow> bool"
    and authentic :: "'h \<Rightarrow> AuthData \<Rightarrow> Builder \<Rightarrow> bytes \<Rightarrow> bool"
    and view :: "'h \<Rightarrow> 'v"
  assumes verify_sound: "inv h \<Longrightarrow> verify svc r auth h = (Inr (b, n), h') \<Longrightarrow> authentic h auth b n"
    and verify_keeps: "verify svc r auth h = (v, h') \<Longrightarrow> view h' = view h"
    and builders_keep: "bh_GetActiveBuilders svc nw h = (bs, h') \<Longrightarrow> view h' = view h"
    and measurements_keep: "bh_GetAllowedMeasurements svc h = (ms, h') \<Longrightarrow> view h' = view h"
    and config_keeps: "bh_GetConfigWithSecrets svc name h = (c, h') \<Longrightarrow> view h' = view h"
begin

lemma write_builders_keeps:
  "builderHubService bhs = svc \<Longrightarrow> write_builders x bhs nw r w h = (w', p, h') \<Longrightarrow> p = None \<and> view h' = view h"
  using builders_keep [of nw h]
  by (auto simp: write_builders_def Let_def split: prod.splits sum.splits)

text \<open>Without an authentic builder no handler that asks for one writes anything but a status,
  and the view of the state stays.\<close>

lemma denied:
  assumes "inv h" "builderHubService bhs = svc"
    and "\<forall>auth b n. getAuthData r = Inr auth \<longrightarrow> \<not> authentic h auth b n"
    and "H \<in> {h_GetConfigSecrets bhs, h_RegisterCredentials x bhs, h_GetActiveBuilders x bhs}"
    and "H r w h = (w', p, h')"
  shows "view h' = view h \<and> (w' = WriteHeader 403 w \<and> p = None \<or> w' = WriteHeader 500 w \<and> p = None \<or> w' = w \<and> p = Some nil_deref)"
proof (cases "getAuthData r")
  case (Inl e)
  with assms(4,5) show ?thesis
    by (auto simp: h_GetConfigSecrets_def h_RegisterCredentials_def h_GetActiveBuilders_def)
next
  case (Inr auth)
  obtain v h1 where v: "verify svc r auth h = (v, h1)" by fastforce
  have "\<exists>e. v = Inl e"
    using v assms(1,3) Inr verify_sound [OF assms(1)] by (cases v) (auto, metis)
  with v Inr assms(2,4,5) verify_keeps [OF v] show ?thesis
    by (auto simp: h_GetConfigSecrets_def h_RegisterCredentials_def h_GetActiveBuilders_def split: if_splits)
qed

lemma GetConfigSecrets_served:
  assumes "inv h" "builderHubService bhs = svc" "rs_Status w = None"
    and "h_GetConfigSecrets bhs r w h = (w', None, h')" "rs_Status w' = Some 200"
  obtains auth b n h1 h2 bts where "getAuthData r = Inr auth" "authentic h auth b n"
    "verify svc r auth h = (Inr (b, n), h1)"
    "bh_GetConfigWithSecrets svc (B_Name b) h1 = (Ret (Inr bts), h2)"
    "bh_LogEvent svc EventGetConfig (B_Name b) n h2 = (None, h')"
    "rs_Body w' = rs_Body w @ bts" "view h1 = view h" "view h2 = view h"
proof -
  obtain auth where a: "getAuthData r = Inr auth"
    using assms by (auto simp: h_GetConfigSecrets_def split: sum.splits)
  obtain v h1 where v: "verify svc r auth h = (v, h1)" by fastforce
  obtain b n where bn: "v = Inr (b, n)"
    using assms a v by (cases v) (auto simp: h_GetConfigSecrets_def split: if_splits)
  obtain c h2 where c: "bh_GetConfigWithSecrets svc (B_Name b) h1 = (c, h2)" by fastforce
  obtain bts where bts: "c = Ret (Inr bts)"
    using assms a v bn c by (auto simp: h_GetConfigSecrets_def split: outcome.splits sum.splits)
  obtain e h3 where e: "bh_LogEvent svc EventGetConfig (B_Name b) n h2 = (e, h3)" by fastforce
  have "e = None" "h3 = h'" "rs_Body w' = rs_Body w @ bts"
    using assms a v bn c bts e by (auto simp: h_GetConfigSecrets_def split: option.splits)
  with a v bn c bts e show ?thesis
    using that verify_sound [OF assms(1)] verify_keeps [of r auth h] config_keeps by metis
qed

lemma GetActiveBuilders_served:
  assumes "inv h" "builderHubService bhs = svc" "rs_Status w = None"
    and "h_GetActiveBuilders x bhs r w h = (w', p, h')" "rs_Status w' = Some 200"
  obtains auth b n h1 bs where "getAuthData r = Inr auth" "authentic h auth b n" "view h1 = view h"
    "bh_GetActiveBuilders svc (B_Network b) h1 = (Inr bs, h')"
    "rs_Body w' = rs_Body w @ json_print (JArr (map (enc_builder x (rq_Seed r)) (map fromDomainBuilderWithServices bs)))"
proof -
  obtain auth where a: "getAuthData r = Inr auth"
    using assms by (auto simp: h_GetActiveBuilders_def split: sum.splits)
  obtain v h1 where v: "verify svc r auth h = (v, h1)" by fastforce
  obtain b n where bn: "v = Inr (b, n)"
    using assms a v by (cases v) (auto simp: h_GetActiveBuilders_def split: if_splits)
  obtain g h2 where g: "bh_GetActiveBuilders svc (B_Network b) h1 = (g, h2)" by fastforce
  obtain bs where bs: "g = Inr bs"
    using assms a v bn g by (cases g) (auto simp: h_GetActiveBuilders_def write_builders_def)
  have "h2 = h'" "rs_Body w' = rs_Body w @ json_print (JArr (map (enc_builder x (rq_Seed r)) (map fromDomainBuilderWithServices bs)))"
    using assms a v bn g bs by (auto simp: h_GetActiveBuilders_def write_builders_def Let_def simp del: map_map)
  with a v bn g bs show ?thesis
    using that verify_sound [OF assms(1)] verify_keeps [of r auth h] by metis
qed

text \<open>A registration reaches the service only for the authentic builder and the service in the
  path, with the credentials of the body.\<close>

lemma RegisterCredentials_effect:
  assumes "inv h" "builderHubService bhs = svc" "rs_Status w = None"
    and "h_RegisterCredentials x bhs r w h = (w', p, h')"
  obtains (unchanged) "view h' = view h" "rs_Status w' \<noteq> Some 200" "p = None"
  | (registered) auth b n h1 sc e where "getAuthData r = Inr auth" "authentic h auth b n" "view h1 = view h"
      "Unmarshal (dec_cred x) (rq_Body r) zero_cred = Inr sc" "C_ECDSAPubkey sc \<noteq> None \<or> C_TLSCert sc \<noteq> []"
      "URLParam r ''service'' \<noteq> []" "verify svc r auth h = (Inr (b, n), h1)"
      "bh_RegisterCredentialsForBuilder svc (B_Name b) (URLParam r ''service'') (C_TLSCert sc)
         (case C_ECDSAPubkey sc of None \<Rightarrow> [] | Some a \<Rightarrow> a) n (AD_AttestationType auth) (C_Region sc) h1 = (e, h')"
      "p = None" "rs_Status w' = Some (if e = None then 200 else 500)"
proof (cases "getAuthData r")
  case (Inl e)
  with assms show ?thesis by (intro unchanged) (auto simp: h_RegisterCredentials_def)
next
  case (Inr auth)
  obtain v h1 where v: "verify svc r auth h = (v, h1)" by fastforce
  note keep = verify_keeps [OF v]
  show ?thesis
  proof (cases v)
    case (Inl e)
    with assms v Inr keep show ?thesis
      by (intro unchanged) (auto simp: h_RegisterCredentials_def split: if_splits)
  next
    case (Inr bn)
    obtain b n where bn: "bn = (b, n)" by (cases bn)
    have reg: "register_body x bhs auth b n r w h1 = (w', p, h')"
      using assms(2,4) v Inr bn \<open>getAuthData r = Inr auth\<close> by (simp add: h_RegisterCredentials_def)
    show ?thesis
    proof (cases "URLParam r ''service'' = [] \<or> isl (ReadAll r) \<or>
        (\<forall>sc. Unmarshal (dec_cred x) (rq_Body r) zero_cred = Inr sc \<longrightarrow> C_ECDSAPubkey sc = None \<and> C_TLSCert sc = [])")
      case True
      with reg keep assms(3) show ?thesis
        by (intro unchanged)
          (auto simp: register_body_def Let_def ReadAll_def split: if_splits sum.splits)
    next
      case False
      then obtain sc where sc: "Unmarshal (dec_cred x) (rq_Body r) zero_cred = Inr sc"
          "C_ECDSAPubkey sc \<noteq> None \<or> C_TLSCert sc \<noteq> []"
        and s: "URLParam r ''service'' \<noteq> []" "ReadAll r = Inr (rq_Body r)"
        by (auto simp: ReadAll_def split: if_splits)
      obtain e h2 where e: "bh_RegisterCredentialsForBuilder svc (B_Name b) (URLParam r ''service'') (C_TLSCert sc)
         (case C_ECDSAPubkey sc of None \<Rightarrow> [] | Some a \<Rightarrow> a) n (AD_AttestationType auth) (C_Region sc) h1 = (e, h2)"
        by fastforce
      have "h2 = h'" "p = None" "rs_Status w' = Some (if e = None then 200 else 500)"
        using reg sc s e assms(2,3) by (auto simp: register_body_def Let_def split: option.splits)
      with sc s e v Inr bn keep verify_sound [OF assms(1)] show ?thesis
        by (intro registered [OF \<open>getAuthData r = Inr auth\<close>]) auto
    qed
  qed
qed

end

end
