(* ===== verification/Hub_Auth.thy ===== *)
theory Hub_Auth
  imports Hub_Handler
begin

text \<open>
  The handlers of \<open>ports/http_handler.go\<close> on the hub over the database service: the contract
  is interpreted, and the claims about requests are stated on the rows of the tables. Who is
  served is an active builder at the forwarded address with an accepted measurement; a
  registration touches only its own builder and service; which address counts; and the requests
  on which the handlers panic or refuse.
\<close>

section \<open>The contract on the database\<close>

definition db_handler :: "ext \<Rightarrow> 's SecretAccessor \<Rightarrow> (db \<times> 's) BuilderHubHandler" where
  "db_handler x sa = NewBuilderHubHandler (hub_service (NewBuilderHub (database_accessor x) sa))"

definition db_authentic :: "ext \<Rightarrow> db \<times> 's \<Rightarrow> AuthData \<Rightarrow> Builder \<Rightarrow> bytes \<Rightarrow> bool" where
  "db_authentic x h auth b n \<longleftrightarrow> db_builder_at x (fst h) (AD_IP auth) b \<and>
     (\<exists>t. db_allowed (fst h) (AD_AttestationType auth) t \<and> M_Name t = n \<and> satisfies (AD_MeasurementData auth) t)"

lemma db_handler_service [simp]:
  "builderHubService (db_handler x sa) = hub_service (NewBuilderHub (database_accessor x) sa)"
  by (simp add: db_handler_def NewBuilderHubHandler_def)

lemma hub_accessor [simp]:
  "dataAccessor (NewBuilderHub da sa) = da" "secretAccessor (NewBuilderHub da sa) = sa"
  by (simp_all add: NewBuilderHub_def)

lemma on_data_eq: "on_data f h = (a, h') \<longleftrightarrow> f (fst h) = (a, fst h') \<and> snd h' = snd h"
  by (cases h') (auto simp: on_data_def split: prod.splits)

lemma hub_service_simps [simp]:
  "bh_GetAllowedMeasurements (hub_service b) = on_data (GetAllowedMeasurements b)"
  "bh_GetActiveBuilders (hub_service b) nw = on_data (GetActiveBuilders b nw)"
  "bh_VerifyIPAndMeasurements (hub_service b) k ip m ty = on_data (VerifyIPAndMeasurements b k ip m ty)"
  "bh_GetConfigWithSecrets (hub_service b) = GetConfigWithSecrets b"
  "bh_RegisterCredentialsForBuilder (hub_service b) n s c pk mn ty reg =
     on_data (hub_RegisterCredentialsForBuilder b n s c pk mn ty reg)"
  "bh_LogEvent (hub_service b) ev n mn = on_data (hub_LogEvent b ev n mn)"
  by (simp_all add: hub_service_def)

lemma tabs_VerifyIP:
  assumes "VerifyIPAndMeasurements (NewBuilderHub (database_accessor x) sa) k ip m ty d = (v, d')"
  shows "tabs d' = tabs d"
proof -
  obtain r1 d1 where r1: "GetActiveMeasurementsByType ty d = (r1, d1)" by fastforce
  obtain r2 d2 where r2: "GetBuilderByIP x ip d1 = (r2, d2)" by fastforce
  have "d' = d1 \<or> d' = d2"
    using assms r1 r2 by (auto simp: VerifyIPAndMeasurements_def database_accessor_def split: sum.splits)
  then show ?thesis
    using tabs_GetActiveMeasurementsByType [of ty d] tabs_GetBuilderByIP [of x ip d1] r1 r2 by auto
qed

lemma GetConfigWithSecrets_eq:
  assumes "GetConfigWithSecrets (NewBuilderHub (database_accessor x) sa) b h = (c, h')"
  shows "tabs (fst h') = tabs (fst h)"
    "c = Ret (Inr bts) \<Longrightarrow> sa_GetSecretValues sa b (snd h) = (Ret (Inr bts), snd h')"
proof -
  obtain cfg d1 where g: "GetActiveConfigForBuilder b (fst h) = (cfg, d1)" by fastforce
  have "tabs d1 = tabs (fst h)" using tabs_GetActiveConfigForBuilder [of b "fst h"] unfolding g by simp
  with g show "tabs (fst h') = tabs (fst h)"
    using assms
    by (auto simp: GetConfigWithSecrets_def database_accessor_def split: prod.splits sum.splits outcome.splits)
  show "sa_GetSecretValues sa b (snd h) = (Ret (Inr bts), snd h')" if "c = Ret (Inr bts)"
    using assms that
    by (auto simp: GetConfigWithSecrets_def database_accessor_def split: prod.splits sum.splits outcome.splits)
qed

interpretation hc: hub_contract "hub_service (NewBuilderHub (database_accessor x) sa)"
  "\<lambda>h. tables_ok (tabs (fst h))" "db_authentic x" "\<lambda>h. tabs (fst h)"
proof
  let ?hub = "NewBuilderHub (database_accessor x) sa"
  fix h auth b n h' r
  assume "tables_ok (tabs (fst h))" "verify (hub_service ?hub) r auth h = (Inr (b, n), h')"
  then show "db_authentic x h auth b n"
    using dbd.Verify_sound [of "fst h" ?hub x] by (auto simp: db_authentic_def on_data_eq)
next
  fix r auth h v h'
  assume "verify (hub_service (NewBuilderHub (database_accessor x) sa)) r auth h = (v, h')"
  then show "tabs (fst h') = tabs (fst h)" by (auto simp: on_data_eq dest: tabs_VerifyIP)
next
  fix nw h bs h'
  assume "bh_GetActiveBuilders (hub_service (NewBuilderHub (database_accessor x) sa)) nw h = (bs, h')"
  then show "tabs (fst h') = tabs (fst h)"
    using tabs_GetActiveBuilders [of x nw "fst h"]
    by (auto simp: on_data_eq GetActiveBuilders_def database_accessor_def)
next
  fix h ms h'
  assume "bh_GetAllowedMeasurements (hub_service (NewBuilderHub (database_accessor x) sa)) h = (ms, h')"
  then show "tabs (fst h') = tabs (fst h)"
    using tabs_GetActiveMeasurements [of "fst h"]
    by (auto simp: on_data_eq GetAllowedMeasurements_def database_accessor_def)
next
  fix name h c h'
  assume "bh_GetConfigWithSecrets (hub_service (NewBuilderHub (database_accessor x) sa)) name h = (c, h')"
  then show "tabs (fst h') = tabs (fst h)" by (auto dest: GetConfigWithSecrets_eq)
qed

section \<open>Rows behind an authentic request\<close>

lemma db_authentic_rows:
  assumes "db_authentic x h auth b n"
  obtains row m t where "row \<in> set (builders (tabs (fst h)))" "br_IsActive row"
    "inet_value x (AD_IP auth) = Inr (Some (br_IPAddress row))" "br_Name row = B_Name b" "br_Network row = B_Network b"
    "m \<in> set (measurements_whitelist (tabs (fst h)))" "mr_IsActive m"
    "mr_AttestationType m = AD_AttestationType auth" "mr_Name m = n"
    "convertMeasurementToDomain m = Inr t" "satisfies (AD_MeasurementData auth) t"
proof -
  obtain row where row: "row \<in> set (builders (tabs (fst h)))" "br_IsActive row"
      "inet_value x (AD_IP auth) = Inr (Some (br_IPAddress row))" "convertBuilderToDomain x row = Inr b"
    using assms by (auto simp: db_authentic_def db_builder_at_def)
  obtain m t where m: "m \<in> set (measurements_whitelist (tabs (fst h)))" "mr_IsActive m"
      "mr_AttestationType m = AD_AttestationType auth" "M_Name t = n"
      "convertMeasurementToDomain m = Inr t" "satisfies (AD_MeasurementData auth) t"
    using assms by (auto simp: db_authentic_def db_allowed_def)
  have "mr_Name m = n" using m by (auto simp: convertMeasurementToDomain_def split: sum.splits)
  moreover have "br_Name row = B_Name b \<and> br_Network row = B_Network b"
    using row(4) by (auto simp: convertBuilderToDomain_def split: option.splits)
  ultimately show ?thesis using that row m by metis
qed

lemma filter_the_key: "distinct (map f xs) \<Longrightarrow> m \<in> set xs \<Longrightarrow> filter (\<lambda>y. f y = f m) xs = [m]"
  by (induction xs) (auto simp: filter_empty_conv image_iff)

lemma LogEvent_None:
  assumes "LogEvent ev b n d = (None, d')" "tables_ok (tabs d)" "m \<in> set (measurements_whitelist (tabs d))" "mr_Name m = n"
  shows "\<exists>e. tabs d' = (tabs d)\<lparr>event_log := event_log (tabs d) @ [e]\<rparr> \<and> er_EventName e = ev \<and>
    er_BuilderName e = b \<and> er_MeasurementID e = Some (mr_ID m)"
proof -
  obtain fs where ins: "insert_event ev b n (d\<lparr>db_faults := fs\<rparr>) = (None, d')"
    using assms(1) unfolding LogEvent_def by (auto elim!: wrap_exec_None simp: checked_None)
  have "distinct (map mr_Name (measurements_whitelist (tabs d)))"
    using assms(2) by (simp add: tables_ok_def schema_ok_def)
  from filter_the_key [OF this assms(3)]
  have "scalar_id (filter (\<lambda>m. mr_Name m = n) (measurements_whitelist (tabs d))) = Inr (Some (mr_ID m))"
    by (simp add: assms(4) scalar_id_def)
  with ins show ?thesis
    by (intro exI [of _ "\<lparr>er_ID = event_seq d, er_EventName = ev, er_BuilderName = b,
          er_MeasurementID = Some (mr_ID m), er_CreatedAt = db_now d\<rparr>"])
       (auto simp: insert_event_def Let_def upd_tabs_def split: if_splits)
qed

text \<open>A handler that writes nothing has answered nothing: on an open response the status is
  set by each branch.\<close>

lemma GetConfigSecrets_closed:
  "h_GetConfigSecrets bhs r NewResponse h = (w, None, h') \<Longrightarrow> \<exists>c. rs_Status w = Some c"
  by (auto simp: h_GetConfigSecrets_def split: sum.splits prod.splits outcome.splits option.splits if_splits)

lemma RegisterCredentials_closed:
  "h_RegisterCredentials x bhs r NewResponse h = (w, p, h') \<Longrightarrow> \<exists>c. rs_Status w = Some c"
  by (auto simp: h_RegisterCredentials_def register_body_def Let_def
      split: sum.splits prod.splits option.splits if_splits)

lemma GetActiveBuilders_closed:
  "h_GetActiveBuilders x bhs r NewResponse h = (w, p, h') \<Longrightarrow> \<exists>c. rs_Status w = Some c"
  by (auto simp: h_GetActiveBuilders_def write_builders_def Let_def
      split: sum.splits prod.splits if_splits)

lemma Verify_bad_text:
  assumes "\<not> pg_text ty"
  obtains e d' where "VerifyIPAndMeasurements (NewBuilderHub (database_accessor x) sa) k ip m ty d = (Inl e, d')"
    "\<not> errors_Is e ErrNotFound"
proof (cases rule: query_cases [of "[ty]"
    "select_measurements (\<lambda>m. mr_IsActive m \<and> mr_AttestationType m = ty)" d])
  case (rows fs)
  with assms show ?thesis by simp
next
  case (failed fs e)
  then show ?thesis
    by (intro that [of "Wrap ''failing to fetch corresponding measurement data'' e" "d\<lparr>db_faults := fs\<rparr>"])
       (auto simp: VerifyIPAndMeasurements_def database_accessor_def GetActiveMeasurementsByType_def bad_text_def)
qed

lemma GetConfigSecrets_served_rows:
  assumes "tables_ok (tabs (fst h))" "h_GetConfigSecrets (db_handler x sa) r NewResponse h = (w, None, h')"
    and "sent_status w = 200"
  shows "\<exists>auth row m t e. getAuthData r = Inr auth \<and>
    row \<in> set (builders (tabs (fst h))) \<and> br_IsActive row \<and>
    inet_value x (AD_IP auth) = Inr (Some (br_IPAddress row)) \<and>
    m \<in> set (measurements_whitelist (tabs (fst h))) \<and> mr_IsActive m \<and>
    mr_AttestationType m = AD_AttestationType auth \<and>
    convertMeasurementToDomain m = Inr t \<and> satisfies (AD_MeasurementData auth) t \<and>
    sa_GetSecretValues sa (br_Name row) (snd h) = (Ret (Inr (rs_Body w)), snd h') \<and>
    tabs (fst h') = (tabs (fst h))\<lparr>event_log := event_log (tabs (fst h)) @ [e]\<rparr> \<and>
    er_EventName e = EventGetConfig \<and> er_BuilderName e = br_Name row \<and> er_MeasurementID e = Some (mr_ID m)"
proof -
  note ok = assms(1)
  have st: "rs_Status w = Some 200"
    using assms(2,3) GetConfigSecrets_closed [OF assms(2)] by auto
  obtain auth b n h1 h2 bts where g: "getAuthData r = Inr auth" "db_authentic x h auth b n"
      "VerifyIPAndMeasurements (NewBuilderHub (database_accessor x) sa) (rq_Seed r) (AD_IP auth)
         (AD_MeasurementData auth) (AD_AttestationType auth) (fst h) = (Inr (b, n), fst h1)" "snd h1 = snd h"
      "GetConfigWithSecrets (NewBuilderHub (database_accessor x) sa) (B_Name b) h1 = (Ret (Inr bts), h2)"
      "LogEvent EventGetConfig (B_Name b) n (fst h2) = (None, fst h')" "snd h' = snd h2"
      "rs_Body w = bts" "tabs (fst h1) = tabs (fst h)" "tabs (fst h2) = tabs (fst h)"
    by (rule hc.GetConfigSecrets_served [OF ok _ _ assms(2) st])
       (auto simp: on_data_eq hub_LogEvent_def database_accessor_def)
  obtain row m t where r: "row \<in> set (builders (tabs (fst h)))" "br_IsActive row"
    "inet_value x (AD_IP auth) = Inr (Some (br_IPAddress row))" "br_Name row = B_Name b"
    "m \<in> set (measurements_whitelist (tabs (fst h)))" "mr_IsActive m"
    "mr_AttestationType m = AD_AttestationType auth" "mr_Name m = n"
    "convertMeasurementToDomain m = Inr t" "satisfies (AD_MeasurementData auth) t"
    by (rule db_authentic_rows [OF g(2)])
  have "sa_GetSecretValues sa (br_Name row) (snd h) = (Ret (Inr (rs_Body w)), snd h')"
    using GetConfigWithSecrets_eq(2) [OF g(5), of bts] g r(4) by simp
  moreover obtain e where "tabs (fst h') = (tabs (fst h2))\<lparr>event_log := event_log (tabs (fst h2)) @ [e]\<rparr>"
      "er_EventName e = EventGetConfig" "er_BuilderName e = B_Name b" "er_MeasurementID e = Some (mr_ID m)"
    using LogEvent_None [OF g(6), of m] ok r g(10) by auto
  ultimately show ?thesis using g r by metis
qed

lemmas GetConfigSecrets_rows = GetConfigSecrets_served_rows [OF reachable_ok]

section \<open>Properties\<close>

text \<open>C1: A request for its configuration secrets is answered with status 200 only when the
  address that the request was forwarded for belongs to an active builder and its measurement
  satisfies an active whitelisted template of its attestation type. The body is then what the
  secret store holds for this builder, and the tables have changed by exactly one event, which
  names the builder and the measurement.\<close>

theorem GetConfigSecrets_authenticated:
  assumes "db_reachable x (fst h)" "h_GetConfigSecrets (db_handler x sa) r NewResponse h = (w, None, h')"
    and "sent_status w = 200"
  shows "\<exists>auth row m t e. getAuthData r = Inr auth \<and>
    row \<in> set (builders (tabs (fst h))) \<and> br_IsActive row \<and>
    inet_value x (AD_IP auth) = Inr (Some (br_IPAddress row)) \<and>
    m \<in> set (measurements_whitelist (tabs (fst h))) \<and> mr_IsActive m \<and>
    mr_AttestationType m = AD_AttestationType auth \<and>
    convertMeasurementToDomain m = Inr t \<and> satisfies (AD_MeasurementData auth) t \<and>
    sa_GetSecretValues sa (br_Name row) (snd h) = (Ret (Inr (rs_Body w)), snd h') \<and>
    tabs (fst h') = (tabs (fst h))\<lparr>event_log := event_log (tabs (fst h)) @ [e]\<rparr> \<and>
    er_EventName e = EventGetConfig \<and> er_BuilderName e = br_Name row \<and> er_MeasurementID e = Some (mr_ID m)"
  by (rule GetConfigSecrets_rows [OF assms])

definition sample_request :: request where
  "sample_request = \<lparr>rq_Method = ''GET'', rq_Path = ''/api/l1-builder/v1/configuration'',
     rq_Header = [(AttestationTypeHeader, [''azure-tdx'']), (MeasurementHeader, [''{\"4\":\"ab\"}'']),
       (ForwardedHeader, [''8.8.8.8'', ''1.2.3.4, 10.0.0.7''])],
     rq_Params = [(''service'', ''relay'')], rq_Body = ''{\"tls_cert\":\"new\",\"region\":\"us\"}'',
     rq_ReadFails = False, rq_Seed = 5\<rparr>"

definition sample_state :: "db \<times> InmemorySecretService" where
  "sample_state = (sample_db, \<lparr>st = [(''alpha'', ''{\"k\":\"v\"}'')]\<rparr>)"

text \<open>A closed equation for a handler's reply, from its evaluation.\<close>

lemma reply_collapse: "fst z = w \<Longrightarrow> fst (snd z) = p \<Longrightarrow> z = (w, p, snd (snd z))"
  by (cases z) auto

theorem GetConfigSecrets_authenticated_witness:
  "\<exists>row\<in>set (builders (tabs sample_db)). br_IsActive row \<and> br_Name row = ''alpha''"
proof -
  let ?z = "h_GetConfigSecrets (db_handler sample_ext inmem_accessor) sample_request NewResponse sample_state"
  let ?w = "\<lparr>rs_Status = Some 200, rs_Header = [], rs_Body = ''{\"k\":\"v\"}''\<rparr>"
  have "fst ?z = ?w" "fst (snd ?z) = None" by code_simp+
  then have z: "?z = (?w, None, snd (snd ?z))" by (rule reply_collapse)
  have "db_reachable sample_ext (fst sample_state)" by (simp add: sample_state_def sample_db_reachable)
  from GetConfigSecrets_authenticated [OF this z]
  obtain row where "row \<in> set (builders (tabs (fst sample_state)))" "br_IsActive row"
    "sa_GetSecretValues inmem_accessor (br_Name row) (snd sample_state) = (Ret (Inr (rs_Body ?w)), snd (snd (snd ?z)))"
    by auto
  then show ?thesis
    by (auto simp: sample_state_def inmem_accessor_def inmem_GetSecretValues_def split: if_splits)
qed

text \<open>C2: A request without authentication data, or whose forwarded address is not that of an
  active builder, or whose measurement satisfies no active template of its attestation type,
  gets nothing from the handlers that require authentication: an empty body, status 403 or 500
  or a panic, and no table has changed.\<close>

theorem unauthenticated_denied:
  assumes "db_reachable x (fst h)"
    and "H \<in> {h_GetConfigSecrets (db_handler x sa), h_RegisterCredentials x (db_handler x sa), h_GetActiveBuilders x (db_handler x sa)}"
    and "H r NewResponse h = (w, p, h')"
    and "\<forall>auth. getAuthData r = Inr auth \<longrightarrow>
      (\<forall>row\<in>set (builders (tabs (fst h))). br_IsActive row \<longrightarrow> inet_value x (AD_IP auth) \<noteq> Inr (Some (br_IPAddress row))) \<or>
      (\<forall>m\<in>set (measurements_whitelist (tabs (fst h))). \<forall>t. mr_IsActive m \<and> mr_AttestationType m = AD_AttestationType auth \<and>
        convertMeasurementToDomain m = Inr t \<longrightarrow> \<not> satisfies (AD_MeasurementData auth) t)"
  shows "tabs (fst h') = tabs (fst h) \<and> rs_Body w = [] \<and> (p = None \<longrightarrow> sent_status w \<in> {403, 500})"
proof -
  have no: "\<forall>auth b n. getAuthData r = Inr auth \<longrightarrow> \<not> db_authentic x h auth b n"
    using assms(4) by (metis db_authentic_rows)
  have "tabs (fst h') = tabs (fst h) \<and> (w = WriteHeader 403 NewResponse \<and> p = None \<or>
      w = WriteHeader 500 NewResponse \<and> p = None \<or> w = NewResponse \<and> p = Some nil_deref)"
    by (rule hc.denied [OF reachable_ok [OF assms(1)] _ no assms(2,3)]) simp
  then show ?thesis by auto
qed

theorem unauthenticated_denied_witness:
  "\<exists>h'. h_RegisterCredentials sample_ext (db_handler sample_ext inmem_accessor)
     (sample_request\<lparr>rq_Header := [(AttestationTypeHeader, [''azure-tdx''])]\<rparr>) NewResponse sample_state =
       (\<lparr>rs_Status = Some 403, rs_Header = [], rs_Body = []\<rparr>, None, h') \<and> tabs (fst h') = tabs sample_db"
proof -
  let ?r = "sample_request\<lparr>rq_Header := [(AttestationTypeHeader, [''azure-tdx''])]\<rparr>"
  let ?z = "h_RegisterCredentials sample_ext (db_handler sample_ext inmem_accessor) ?r NewResponse sample_state"
  let ?w = "\<lparr>rs_Status = Some 403, rs_Header = [], rs_Body = []\<rparr> :: response"
  have "fst ?z = ?w" "fst (snd ?z) = None" by code_simp+
  then have z: "?z = (?w, None, snd (snd ?z))" by (rule reply_collapse)
  have "isl (getAuthData ?r)" by code_simp
  then have "getAuthData ?r \<noteq> Inr auth" for auth by auto
  moreover have "db_reachable sample_ext (fst sample_state)" by (simp add: sample_state_def sample_db_reachable)
  ultimately have "tabs (fst (snd (snd ?z))) = tabs (fst sample_state)"
    using unauthenticated_denied [where H = "h_RegisterCredentials sample_ext (db_handler sample_ext inmem_accessor)"
        and x = sample_ext and sa = inmem_accessor and h = sample_state, OF _ _ z] by blast
  with z show ?thesis by (metis fst_conv sample_state_def)
qed

text \<open>C3: A registration request either leaves every table as it is and is not answered with
  status 200, or replaces the active credentials of exactly one builder and service: the active
  builder at the forwarded address and the service in the path; the credentials are those of the
  body, which has a certificate or a key.\<close>

theorem RegisterCredentials_own_builder:
  assumes "db_reachable x (fst h)"
    and "h_RegisterCredentials x (db_handler x sa) r NewResponse h = (w, p, h')"
  shows "p = None \<and> (tabs (fst h') = tabs (fst h) \<and> sent_status w \<noteq> 200 \<or>
    (\<exists>auth row sc. getAuthData r = Inr auth \<and> row \<in> set (builders (tabs (fst h))) \<and> br_IsActive row \<and>
      inet_value x (AD_IP auth) = Inr (Some (br_IPAddress row)) \<and>
      Unmarshal (dec_cred x) (rq_Body r) zero_cred = Inr sc \<and> (C_ECDSAPubkey sc \<noteq> None \<or> C_TLSCert sc \<noteq> []) \<and>
      registry (tabs (fst h')) = (registry (tabs (fst h)))((br_Name row, URLParam r ''service'') \<mapsto>
        \<lparr>cred_TLSCert = if C_TLSCert sc \<noteq> [] then Some (C_TLSCert sc) else None,
         cred_ECDSAPubKey = (case C_ECDSAPubkey sc of None \<Rightarrow> [] | Some a \<Rightarrow> a), cred_Region = C_Region sc\<rparr>)))"
proof (cases rule: hc.RegisterCredentials_effect [OF reachable_ok [OF assms(1)] db_handler_service
      rs_Status_simps(7) assms(2)])
  case 1
  then have "sent_status w \<noteq> 200" using RegisterCredentials_closed [OF assms(2)] by auto
  with 1 show ?thesis by simp
next
  case 4: (2 auth b n h1 sc e)
  then have reg: "RegisterCredentialsForBuilder (B_Name b) (URLParam r ''service'') (C_TLSCert sc)
      (case C_ECDSAPubkey sc of None \<Rightarrow> [] | Some a \<Rightarrow> a) n (AD_AttestationType auth) (C_Region sc) (fst h1) = (e, fst h')"
    by (simp add: on_data_eq hub_RegisterCredentialsForBuilder_def database_accessor_def)
  obtain row where row: "row \<in> set (builders (tabs (fst h)))" "br_IsActive row"
      "inet_value x (AD_IP auth) = Inr (Some (br_IPAddress row))" "br_Name row = B_Name b"
    using db_authentic_rows [OF 4(2)] by metis
  show ?thesis
  proof (cases rule: RegisterCredentialsForBuilder_cases [OF reg])
    case 1
    with 4 show ?thesis by auto
  next
    case (2 rec)
    have "registry (tabs (fst h')) = (registry (tabs (fst h)))((B_Name b, URLParam r ''service'') \<mapsto> cred_of rec)"
      using 2 4(3) by (simp add: registry_replace)
    with 4 row 2(6) show ?thesis by metis
  qed
qed

theorem RegisterCredentials_own_builder_witness:
  "\<exists>h'. h_RegisterCredentials sample_ext (db_handler sample_ext inmem_accessor) sample_request NewResponse sample_state =
       (\<lparr>rs_Status = Some 200, rs_Header = [], rs_Body = []\<rparr>, None, h') \<and>
     registry (tabs (fst h')) (''alpha'', ''proxy'') = registry (tabs sample_db) (''alpha'', ''proxy'')"
proof -
  let ?z = "h_RegisterCredentials sample_ext (db_handler sample_ext inmem_accessor) sample_request NewResponse sample_state"
  let ?w = "\<lparr>rs_Status = Some 200, rs_Header = [], rs_Body = []\<rparr> :: response"
  have "fst ?z = ?w" "fst (snd ?z) = None" by code_simp+
  then have z: "?z = (?w, None, snd (snd ?z))" by (rule reply_collapse)
  have s: "URLParam sample_request ''service'' = ''relay''" by code_simp
  have "db_reachable sample_ext (fst sample_state)" by (simp add: sample_state_def sample_db_reachable)
  from RegisterCredentials_own_builder [OF this z] s
  have "registry (tabs (fst (snd (snd ?z)))) (''alpha'', ''proxy'') = registry (tabs (fst sample_state)) (''alpha'', ''proxy'')"
    by auto
  with z show ?thesis by (metis fst_conv sample_state_def)
qed

text \<open>Only the part after the last comma of the last X-Forwarded-For value counts: whatever
  values and addresses a client puts before what the proxy appends, the authentication data are
  those of a request with the appended part alone.\<close>

theorem getAuthData_forwarded_suffix:
  assumes "CHR '','' \<notin> set appended"
  shows "getAuthData (r\<lparr>rq_Header := AList.update ForwardedHeader (vs @ [pre @ CHR '','' # appended]) hs\<rparr>) =
    getAuthData (r\<lparr>rq_Header := AList.update ForwardedHeader [appended] hs\<rparr>)"
proof -
  have names: "AttestationTypeHeader \<noteq> ForwardedHeader" "MeasurementHeader \<noteq> ForwardedHeader"
    by (simp_all add: AttestationTypeHeader_def MeasurementHeader_def ForwardedHeader_def)
  let ?r = "\<lambda>v. r\<lparr>rq_Header := AList.update ForwardedHeader v hs\<rparr>"
  have get: "Header_Get (?r v) AttestationTypeHeader = Header_Get (r\<lparr>rq_Header := hs\<rparr>) AttestationTypeHeader"
    "Header_Get (?r v) MeasurementHeader = Header_Get (r\<lparr>rq_Header := hs\<rparr>) MeasurementHeader"
    "Header_Values (?r v) ForwardedHeader = v" for v
    using names by (simp_all add: Header_Get_def Header_Values_def update_conv')
  have "last (split_on (CHR '','') (pre @ CHR '','' # appended)) = last (split_on (CHR '','') appended)"
    using last_split_on [OF assms, of pre] split_on_no_sep [OF assms] by simp
  then show ?thesis
    unfolding getAuthData_def Let_def get by (simp split: sum.split)
qed

theorem getAuthData_forwarded_suffix_witness:
  "getAuthData (sample_request\<lparr>rq_Header := AList.update ForwardedHeader
      ([''evil''] @ [''127.0.0.1'' @ CHR '','' # '' 10.0.0.7'']) (rq_Header sample_request)\<rparr>) =
    getAuthData (sample_request\<lparr>rq_Header := AList.update ForwardedHeader ['' 10.0.0.7''] (rq_Header sample_request)\<rparr>)"
  by (rule getAuthData_forwarded_suffix) simp

text \<open>C26: An attestation type that the database does not accept as text (it is not UTF-8) makes
  the verification fail with an error that is not ErrNotFound. The listing and the registration
  answer with status 500; the request for the configuration secrets goes on with the nil builder
  and panics.\<close>

theorem GetConfigSecrets_nil_builder:
  assumes "getAuthData r = Inr auth" "\<not> pg_text (AD_AttestationType auth)"
  shows "\<exists>h'. h_GetConfigSecrets (db_handler x sa) r w h = (w, Some nil_deref, h') \<and>
    h_GetActiveBuilders x (db_handler x sa) r w h = (WriteHeader 500 w, None, h') \<and>
    h_RegisterCredentials x (db_handler x sa) r w h = (WriteHeader 500 w, None, h')"
proof -
  let ?hub = "NewBuilderHub (database_accessor x) sa"
  obtain e d' where e: "VerifyIPAndMeasurements ?hub (rq_Seed r) (AD_IP auth) (AD_MeasurementData auth)
      (AD_AttestationType auth) (fst h) = (Inl e, d')" "\<not> errors_Is e ErrNotFound"
    by (rule Verify_bad_text [OF assms(2)])
  then have "verify (hub_service ?hub) r auth h = (Inl e, (d', snd h))" by (simp add: on_data_eq)
  with assms(1) e(2) show ?thesis
    by (intro exI [of _ "(d', snd h)"])
       (simp add: h_GetConfigSecrets_def h_GetActiveBuilders_def h_RegisterCredentials_def del: hub_service_simps)
qed

theorem GetConfigSecrets_nil_builder_witness:
  "\<exists>h'. h_GetConfigSecrets (db_handler sample_ext inmem_accessor) (sample_request\<lparr>rq_Header :=
      [(AttestationTypeHeader, [[CHR 0xFF]]), (MeasurementHeader, [''{}'']), (ForwardedHeader, [''10.0.0.7''])]\<rparr>)
     NewResponse sample_state = (NewResponse, Some nil_deref, h')"
proof -
  let ?r = "sample_request\<lparr>rq_Header := [(AttestationTypeHeader, [[CHR 0xFF]]), (MeasurementHeader, [''{}'']),
    (ForwardedHeader, [''10.0.0.7''])]\<rparr>"
  have "getAuthData ?r = Inr \<lparr>AD_AttestationType = [CHR 0xFF], AD_MeasurementData = [],
      AD_IP = v4InV6Prefix @ sample_ip\<rparr>" by code_simp
  moreover have "\<not> pg_text (AD_AttestationType \<lparr>AD_AttestationType = [CHR 0xFF], AD_MeasurementData = [],
      AD_IP = v4InV6Prefix @ sample_ip\<rparr>)" by code_simp
  ultimately show ?thesis using GetConfigSecrets_nil_builder [of ?r] by blast
qed

text \<open>The authenticated listing shows a builder the builders of its own network and no
  others: a response with status 200 goes to an active builder at the forwarded address, and its
  body is the JSON list of exactly the active builders of that builder's network, each once,
  with their names.\<close>

theorem GetActiveBuilders_own_network:
  assumes "db_reachable x (fst h)" "h_GetActiveBuilders x (db_handler x sa) r NewResponse h = (w, p, h')"
    and "sent_status w = 200"
  shows "\<exists>auth row bs. getAuthData r = Inr auth \<and> row \<in> set (builders (tabs (fst h))) \<and> br_IsActive row \<and>
    inet_value x (AD_IP auth) = Inr (Some (br_IPAddress row)) \<and>
    rs_Body w = json_print (JArr (map (enc_builder x (rq_Seed r)) bs)) \<and>
    mset (map BC_Name bs) = mset (map br_Name (filter (\<lambda>b. br_IsActive b \<and> br_Network b = br_Network row)
      (builders (tabs (fst h)))))"
proof -
  have ok: "tables_ok (tabs (fst h))" by (rule reachable_ok [OF assms(1)])
  have st: "rs_Status w = Some 200"
    using assms(3) GetActiveBuilders_closed [OF assms(2)] by auto
  obtain auth b n h1 ws where g: "getAuthData r = Inr auth" "db_authentic x h auth b n"
      "tabs (fst h1) = tabs (fst h)"
      "GetActiveBuildersWithServiceCredentials x (B_Network b) (fst h1) = (Inr ws, fst h')"
      "rs_Body w = json_print (JArr (map (enc_builder x (rq_Seed r)) (map fromDomainBuilderWithServices ws)))"
    by (rule hc.GetActiveBuilders_served [OF ok _ _ assms(2) st])
       (auto simp: on_data_eq GetActiveBuilders_def database_accessor_def simp del: map_map)
  obtain row where row: "row \<in> set (builders (tabs (fst h)))" "br_IsActive row"
      "inet_value x (AD_IP auth) = Inr (Some (br_IPAddress row))" "br_Network row = B_Network b"
    using db_authentic_rows [OF g(2)] by metis
  have "mset (map (\<lambda>w. B_Name (BWS_Builder w)) ws) = mset (map br_Name (filter (\<lambda>b'. br_IsActive b' \<and>
      br_Network b' = B_Network b) (builders (tabs (fst h1)))))"
    using GetActiveBuilders_ok [OF ok [folded g(3)] g(4)] by blast
  then have "mset (map BC_Name (map fromDomainBuilderWithServices ws)) = mset (map br_Name (filter (\<lambda>b'. br_IsActive b' \<and>
      br_Network b' = br_Network row) (builders (tabs (fst h)))))"
    using g(3) row(4) by (simp add: fromDomainBuilderWithServices_def comp_def)
  with g row show ?thesis by blast
qed

theorem GetActiveBuilders_own_network_witness:
  "\<exists>w h' bs. h_GetActiveBuilders sample_ext (db_handler sample_ext inmem_accessor) sample_request NewResponse sample_state
      = (w, None, h') \<and> rs_Body w = json_print (JArr (map (enc_builder sample_ext 5) bs)) \<and> length bs = 1"
proof -
  let ?z = "h_GetActiveBuilders sample_ext (db_handler sample_ext inmem_accessor) sample_request NewResponse sample_state"
  have ok: "sent_status (fst ?z) = 200" "fst (snd ?z) = None" by code_simp+
  then have z: "?z = (fst ?z, None, snd (snd ?z))" by (intro reply_collapse) simp_all
  have one: "\<forall>row\<in>set (builders (tabs (fst sample_state))).
      length (filter (\<lambda>b. br_IsActive b \<and> br_Network b = br_Network row) (builders (tabs (fst sample_state)))) = 1"
    by code_simp
  have "db_reachable sample_ext (fst sample_state)" by (simp add: sample_state_def sample_db_reachable)
  from GetActiveBuilders_own_network [OF this z ok(1)]
  obtain row bs where row: "row \<in> set (builders (tabs (fst sample_state)))"
      "rs_Body (fst ?z) = json_print (JArr (map (enc_builder sample_ext (rq_Seed sample_request)) bs))"
      "mset (map BC_Name bs) = mset (map br_Name (filter (\<lambda>b. br_IsActive b \<and> br_Network b = br_Network row)
        (builders (tabs (fst sample_state)))))"
    by blast
  from row(3) have "length bs = length (filter (\<lambda>b. br_IsActive b \<and> br_Network b = br_Network row)
      (builders (tabs (fst sample_state))))"
    by (metis length_map size_mset)
  with one row(1) have "length bs = 1" by simp
  moreover have "rq_Seed sample_request = 5" by (simp add: sample_request_def)
  ultimately show ?thesis using z row(2) by metis
qed

end
