(* ===== verification/Admin_Handler.thy ===== *)
theory Admin_Handler
  imports Hub_Auth
begin

text \<open>
  \<open>ports/admin_handler.go\<close>: the interface \<open>AdminBuilderService\<close> as a record of operations, the
  admin handler with its eight operations, and what they do on every branch. The state behind
  the handler is the data provider's and the secret store's.
\<close>

section \<open>Interfaces and the handler\<close>

record 'd AdminBuilderService =
  ab_GetActiveConfigForBuilder :: "bytes \<Rightarrow> 'd \<Rightarrow> bytes result \<times> 'd"
  ab_AddMeasurement :: "Measurement \<Rightarrow> bool \<Rightarrow> 'd \<Rightarrow> go_error option \<times> 'd"
  ab_AddBuilder :: "Builder \<Rightarrow> 'd \<Rightarrow> go_error option \<times> 'd"
  ab_ChangeActiveStatusForBuilder :: "bytes \<Rightarrow> bool \<Rightarrow> 'd \<Rightarrow> go_error option \<times> 'd"
  ab_ChangeActiveStatusForMeasurement :: "bytes \<Rightarrow> bool \<Rightarrow> 'd \<Rightarrow> go_error option \<times> 'd"
  ab_AddBuilderConfig :: "bytes \<Rightarrow> bytes \<Rightarrow> 'd \<Rightarrow> go_error option \<times> 'd"

record ('d, 's) AdminHandler =
  builderService :: "'d AdminBuilderService"
  secretService :: "'s AdminSecretService"

definition NewAdminHandler :: "'d AdminBuilderService \<Rightarrow> 's AdminSecretService \<Rightarrow> ('d, 's) AdminHandler" where
  "NewAdminHandler service sec = \<lparr>builderService = service, secretService = sec\<rparr>"

text \<open>The database service as the builder service.\<close>

definition database_admin :: "ext \<Rightarrow> db AdminBuilderService" where
  "database_admin x = \<lparr>
     ab_GetActiveConfigForBuilder = GetActiveConfigForBuilder,
     ab_AddMeasurement = AddMeasurement x,
     ab_AddBuilder = AddBuilder x,
     ab_ChangeActiveStatusForBuilder = ChangeActiveStatusForBuilder,
     ab_ChangeActiveStatusForMeasurement = ChangeActiveStatusForMeasurement,
     ab_AddBuilderConfig = AddBuilderConfig x\<rparr>"

record ActivationRequest =
  Enabled :: bool

definition activation_fields :: "ActivationRequest field list" where
  "activation_fields =
     [(''enabled'', \<lambda>v a. map_option (\<lambda>b. a\<lparr>Enabled := b\<rparr>) (dec_bool v (Enabled a)))]"

definition decode_activation :: "request \<Rightarrow> ActivationRequest result" where
  "decode_activation r = Decode_body (dec_struct activation_fields) r \<lparr>Enabled = False\<rparr>"

section \<open>Handlers\<close>

text \<open>The end that the changing handlers share: an error is answered with status 500, success
  leaves the response as it is.\<close>

definition finish :: "response \<Rightarrow> 's \<Rightarrow> go_error option \<times> 'd \<Rightarrow> ('d \<times> 's) reply" where
  "finish w s e = (case e of
     (Some _, d) \<Rightarrow> replies (WriteHeader StatusInternalServerError w) (d, s)
   | (None, d) \<Rightarrow> replies w (d, s))"

definition admin_GetActiveConfigForBuilder :: "('d, 's) AdminHandler \<Rightarrow> ('d \<times> 's) Handler" where
  "admin_GetActiveConfigForBuilder a r w h =
     (case ab_GetActiveConfigForBuilder (builderService a) (URLParam r ''builderName'') (fst h) of
        (Inl e, d) \<Rightarrow>
          replies (WriteHeader (if errors_Is e ErrNotFound then StatusNotFound else StatusInternalServerError) w) (d, snd h)
      | (Inr bts, d) \<Rightarrow> replies (Write bts w) (d, snd h))"

definition admin_GetFullConfigForBuilder :: "('d, 's) AdminHandler \<Rightarrow> ('d \<times> 's) Handler" where
  "admin_GetFullConfigForBuilder a r w h =
     (let builderName = URLParam r ''builderName'' in
      case ab_GetActiveConfigForBuilder (builderService a) builderName (fst h) of
        (Inl e, d) \<Rightarrow>
          replies (WriteHeader (if errors_Is e ErrNotFound then StatusNotFound else StatusInternalServerError) w) (d, snd h)
      | (Inr _, d) \<Rightarrow>
          (case sa_GetSecretValues (secretService a) builderName (snd h) of
             (Panic p, s) \<Rightarrow> panics p w (d, s)
           | (Ret (Inl e), s) \<Rightarrow> replies (WriteHeader StatusInternalServerError w) (d, s)
           | (Ret (Inr secr), s) \<Rightarrow> replies (Write secr w) (d, s)))"

definition admin_AddMeasurement :: "ext \<Rightarrow> ('d, 's) AdminHandler \<Rightarrow> ('d \<times> 's) Handler" where
  "admin_AddMeasurement x a r w h =
     (case ReadAll r of
        Inl e \<Rightarrow> replies (WriteHeader StatusInternalServerError w) h
      | Inr body \<Rightarrow>
          (case Unmarshal (dec_struct measurement_fields) body zero_measurement of
             Inl e \<Rightarrow> replies (BadRequest x w ''failed to unmarshal request body'' [e]) h
           | Inr measurement \<Rightarrow>
               finish w (snd h) (ab_AddMeasurement (builderService a) (toDomainMeasurement measurement) False (fst h))))"

definition admin_AddBuilder :: "ext \<Rightarrow> ('d, 's) AdminHandler \<Rightarrow> ('d \<times> 's) Handler" where
  "admin_AddBuilder x a r w h =
     (case ReadAll r of
        Inl e \<Rightarrow> replies (WriteHeader StatusInternalServerError w) h
      | Inr body \<Rightarrow>
          (case Unmarshal (dec_struct builder_fields) body zero_builder of
             Inl e \<Rightarrow> replies (BadRequest x w ''failed to unmarshal request body'' [e]) h
           | Inr builder \<Rightarrow>
               if PB_Network builder = [] then replies (BadRequest x w ''network field is required'' []) h
               else
                 (case toDomainBuilder builder False of
                    Inl e \<Rightarrow> replies (BadRequest x w ''failed to convert builder to domain builder'' [e]) h
                  | Inr dBuilder \<Rightarrow> finish w (snd h) (ab_AddBuilder (builderService a) dBuilder (fst h)))))"

definition admin_ChangeActiveStatusForBuilder :: "ext \<Rightarrow> ('d, 's) AdminHandler \<Rightarrow> ('d \<times> 's) Handler" where
  "admin_ChangeActiveStatusForBuilder x a r w h =
     (let builderName = URLParam r ''builderName'' in
      case decode_activation r of
        Inl e \<Rightarrow> replies (BadRequest x w ''failed to decode request body'' [e]) h
      | Inr activationRequest \<Rightarrow>
          (if Enabled activationRequest then
             (case ab_GetActiveConfigForBuilder (builderService a) builderName (fst h) of
                (Inl e, d) \<Rightarrow>
                  if errors_Is e ErrNotFound
                  then replies (BadRequest x w ''active config not found: please set config for the builder first'' []) (d, snd h)
                  else replies (WriteHeader StatusInternalServerError w) (d, snd h)
              | (Inr _, d) \<Rightarrow> finish w (snd h)
                  (ab_ChangeActiveStatusForBuilder (builderService a) builderName (Enabled activationRequest) d))
           else finish w (snd h)
             (ab_ChangeActiveStatusForBuilder (builderService a) builderName (Enabled activationRequest) (fst h))))"

definition admin_ChangeActiveStatusForMeasurement :: "ext \<Rightarrow> ('d, 's) AdminHandler \<Rightarrow> ('d \<times> 's) Handler" where
  "admin_ChangeActiveStatusForMeasurement x a r w h =
     (case decode_activation r of
        Inl e \<Rightarrow> replies (BadRequest x w ''failed to decode request body'' [e]) h
      | Inr activationRequest \<Rightarrow>
          finish w (snd h) (ab_ChangeActiveStatusForMeasurement (builderService a)
            (URLParam r ''measurementName'') (Enabled activationRequest) (fst h)))"

definition admin_AddBuilderConfig :: "ext \<Rightarrow> ('d, 's) AdminHandler \<Rightarrow> ('d \<times> 's) Handler" where
  "admin_AddBuilderConfig x a r w h =
     (case ReadAll r of
        Inl e \<Rightarrow> replies (WriteHeader StatusInternalServerError w) h
      | Inr body \<Rightarrow>
          if \<not> json_Valid body then replies (BadRequest x w ''invalid json'' []) h
          else finish w (snd h) (ab_AddBuilderConfig (builderService a) (URLParam r ''builderName'') body (fst h)))"

definition admin_SetSecrets :: "('d, 's) AdminHandler \<Rightarrow> ('d \<times> 's) Handler" where
  "admin_SetSecrets a r w h =
     (case ReadAll r of
        Inl e \<Rightarrow> replies (WriteHeader StatusInternalServerError w) h
      | Inr body \<Rightarrow>
          (case as_SetSecretValues (secretService a) (URLParam r ''builderName'') body (snd h) of
             (Panic p, s) \<Rightarrow> panics p w (fst h, s)
           | (Ret (Some e), s) \<Rightarrow> replies (WriteHeader StatusInternalServerError w) (fst h, s)
           | (Ret None, s) \<Rightarrow> replies w (fst h, s)))"

end
