(* ===== verification/Hub_System.thy ===== *)
theory Hub_System
  imports Admin_Handler
begin

text \<open>
  The handlers together: every request is a sequence of operations on the database, and the
  operations of concurrent requests interleave. The step relation has one rule per operation
  the handlers issue, with the arguments they issue it with; an activation is issued only for a
  builder whose active configuration the same request has read before, and other operations may
  come between the two. The invariant is that no active builder is without a configuration.
\<close>

section \<open>Statements and properties of the tables\<close>

definition preserves :: "(tables \<Rightarrow> bool) \<Rightarrow> stmt \<Rightarrow> bool" where
  "preserves P s \<longleftrightarrow> (\<forall>d. P (tabs d) \<longrightarrow> P (tabs (snd (s d))))"

lemma preservesI: "(\<And>d. P (tabs d) \<Longrightarrow> P (tabs (snd (s d)))) \<Longrightarrow> preserves P s"
  by (simp add: preserves_def)

lemma preservesD: "preserves P s \<Longrightarrow> P (tabs d) \<Longrightarrow> P (tabs (snd (s d)))"
  by (simp add: preserves_def)

lemma preserves_checked: "(list_all pg_text ps \<Longrightarrow> preserves P s) \<Longrightarrow> preserves P (checked ps s)"
  by (simp add: preserves_def checked_def)

lemma snd_wrap_err: "snd (wrap_err w s d) = snd (s d)"
  by (simp add: wrap_err_def split: prod.splits option.splits)

lemma preserves_wrap_err: "preserves P s \<Longrightarrow> preserves P (wrap_err w s)"
  by (simp add: preserves_def snd_wrap_err)

lemma preserves_exec:
  assumes "preserves P s"
  shows "preserves P (exec s)"
proof (rule preservesI)
  fix d :: db assume "P (tabs d)"
  then have "P (tabs (d\<lparr>db_faults := fs\<rparr>))" for fs by simp
  then show "P (tabs (snd (exec s d)))"
    by (cases s d rule: exec_cases) (simp_all add: preservesD [OF assms])
qed

lemmas preserves_intros = preserves_checked preserves_wrap_err preserves_exec

section \<open>Active builders are configured\<close>

text \<open>The names of builders and measurements are text that the database accepts, every active builder has an active
  configuration, and so has every builder in \<open>P\<close>, the ones that an activation was checked for.\<close>

definition served :: "bytes set \<Rightarrow> tables \<Rightarrow> bool" where
  "served P t \<longleftrightarrow> P \<subseteq> dom (configured t) \<and>
     (\<forall>b\<in>set (builders t). pg_text (br_Name b) \<and> (br_IsActive b \<longrightarrow> br_Name b \<in> dom (configured t))) \<and>
     (\<forall>m\<in>set (measurements_whitelist t). pg_text (mr_Name m))"

lemma served_other_tables [simp]:
  "served P (t\<lparr>service_credential_registrations := cs\<rparr>) = served P t"
  "served P (t\<lparr>event_log := es\<rparr>) = served P t"
  by (simp_all add: served_def configured_def active_configs_def)

lemma served_configs:
  "served P t \<Longrightarrow> builders t' = builders t \<Longrightarrow> measurements_whitelist t' = measurements_whitelist t \<Longrightarrow>
     configured t' = (configured t)(b \<mapsto> c) \<Longrightarrow> served P t'"
  by (auto simp: served_def)

lemma served_builders:
  assumes "served P t" "\<forall>b\<in>set bs. pg_text (br_Name b) \<and> (br_IsActive b \<longrightarrow> br_Name b \<in> dom (configured t))"
  shows "served P (t\<lparr>builders := bs\<rparr>)"
  using assms by (simp add: served_def configured_def active_configs_def)

lemma served_measurements:
  "served P t \<Longrightarrow> \<forall>m\<in>set ms. pg_text (mr_Name m) \<Longrightarrow> served P (t\<lparr>measurements_whitelist := ms\<rparr>)"
  by (simp add: served_def configured_def active_configs_def)

lemma served_Register: "preserves (served P) (RegisterCredentialsForBuilder b s cert pk mn ty reg)"
proof (rule preservesI)
  fix d :: db assume ok: "served P (tabs d)"
  obtain e d' where r: "RegisterCredentialsForBuilder b s cert pk mn ty reg d = (e, d')" by fastforce
  show "served P (tabs (snd (RegisterCredentialsForBuilder b s cert pk mn ty reg d)))"
    unfolding r by (cases rule: RegisterCredentialsForBuilder_cases [OF r])
      (use ok in \<open>simp_all add: replace_creds_def\<close>)
qed

lemma served_AddBuilderConfig: "preserves (served P) (AddBuilderConfig x b cfg)"
proof (rule preservesI)
  fix d :: db assume ok: "served P (tabs d)"
  obtain e d' where r: "AddBuilderConfig x b cfg d = (e, d')" by fastforce
  show "served P (tabs (snd (AddBuilderConfig x b cfg d)))"
    unfolding r
  proof (cases rule: AddBuilderConfig_cases [OF r])
    case (2 row)
    then show "served P (tabs (snd (e, d')))"
      by (intro served_configs [OF ok]) (auto simp: configured_replace, simp_all add: replace_config_def)
  qed (simp add: ok)
qed

lemma served_LogEvent: "preserves (served P) (LogEvent ev b n)"
proof -
  have "preserves (served P) (insert_event ev b n)"
  proof (rule preservesI)
    fix d :: db assume "served P (tabs d)"
    then show "served P (tabs (snd (insert_event ev b n d)))"
      by (auto simp: insert_event_def Let_def split: sum.splits)
  qed
  then show ?thesis unfolding LogEvent_def by (intro preserves_intros)
qed

lemma served_AddMeasurement: "preserves (served P) (AddMeasurement x m en)"
proof -
  have "preserves (served P) (insert_measurement x n ty bts en)" if "pg_text n" for n ty bts
  proof (rule preservesI)
    fix d :: db assume "served P (tabs d)"
    with that show "served P (tabs (snd (insert_measurement x n ty bts en d)))"
      by (auto simp: insert_measurement_def Let_def split: option.splits intro!: served_measurements)
         (auto simp: served_def)
  qed
  then show ?thesis unfolding AddMeasurement_def by (intro preserves_intros) simp
qed

lemma served_ChangeMeasurement: "preserves (served P) (ChangeActiveStatusForMeasurement n a)"
proof -
  have "preserves (served P) (update_measurement_active a n)"
  proof (rule preservesI)
    fix d :: db assume "served P (tabs d)"
    then show "served P (tabs (snd (update_measurement_active a n d)))"
      by (auto simp: update_measurement_active_def intro!: served_measurements) (auto simp: served_def)
  qed
  then show ?thesis unfolding ChangeActiveStatusForMeasurement_def by (intro preserves_intros)
qed

lemma served_AddBuilder:
  assumes "\<not> B_IsActive b"
  shows "preserves (served P) (AddBuilder x b)"
proof (rule preservesI)
  fix d :: db assume ok: "served P (tabs d)"
  have ins: "preserves (served P) (insert_builder (B_Name b) ip False nw dns)" if "pg_text (B_Name b)" for ip nw dns
  proof (rule preservesI)
    fix d :: db assume "served P (tabs d)"
    with that show "served P (tabs (snd (insert_builder (B_Name b) ip False nw dns d)))"
      by (auto simp: insert_builder_def split: option.splits intro!: served_builders) (auto simp: served_def)
  qed
  have "preserves (served P) (exec (checked [B_Name b, B_Network b, B_DNSName b] (insert_builder (B_Name b) ip False nw dns)))"
    for ip nw dns by (intro preserves_intros ins) simp
  then show "served P (tabs (snd (AddBuilder x b d)))"
    using assms ok by (cases "inet_value x (B_IPAddress b)") (simp_all add: AddBuilder_def preservesD)
qed

lemma served_ChangeBuilder:
  assumes "a \<Longrightarrow> name \<in> P"
  shows "preserves (served P) (ChangeActiveStatusForBuilder name a)"
proof -
  have "preserves (served P) (update_builder_active a name)"
  proof (rule preservesI)
    fix d :: db assume ok: "served P (tabs d)"
    then have "a \<Longrightarrow> name \<in> dom (configured (tabs d))" using assms by (auto simp: served_def)
    with ok show "served P (tabs (snd (update_builder_active a name d)))"
      by (auto simp: update_builder_active_def intro!: served_builders) (auto simp: served_def)
  qed
  then show ?thesis unfolding ChangeActiveStatusForBuilder_def by (intro preserves_intros)
qed

lemma checked_configured:
  assumes "GetActiveConfigForBuilder name d = (Inr c, d')"
  shows "name \<in> dom (configured (tabs d))"
proof -
  let ?f = "\<lambda>d. permute (db_seed d) (filter (\<lambda>c. cr_BuilderName c = name \<and> cr_IsActive c) (builder_configs (tabs d)))"
  show ?thesis
  proof (cases rule: query_cases [of "[name]" ?f d])
    case (rows fs)
    then have "?f (d\<lparr>db_faults := fs\<rparr>) \<noteq> []"
      using assms by (auto simp: GetActiveConfigForBuilder_def first_row_def)
    then have "filter (\<lambda>c. cr_BuilderName c = name \<and> cr_IsActive c) (builder_configs (tabs d)) \<noteq> []" by simp
    then obtain row where "row \<in> set (active_configs (tabs d))" "cr_BuilderName row = name"
      by (auto simp: filter_empty_conv active_configs_def)
    then show ?thesis by (auto simp: configured_def dom_map_of_conv_image_fst image_iff)
  qed (use assms in \<open>auto simp: GetActiveConfigForBuilder_def first_row_def\<close>)
qed

section \<open>Interleaved operations\<close>

text \<open>The state is the database and the builders that a pending activation was checked for.\<close>

inductive op_step :: "ext \<Rightarrow> db \<times> bytes set \<Rightarrow> db \<times> bytes set \<Rightarrow> bool" for x where
  Op_Read: "tabs d' = tabs d \<Longrightarrow> op_step x (d, P) (d', P)"
| Op_Check: "GetActiveConfigForBuilder n d = (Inr c, d') \<Longrightarrow> op_step x (d, P) (d', insert n P)"
| Op_Register: "op_step x (d, P) (snd (RegisterCredentialsForBuilder b s cert pk mn ty reg d), P)"
| Op_LogEvent: "op_step x (d, P) (snd (LogEvent ev b n d), P)"
| Op_Config: "op_step x (d, P) (snd (AddBuilderConfig x b cfg d), P)"
| Op_AddMeasurement: "op_step x (d, P) (snd (AddMeasurement x m False d), P)"
| Op_AddBuilder: "\<not> B_IsActive bld \<Longrightarrow> op_step x (d, P) (snd (AddBuilder x bld d), P)"
| Op_Measurement: "op_step x (d, P) (snd (ChangeActiveStatusForMeasurement n a d), P)"
| Op_Deactivate: "op_step x (d, P) (snd (ChangeActiveStatusForBuilder n False d), P)"
| Op_Activate: "n \<in> P \<Longrightarrow> op_step x (d, P) (snd (ChangeActiveStatusForBuilder n True d), P)"

inductive_cases op_stepE: "op_step x z z'"

inductive op_reachable :: "ext \<Rightarrow> db \<times> bytes set \<Rightarrow> bool" for x where
  Op_Init: "tabs d = empty_tables \<Longrightarrow> op_reachable x (d, {})"
| Op_Next: "op_reachable x z \<Longrightarrow> op_step x z z' \<Longrightarrow> op_reachable x z'"

lemma served_insert: "served P t \<Longrightarrow> n \<in> dom (configured t) \<Longrightarrow> served (insert n P) t"
  by (auto simp: served_def)

lemmas served_ops = served_Register served_AddBuilderConfig served_LogEvent served_AddMeasurement
  served_ChangeMeasurement served_AddBuilder served_ChangeBuilder

lemma op_step_tables_ok: "op_step x z z' \<Longrightarrow> tables_ok (tabs (fst z)) \<Longrightarrow> tables_ok (tabs (fst z'))"
proof (erule op_stepE, goal_cases)
  case (2 n d c d' P)
  then have "tabs d' = tabs d" using tabs_GetActiveConfigForBuilder [of n d] by (metis snd_conv)
  with 2 show ?case by simp
qed (simp_all add: service_keeps [THEN keepsD])

lemma op_step_served: "op_step x z z' \<Longrightarrow> served (snd z) (tabs (fst z)) \<Longrightarrow> served (snd z') (tabs (fst z'))"
proof (erule op_stepE, goal_cases)
  case (2 n d c d' P)
  then have "tabs d' = tabs d" using tabs_GetActiveConfigForBuilder [of n d] by (metis snd_conv)
  with 2 checked_configured [of n d c d'] show ?case by (simp add: served_insert)
qed (simp_all add: served_ops [THEN preservesD])

lemma op_reachable_inv: "op_reachable x z \<Longrightarrow> tables_ok (tabs (fst z)) \<and> served (snd z) (tabs (fst z))"
proof (induction rule: op_reachable.induct)
  case (Op_Init d)
  then show ?case by (simp add: tables_ok_empty) (simp add: served_def empty_tables_def)
qed (simp add: op_step_tables_ok op_step_served)

lemma op_reachable_steps: "(op_step x)\<^sup>*\<^sup>* z z' \<Longrightarrow> op_reachable x z \<Longrightarrow> op_reachable x z'"
  by (induction rule: rtranclp_induct) (auto intro: Op_Next)

section \<open>A request is a sequence of operations\<close>

lemma steps_read: "tabs d' = tabs d \<Longrightarrow> (op_step x)\<^sup>*\<^sup>* (d, P) (d', P)"
  by (rule r_into_rtranclp) (rule Op_Read)

lemma steps_after_read: "tabs d1 = tabs d \<Longrightarrow> op_step x (d1, P) z \<Longrightarrow> (op_step x)\<^sup>*\<^sup>* (d, P) z"
  by (meson steps_read rtranclp.rtrancl_into_rtrancl)

definition db_admin :: "ext \<Rightarrow> 's AdminSecretService \<Rightarrow> (db, 's) AdminHandler" where
  "db_admin x sec = NewAdminHandler (database_admin x) sec"

lemma db_admin_simps [simp]:
  "builderService (db_admin x sec) = database_admin x" "secretService (db_admin x sec) = sec"
  by (simp_all add: db_admin_def NewAdminHandler_def)

lemma database_admin_simps [simp]:
  "ab_GetActiveConfigForBuilder (database_admin x) = GetActiveConfigForBuilder"
  "ab_AddMeasurement (database_admin x) = AddMeasurement x"
  "ab_AddBuilder (database_admin x) = AddBuilder x"
  "ab_ChangeActiveStatusForBuilder (database_admin x) = ChangeActiveStatusForBuilder"
  "ab_ChangeActiveStatusForMeasurement (database_admin x) = ChangeActiveStatusForMeasurement"
  "ab_AddBuilderConfig (database_admin x) = AddBuilderConfig x"
  by (simp_all add: database_admin_def)

text \<open>What a handler does to the database: \<open>runs x H\<close>.\<close>

definition runs :: "ext \<Rightarrow> (db \<times> 's) Handler \<Rightarrow> bool" where
  "runs x H \<longleftrightarrow> (\<forall>r w h P. tables_ok (tabs (fst h)) \<longrightarrow> (\<exists>P'. (op_step x)\<^sup>*\<^sup>* (fst h, P) (fst (snd (snd (H r w h))), P')))"

lemma runs_read: "(\<And>r w h. tabs (fst (snd (snd (H r w h)))) = tabs (fst h)) \<Longrightarrow> runs x H"
  unfolding runs_def by (blast intro: steps_read)

lemma finish_state: "fst (snd (snd (finish w s e))) = snd e"
  by (auto simp: finish_def split: prod.splits option.splits)

lemma tabs_write_builders: "tabs (fst (snd (snd (write_builders x (db_handler x sa) nw r w h)))) = tabs (fst h)"
  using hc.write_builders_keeps [OF db_handler_service] by (metis prod.collapse)

lemma tabs_GetAllowed: "tabs (fst (snd (snd (h_GetAllowedMeasurements (db_handler x sa) r w h)))) = tabs (fst h)"
proof -
  obtain ms h1 where m: "bh_GetAllowedMeasurements (hub_service (NewBuilderHub (database_accessor x) sa)) h = (ms, h1)"
    by (metis prod.exhaust)
  with hc.measurements_keep [OF m] show ?thesis
    by (auto simp: h_GetAllowedMeasurements_def Let_def split: sum.splits simp del: hub_service_simps)
qed

lemma tabs_h_GetActiveBuilders: "tabs (fst (snd (snd (h_GetActiveBuilders x (db_handler x sa) r w h)))) = tabs (fst h)"
proof (cases "getAuthData r")
  case (Inr auth)
  obtain v h1 where v: "verify (hub_service (NewBuilderHub (database_accessor x) sa)) r auth h = (v, h1)"
    by (metis prod.exhaust)
  note keep = hc.verify_keeps [OF v]
  show ?thesis
  proof (cases v)
    case (Inl e)
    with v keep \<open>getAuthData r = Inr auth\<close> show ?thesis
      by (simp add: h_GetActiveBuilders_def del: hub_service_simps)
  next
    case (Inr bn)
    then obtain b n where "v = Inr (b, n)" by (cases bn) auto
    with v keep \<open>getAuthData r = Inr auth\<close> tabs_write_builders [of x sa "B_Network b" r w h1] show ?thesis
      by (simp add: h_GetActiveBuilders_def del: hub_service_simps)
  qed
qed (simp add: h_GetActiveBuilders_def)

lemma GetConfigSecrets_state:
  "let h' = snd (snd (h_GetConfigSecrets (db_handler x sa) r w h)) in
     tabs (fst h') = tabs (fst h) \<or>
     (\<exists>b n d2. tabs d2 = tabs (fst h) \<and> fst h' = snd (LogEvent EventGetConfig b n d2))"
proof (cases "getAuthData r")
  case (Inr auth)
  let ?svc = "hub_service (NewBuilderHub (database_accessor x) sa)"
  obtain v h1 where v: "verify ?svc r auth h = (v, h1)" by (metis prod.exhaust)
  note keep = hc.verify_keeps [OF v]
  show ?thesis
  proof (cases v)
    case (Inl e)
    with v keep Inr show ?thesis by (simp add: h_GetConfigSecrets_def del: hub_service_simps)
  next
    case v': (Inr bn)
    obtain b n where bn: "bn = (b, n)" by (cases bn)
    obtain c h2 where c: "bh_GetConfigWithSecrets ?svc (B_Name b) h1 = (c, h2)" by (metis prod.exhaust)
    note keep2 = hc.config_keeps [OF c]
    obtain e h3 where e: "bh_LogEvent ?svc EventGetConfig (B_Name b) n h2 = (e, h3)" by (metis prod.exhaust)
    then have "fst h3 = snd (LogEvent EventGetConfig (B_Name b) n (fst h2))"
      by (simp add: on_data_eq hub_LogEvent_def database_accessor_def)
    moreover have "snd (snd (h_GetConfigSecrets (db_handler x sa) r w h)) \<in> {h2, h3}"
      using Inr v v' bn c e
      by (simp add: h_GetConfigSecrets_def split: outcome.splits sum.splits option.splits del: hub_service_simps)
    ultimately show ?thesis using keep keep2 by (auto simp: Let_def)
  qed
qed (simp add: h_GetConfigSecrets_def)

text \<open>When the request panics, nothing has been written and the tables are as before.\<close>

lemma GetConfigSecrets_panic:
  assumes "h_GetConfigSecrets (db_handler x sa) r w h = (w', Some p, h')"
  shows "w' = w \<and> tabs (fst h') = tabs (fst h)"
proof -
  let ?svc = "hub_service (NewBuilderHub (database_accessor x) sa)"
  obtain auth where auth: "getAuthData r = Inr auth"
    using assms by (cases "getAuthData r") (simp_all add: h_GetConfigSecrets_def)
  obtain v h1 where v: "verify ?svc r auth h = (v, h1)" by (metis prod.exhaust)
  note keep = hc.verify_keeps [OF v]
  show ?thesis
  proof (cases v)
    case (Inl e)
    with assms v keep auth show ?thesis
      by (auto simp: h_GetConfigSecrets_def split: if_splits simp del: hub_service_simps)
  next
    case v': (Inr bn)
    obtain b n where bn: "bn = (b, n)" by (cases bn)
    obtain c h2 where c: "bh_GetConfigWithSecrets ?svc (B_Name b) h1 = (c, h2)" by (metis prod.exhaust)
    with assms v v' bn auth keep hc.config_keeps [OF c] show ?thesis
      by (auto simp: h_GetConfigSecrets_def split: outcome.splits sum.splits option.splits prod.splits simp del: hub_service_simps)
  qed
qed

lemma runs_GetConfigSecrets: "runs x (h_GetConfigSecrets (db_handler x sa))"
  unfolding runs_def
proof (intro allI impI)
  fix r w and h :: "db \<times> 'a" and P
  let ?h' = "snd (snd (h_GetConfigSecrets (db_handler x sa) r w h))"
  have "tabs (fst ?h') = tabs (fst h) \<or>
      (\<exists>b n d2. tabs d2 = tabs (fst h) \<and> fst ?h' = snd (LogEvent EventGetConfig b n d2))"
    using GetConfigSecrets_state [of x sa r w h] by (simp add: Let_def)
  then show "\<exists>P'. (op_step x)\<^sup>*\<^sup>* (fst h, P) (fst ?h', P')"
    by (metis steps_read steps_after_read Op_LogEvent)
qed

lemma register_body_state:
  "snd (snd (register_body x bhs auth b n r w h)) = h \<or> (\<exists>s cert pk reg. snd (snd (register_body x bhs auth b n r w h)) =
     snd (bh_RegisterCredentialsForBuilder (builderHubService bhs) (B_Name b) s cert pk n (AD_AttestationType auth) reg h))"
proof (cases "ReadAll r")
  case (Inr body)
  show ?thesis
  proof (cases "Unmarshal (dec_cred x) body zero_cred")
    case sc: (Inr sc)
    obtain e h1 where "bh_RegisterCredentialsForBuilder (builderHubService bhs) (B_Name b) (URLParam r ''service'') (C_TLSCert sc)
        (case C_ECDSAPubkey sc of None \<Rightarrow> [] | Some a \<Rightarrow> a) n (AD_AttestationType auth) (C_Region sc) h = (e, h1)"
      by (metis prod.exhaust)
    note e = this this [THEN arg_cong [where f = snd], unfolded snd_conv, symmetric]
    have "snd (snd (register_body x bhs auth b n r w h)) \<in> {h, h1}"
      using Inr sc e(1) by (simp add: register_body_def Let_def split: option.split)
    then show ?thesis unfolding e(2) by blast
  qed (use Inr in \<open>simp add: register_body_def Let_def\<close>)
qed (simp add: register_body_def Let_def)

lemma snd_on_data: "snd (on_data f h) = (snd (f (fst h)), snd h)"
  by (simp add: on_data_def split: prod.split)

lemma RegisterCredentials_state:
  "let h' = snd (snd (h_RegisterCredentials x (db_handler x sa) r w h)) in
     tabs (fst h') = tabs (fst h) \<or>
     (\<exists>b s cert pk n ty reg d1. tabs d1 = tabs (fst h) \<and>
        fst h' = snd (RegisterCredentialsForBuilder b s cert pk n ty reg d1))"
proof (cases "getAuthData r")
  case (Inr auth)
  let ?svc = "hub_service (NewBuilderHub (database_accessor x) sa)"
  obtain v h1 where v: "verify ?svc r auth h = (v, h1)" by (metis prod.exhaust)
  note keep = hc.verify_keeps [OF v]
  show ?thesis
  proof (cases v)
    case (Inl e)
    with v keep Inr show ?thesis by (simp add: h_RegisterCredentials_def del: hub_service_simps)
  next
    case v': (Inr bn)
    obtain b n where bn: "bn = (b, n)" by (cases bn)
    let ?z = "snd (snd (register_body x (db_handler x sa) auth b n r w h1))"
    have "snd (snd (h_RegisterCredentials x (db_handler x sa) r w h)) = ?z"
      using Inr v v' bn by (simp add: h_RegisterCredentials_def del: hub_service_simps)
    moreover have "?z = h1 \<or> (\<exists>s cert pk reg. fst ?z =
        snd (RegisterCredentialsForBuilder (B_Name b) s cert pk n (AD_AttestationType auth) reg (fst h1)))"
      using register_body_state [of x "db_handler x sa" auth b n r w h1]
      by (auto simp: hub_RegisterCredentialsForBuilder_def database_accessor_def snd_on_data) blast
    ultimately show ?thesis using keep unfolding Let_def by metis
  qed
qed (simp add: h_RegisterCredentials_def)

lemma runs_RegisterCredentials: "runs x (h_RegisterCredentials x (db_handler x sa))"
  unfolding runs_def
proof (intro allI impI)
  fix r w and h :: "db \<times> 'a" and P
  show "\<exists>P'. (op_step x)\<^sup>*\<^sup>* (fst h, P) (fst (snd (snd (h_RegisterCredentials x (db_handler x sa) r w h))), P')"
    using RegisterCredentials_state [of x sa r w h] unfolding Let_def
    by (metis steps_read steps_after_read Op_Register)
qed

lemma runs_AddMeasurement: "runs x (admin_AddMeasurement x (db_admin x sec))"
  unfolding runs_def admin_AddMeasurement_def
  by (auto simp: finish_state split: sum.splits intro: Op_AddMeasurement r_into_rtranclp)

lemma toDomainBuilder_inactive: "toDomainBuilder pb False = Inr b \<Longrightarrow> \<not> B_IsActive b"
  by (auto simp: toDomainBuilder_def split: option.splits)

lemma steps_one: "op_step x (d, P) (d', P) \<Longrightarrow> \<exists>P'. (op_step x)\<^sup>*\<^sup>* (d, P) (d', P')"
  by blast

lemma runs_AddBuilder: "runs x (admin_AddBuilder x (db_admin x sec))"
  unfolding runs_def admin_AddBuilder_def
  by (auto simp: finish_state split: sum.splits dest: toDomainBuilder_inactive intro: steps_one Op_AddBuilder)

lemma runs_AddBuilderConfig: "runs x (admin_AddBuilderConfig x (db_admin x sec))"
  unfolding runs_def admin_AddBuilderConfig_def
  by (auto simp: finish_state split: sum.splits intro: Op_Config r_into_rtranclp)

lemma runs_ChangeMeasurement: "runs x (admin_ChangeActiveStatusForMeasurement x (db_admin x sec))"
  unfolding runs_def admin_ChangeActiveStatusForMeasurement_def
  by (auto simp: finish_state split: sum.splits intro: Op_Measurement r_into_rtranclp)

lemma tabs_config_read: "GetActiveConfigForBuilder n d = (c, d') \<Longrightarrow> tabs d' = tabs d"
  using tabs_GetActiveConfigForBuilder [of n d] by (metis snd_conv)

lemma runs_ChangeBuilder: "runs x (admin_ChangeActiveStatusForBuilder x (db_admin x sec))"
  unfolding runs_def
proof (intro allI impI)
  fix r w and h :: "db \<times> 'a" and P
  let ?H = "admin_ChangeActiveStatusForBuilder x (db_admin x sec)" and ?n = "URLParam r ''builderName''"
  obtain c d1 where c: "GetActiveConfigForBuilder ?n (fst h) = (c, d1)" by (metis prod.exhaust)
  show "\<exists>P'. (op_step x)\<^sup>*\<^sup>* (fst h, P) (fst (snd (snd (?H r w h))), P')"
  proof (cases "decode_activation r")
    case (Inr a)
    show ?thesis
    proof (cases "Enabled a")
      case False
      with Inr show ?thesis
        by (auto simp: admin_ChangeActiveStatusForBuilder_def finish_state intro: steps_one Op_Deactivate)
    next
      case True
      show ?thesis
      proof (cases c)
        case (Inl e)
        with Inr True c tabs_config_read [OF c] show ?thesis
          by (auto simp: admin_ChangeActiveStatusForBuilder_def intro: steps_read)
      next
        case c': (Inr cfg)
        with Inr True c have "fst (snd (snd (?H r w h))) = snd (ChangeActiveStatusForBuilder ?n True d1)"
          by (simp add: admin_ChangeActiveStatusForBuilder_def finish_state)
        moreover have "op_step x (fst h, P) (d1, insert ?n P)"
          by (rule Op_Check) (use c c' in simp)
        moreover have "op_step x (d1, insert ?n P) (snd (ChangeActiveStatusForBuilder ?n True d1), insert ?n P)"
          by (rule Op_Activate) simp
        ultimately show ?thesis
          by (intro exI [of _ "insert ?n P"]) (simp add: converse_rtranclp_into_rtranclp r_into_rtranclp)
      qed
    qed
  qed (auto simp: admin_ChangeActiveStatusForBuilder_def)
qed

lemma runs_SetSecrets: "runs x (admin_SetSecrets (db_admin x sec))"
  by (rule runs_read) (auto simp: admin_SetSecrets_def split: sum.splits prod.splits outcome.splits option.splits)

lemma runs_GetActiveConfig: "runs x (admin_GetActiveConfigForBuilder (db_admin x sec))"
  by (rule runs_read) (auto simp: admin_GetActiveConfigForBuilder_def split: sum.splits prod.splits dest: tabs_config_read)

lemma runs_GetFullConfig: "runs x (admin_GetFullConfigForBuilder (db_admin x sec))"
  by (rule runs_read) (auto simp: admin_GetFullConfigForBuilder_def Let_def
      split: sum.splits prod.splits outcome.splits dest: tabs_config_read)

text \<open>All handlers of the service, on one database and one secret store.\<close>

definition system_handlers :: "ext \<Rightarrow> 's AdminSecretService \<Rightarrow> (db \<times> 's) Handler list" where
  "system_handlers x sec =
     (let bhs = db_handler x (SecretAccessor.truncate sec); a = db_admin x sec in
      [h_GetAllowedMeasurements bhs, h_GetActiveBuilders x bhs, h_GetActiveBuildersNoAuth x bhs,
       h_GetActiveBuildersNoAuthNetworked x bhs, h_GetConfigSecrets bhs, h_RegisterCredentials x bhs,
       admin_GetActiveConfigForBuilder a, admin_GetFullConfigForBuilder a, admin_AddMeasurement x a,
       admin_AddBuilder x a, admin_ChangeActiveStatusForBuilder x a,
       admin_ChangeActiveStatusForMeasurement x a, admin_AddBuilderConfig x a, admin_SetSecrets a])"

lemma runs_listings:
  "runs x (h_GetAllowedMeasurements (db_handler x sa))" "runs x (h_GetActiveBuilders x (db_handler x sa))"
  "runs x (h_GetActiveBuildersNoAuth x (db_handler x sa))"
  "runs x (h_GetActiveBuildersNoAuthNetworked x (db_handler x sa))"
  by (rule runs_read; simp add: tabs_GetAllowed tabs_h_GetActiveBuilders h_GetActiveBuildersNoAuth_def
      h_GetActiveBuildersNoAuthNetworked_def tabs_write_builders Let_def)+

lemmas runs_all = runs_listings runs_GetConfigSecrets runs_RegisterCredentials runs_GetActiveConfig
  runs_GetFullConfig runs_AddMeasurement runs_AddBuilder runs_ChangeBuilder runs_ChangeMeasurement
  runs_AddBuilderConfig runs_SetSecrets

lemma system_handlers_run: "H \<in> set (system_handlers x sec) \<Longrightarrow> runs x H"
  by (auto simp: system_handlers_def Let_def runs_all)

section \<open>Properties\<close>

text \<open>C4: Whatever requests run, and however the database operations of concurrent requests
  interleave, in every reachable database an active builder has exactly one active
  configuration; in particular the gap between the check and the update of an activation, in
  which other requests may run, cannot leave an active builder without a configuration.\<close>

theorem active_builders_configured:
  assumes "op_reachable x (d, P)" "b \<in> set (builders (tabs d))" "br_IsActive b"
  shows "\<exists>!c. c \<in> set (builder_configs (tabs d)) \<and> cr_BuilderName c = br_Name b \<and> cr_IsActive c"
proof -
  have inv: "tables_ok (tabs d)" "served P (tabs d)" using op_reachable_inv [OF assms(1)] by simp_all
  then have "br_Name b \<in> dom (configured (tabs d))" using assms(2,3) by (auto simp: served_def)
  then obtain c where c: "c \<in> set (active_configs (tabs d))" "cr_BuilderName c = br_Name b"
    by (auto simp: configured_def dom_map_of_conv_image_fst)
  have "distinct (map cr_BuilderName (active_configs (tabs d)))"
    using inv(1) by (simp add: tables_ok_def schema_ok_def)
  then have uniq: "c' = c" if "c' \<in> set (active_configs (tabs d))" "cr_BuilderName c' = br_Name b" for c'
    using that c by (metis distinct_map inj_onD)
  have act: "c' \<in> set (active_configs (tabs d)) \<longleftrightarrow> c' \<in> set (builder_configs (tabs d)) \<and> cr_IsActive c'" for c'
    by (auto simp: active_configs_def)
  show ?thesis
  proof (rule ex1I)
    show "c \<in> set (builder_configs (tabs d)) \<and> cr_BuilderName c = br_Name b \<and> cr_IsActive c"
      using c act [of c] by blast
    show "c' = c" if "c' \<in> set (builder_configs (tabs d)) \<and> cr_BuilderName c' = br_Name b \<and> cr_IsActive c'" for c'
      using uniq [of c'] act [of c'] that by blast
  qed
qed

lemma sample_db_op_reachable: "op_reachable sample_ext (sample_db, {''alpha''})"
proof -
  let ?d1 = "snd (AddBuilder sample_ext sample_builder sample_db0)"
  let ?d2 = "snd (AddMeasurement sample_ext sample_measurement False ?d1)"
  let ?d3 = "snd (AddBuilderConfig sample_ext ''alpha'' ''{}'' ?d2)"
  let ?d4 = "snd (ChangeActiveStatusForBuilder ''alpha'' True ?d3)"
  have "op_reachable sample_ext (sample_db0, {})" by (rule Op_Init) (simp add: sample_db0_def)
  then have "op_reachable sample_ext (?d1, {})"
    by (rule Op_Next) (rule Op_AddBuilder, simp add: sample_builder_def)
  then have "op_reachable sample_ext (?d2, {})" by (rule Op_Next) (rule Op_AddMeasurement)
  then have d3: "op_reachable sample_ext (?d3, {})" by (rule Op_Next) (rule Op_Config)
  have "case fst (GetActiveConfigForBuilder ''alpha'' ?d3) of Inl _ \<Rightarrow> False | Inr c \<Rightarrow> True" by code_simp
  then obtain c where "GetActiveConfigForBuilder ''alpha'' ?d3 = (Inr c, snd (GetActiveConfigForBuilder ''alpha'' ?d3))"
    by (metis prod.collapse sum.case_eq_if sum.collapse(2))
  then have "op_step sample_ext (?d3, {}) (snd (GetActiveConfigForBuilder ''alpha'' ?d3), {''alpha''})" by (rule Op_Check)
  with d3 have "op_reachable sample_ext (snd (GetActiveConfigForBuilder ''alpha'' ?d3), {''alpha''})" by (rule Op_Next)
  then have "op_reachable sample_ext (?d3, {''alpha''})"
    by (rule Op_Next) (rule Op_Read, rule tabs_GetActiveConfigForBuilder [symmetric])
  then have "op_reachable sample_ext (?d4, {''alpha''})" by (rule Op_Next) (rule Op_Activate, simp)
  then have "op_reachable sample_ext (snd (ChangeActiveStatusForMeasurement ''m1'' True ?d4), {''alpha''})"
    by (rule Op_Next) (rule Op_Measurement)
  then show ?thesis unfolding sample_db_def by (rule Op_Next) (rule Op_Register)
qed

theorem active_builders_configured_witness:
  "\<exists>!c. c \<in> set (builder_configs (tabs sample_db)) \<and> cr_BuilderName c = ''alpha'' \<and> cr_IsActive c"
proof -
  have "list_ex (\<lambda>b. br_IsActive b \<and> br_Name b = ''alpha'') (builders (tabs sample_db))" by code_simp
  then obtain b where "b \<in> set (builders (tabs sample_db))" "br_IsActive b" "br_Name b = ''alpha''"
    by (auto simp: list_ex_iff)
  with active_builders_configured [OF sample_db_op_reachable this(1,2)] show ?thesis by simp
qed

text \<open>C5: Every handler of the service, on every request, is a finite sequence of the database
  operations of the step relation: run from a reachable database it ends in a reachable one,
  and no handler activates a builder that it has not found a configuration for.\<close>

theorem handlers_refine_operations:
  assumes "op_reachable x (fst h, P)" "H \<in> set (system_handlers x sec)" "H r w h = (w', p, h')"
  shows "\<exists>P'. (op_step x)\<^sup>*\<^sup>* (fst h, P) (fst h', P') \<and> op_reachable x (fst h', P')"
proof -
  have "tables_ok (tabs (fst h))" using op_reachable_inv [OF assms(1)] by simp
  then obtain P' where "(op_step x)\<^sup>*\<^sup>* (fst h, P) (fst h', P')"
    using system_handlers_run [OF assms(2)] assms(3) unfolding runs_def by (metis snd_conv)
  then show ?thesis using op_reachable_steps assms(1) by blast
qed

theorem handlers_refine_operations_witness:
  "\<exists>P'. op_reachable sample_ext (fst (snd (snd (admin_ChangeActiveStatusForBuilder sample_ext
     (db_admin sample_ext inmem_service) sample_request NewResponse sample_state))), P')"
proof -
  let ?H = "admin_ChangeActiveStatusForBuilder sample_ext (db_admin sample_ext inmem_service)"
  have "op_reachable sample_ext (fst sample_state, {''alpha''})"
    by (simp add: sample_state_def sample_db_op_reachable)
  moreover have "?H \<in> set (system_handlers sample_ext inmem_service)"
    by (simp add: system_handlers_def Let_def)
  moreover have "?H sample_request NewResponse sample_state = (fst (?H sample_request NewResponse sample_state),
      fst (snd (?H sample_request NewResponse sample_state)), snd (snd (?H sample_request NewResponse sample_state)))"
    by simp
  ultimately show ?thesis
    using handlers_refine_operations [of sample_ext sample_state "{''alpha''}" ?H] by blast
qed

end
