(* ===== verification/Hub_Flows.thy ===== *)
theory Hub_Flows
  imports Hub_System
begin

text \<open>
  Claims that span the admin handlers, the hub handlers, the database and the secret store:
  what an admin adds is not trusted before it is activated, what an activation does on every
  branch, that an authentic builder is served, and that it is served the secrets the admin set
  for it and no others.
\<close>

section \<open>Who is trusted\<close>

text \<open>Authentication sees only the active rows.\<close>

definition trusted :: "tables \<Rightarrow> dbBuilder list \<times> dbMeasurement list" where
  "trusted t = (filter br_IsActive (builders t), filter mr_IsActive (measurements_whitelist t))"

lemma db_authentic_trusted:
  assumes "trusted (tabs (fst h')) = trusted (tabs (fst h))"
  shows "db_authentic x h' = db_authentic x h"
proof -
  have f: "filter br_IsActive (builders (tabs (fst h'))) = filter br_IsActive (builders (tabs (fst h)))"
    "filter mr_IsActive (measurements_whitelist (tabs (fst h'))) = filter mr_IsActive (measurements_whitelist (tabs (fst h)))"
    using assms by (simp_all add: trusted_def)
  have "r \<in> set (builders (tabs (fst h'))) \<and> br_IsActive r \<longleftrightarrow> r \<in> set (builders (tabs (fst h))) \<and> br_IsActive r" for r
    using arg_cong [OF f(1), of set] by auto
  moreover have "r \<in> set (measurements_whitelist (tabs (fst h'))) \<and> mr_IsActive r \<longleftrightarrow>
      r \<in> set (measurements_whitelist (tabs (fst h))) \<and> mr_IsActive r" for r
    using arg_cong [OF f(2), of set] by auto
  ultimately show ?thesis
    unfolding db_authentic_def db_builder_at_def db_allowed_def fun_eq_iff Bex_def by metis
qed

lemma trusted_AddBuilder:
  assumes "\<not> B_IsActive b"
  shows "trusted (tabs (snd (AddBuilder x b d))) = trusted (tabs d)"
proof -
  have "preserves (\<lambda>t. trusted t = v) (insert_builder n ip False nw dns)" for v n ip nw dns
    by (rule preservesI) (auto simp: insert_builder_def trusted_def split: option.splits)
  then have "preserves (\<lambda>t. trusted t = v) (exec (checked ps (insert_builder n ip False nw dns)))" for v ps n ip nw dns
    by (intro preserves_intros)
  from preservesD [OF this refl, where d = d] assms show ?thesis
    by (cases "inet_value x (B_IPAddress b)") (simp_all add: AddBuilder_def)
qed

lemma trusted_AddMeasurement: "trusted (tabs (snd (AddMeasurement x m False d))) = trusted (tabs d)"
proof -
  have "preserves (\<lambda>t. trusted t = v) (insert_measurement x n ty bts False)" for v n ty bts
    by (rule preservesI) (auto simp: insert_measurement_def Let_def trusted_def split: option.splits)
  then have "preserves (\<lambda>t. trusted t = v) (AddMeasurement x m False)" for v
    unfolding AddMeasurement_def by (intro preserves_intros)
  from preservesD [OF this refl] show ?thesis .
qed

lemma trusted_AddBuilderConfig: "trusted (tabs (snd (AddBuilderConfig x b cfg d))) = trusted (tabs d)"
proof -
  obtain e d' where r: "AddBuilderConfig x b cfg d = (e, d')" by fastforce
  show ?thesis
    by (cases rule: AddBuilderConfig_cases [OF r]) (simp_all add: r, simp add: trusted_def replace_config_def)
qed

section \<open>A healthy database serves authentic requests\<close>

lemma insert_event_ok:
  assumes "tables_ok (tabs d)" "b \<in> set (builder_names (tabs d))"
  shows "\<exists>d'. insert_event ev b n d = (None, d')"
proof -
  obtain mid where "scalar_id (filter (\<lambda>m. mr_Name m = n) (measurements_whitelist (tabs d))) = Inr mid"
    using scalar_id_at_most_one [of "measurements_whitelist (tabs d)" n "\<lambda>_. True"] assms(1)
    by (auto simp: tables_ok_def schema_ok_def)
  moreover have "varchar255 b" using tables_okD(6) [OF assms(1)] assms(2) by blast
  ultimately show ?thesis using assms(2) by (simp add: insert_event_def Let_def)
qed

lemma LogEvent_ok:
  assumes "tables_ok (tabs d)" "b \<in> set (builder_names (tabs d))" "db_faults d = []"
    "pg_text ev" "pg_text b" "pg_text n"
  shows "\<exists>d'. LogEvent ev b n d = (None, d')"
  using insert_event_ok [OF assms(1,2), of ev n] assms(3-6)
  by (auto simp: LogEvent_def wrap_err_def exec_no_fault checked_def)

text \<open>Without failures a read leaves the database as it is.\<close>

lemma query_no_fault:
  assumes "db_faults d = []"
  obtains q where "query ps f d = (q, d)"
  using assms that by (simp add: query_def next_fault_def)

lemma measurements_no_fault:
  assumes "db_faults d = []"
  shows "\<exists>r. GetActiveMeasurementsByType ty d = (r, d)"
  by (rule query_no_fault [OF assms, of "[ty]" "select_measurements (\<lambda>m. mr_IsActive m \<and> mr_AttestationType m = ty)"])
     (auto simp: GetActiveMeasurementsByType_def split: sum.split)

lemma builder_no_fault:
  assumes "db_faults d = []"
  shows "\<exists>r. GetBuilderByIP x ip d = (r, d)"
proof (cases "inet_value x ip")
  case (Inr p)
  obtain q where "query [] (\<lambda>d. permute (db_seed d)
      (filter (\<lambda>b. Some (br_IPAddress b) = p \<and> br_IsActive b) (builders (tabs d)))) d = (q, d)"
    by (rule query_no_fault [OF assms])
  with Inr show ?thesis
    by (auto simp: GetBuilderByIP_def first_row_def split: sum.split list.split)
qed (simp add: GetBuilderByIP_def)

lemma Verify_no_faults:
  assumes "VerifyIPAndMeasurements (NewBuilderHub (database_accessor x) sa) k ip m ty d = (v, d')" "db_faults d = []"
  shows "d' = d"
proof -
  obtain r1 where r1: "GetActiveMeasurementsByType ty d = (r1, d)" using measurements_no_fault [OF assms(2)] by blast
  obtain r2 where r2: "GetBuilderByIP x ip d = (r2, d)" using builder_no_fault [OF assms(2)] by blast
  show ?thesis
    using assms(1) r1 r2 by (auto simp: VerifyIPAndMeasurements_def database_accessor_def split: sum.splits)
qed

lemma healthy_served:
  assumes "db_healthy x (fst h)" "served P (tabs (fst h))"
    and "getAuthData r = Inr auth" "pg_text (AD_AttestationType auth)" "inet_value x (AD_IP auth) = Inr (Some ip)"
    and "db_authentic x h auth b0 n0"
    and secrets: "\<And>b. \<exists>v s'. sa_GetSecretValues sa b (snd h) = (Ret (Inr v), s')"
  shows "\<exists>w' h'. h_GetConfigSecrets (db_handler x sa) r w h = (w', None, h') \<and> (rs_Status w = None \<longrightarrow> rs_Status w' = Some 200)"
proof -
  let ?hub = "NewBuilderHub (database_accessor x) sa"
  have ok: "tables_ok (tabs (fst h))" and nf: "db_faults (fst h) = []" using assms(1) by (simp_all add: db_healthy_def)
  obtain t where t: "db_allowed (fst h) (AD_AttestationType auth) t" "satisfies (AD_MeasurementData auth) t"
      "db_builder_at x (fst h) (AD_IP auth) b0"
    using assms(6) by (auto simp: db_authentic_def)
  have "\<exists>b n. fst (VerifyIPAndMeasurements ?hub (rq_Seed r) (AD_IP auth) (AD_MeasurementData auth)
      (AD_AttestationType auth) (fst h)) = Inr (b, n)"
    by (rule dbh.Verify_complete [OF assms(1) _ assms(4) _ t]) (simp_all add: assms(5))
  then obtain b n d1 where v: "VerifyIPAndMeasurements ?hub (rq_Seed r) (AD_IP auth) (AD_MeasurementData auth)
      (AD_AttestationType auth) (fst h) = (Inr (b, n), d1)"
    by (metis fst_conv surj_pair)
  have d1: "d1 = fst h" by (rule Verify_no_faults [OF v nf])
  have "db_authentic x h auth b n"
    using dbd.Verify_sound [OF ok _ v] by (simp add: db_authentic_def)
  then obtain row m where row: "row \<in> set (builders (tabs (fst h)))" "br_IsActive row" "br_Name row = B_Name b"
    and m: "m \<in> set (measurements_whitelist (tabs (fst h)))" "mr_Name m = n"
    by (metis db_authentic_rows)
  have names: "pg_text (B_Name b)" "pg_text n" "B_Name b \<in> dom (configured (tabs (fst h)))"
    using assms(2) row m by (auto simp: served_def)
  have c: "GetActiveConfigForBuilder (B_Name b) d1 = (Inr (the (configured (tabs (fst h)) (B_Name b))), d1)"
    using GetActiveConfigForBuilder_configured [OF ok nf names(1)] d1 names(3) by auto
  obtain v' s' where s: "sa_GetSecretValues sa (B_Name b) (snd h) = (Ret (Inr v'), s')" using secrets by blast
  have gc: "GetConfigWithSecrets ?hub (B_Name b) (d1, snd h) = (Ret (Inr v'), (d1, s'))"
    using c s by (simp add: GetConfigWithSecrets_def database_accessor_def)
  have "pg_text EventGetConfig" by code_simp
  moreover have "B_Name b \<in> set (builder_names (tabs d1))" using row d1 by (metis in_set_conv_nth length_map nth_map)
  ultimately obtain d2 where "LogEvent EventGetConfig (B_Name b) n d1 = (None, d2)"
    using LogEvent_ok [of d1 "B_Name b" EventGetConfig n] ok d1 nf names by blast
  then have "h_GetConfigSecrets (db_handler x sa) r w h = (Write v' w, None, (d2, s'))"
    using assms(3) v gc
    by (simp add: h_GetConfigSecrets_def on_data_def hub_LogEvent_def database_accessor_def)
  then show ?thesis by simp
qed

section \<open>Activation\<close>

lemma ChangeBuilder_no_fault:
  assumes "db_faults d = []" "pg_text n"
  shows "ChangeActiveStatusForBuilder n a d = update_builder_active a n d"
  using assms by (simp add: ChangeActiveStatusForBuilder_def exec_no_fault checked_def)

section \<open>Properties\<close>

text \<open>C10: Nothing an admin adds is trusted before it is activated: adding a builder, a measurement,
  a configuration or secrets, with any request and any failures, leaves the set of addresses and
  measurements that authenticate, and as which builder, exactly as it was.\<close>

theorem additions_not_trusted:
  assumes "H \<in> {admin_AddBuilder x (db_admin x sec), admin_AddMeasurement x (db_admin x sec),
      admin_AddBuilderConfig x (db_admin x sec), admin_SetSecrets (db_admin x sec)}"
    and "H r w h = (w', p, h')"
  shows "db_authentic x h' auth b n = db_authentic x h auth b n"
proof -
  have e1: "trusted (tabs (fst (snd (snd (admin_AddBuilder x (db_admin x sec) r w h))))) = trusted (tabs (fst h))"
    by (simp add: admin_AddBuilder_def finish_state split: sum.split) (simp add: trusted_AddBuilder toDomainBuilder_inactive)
  have e2: "trusted (tabs (fst (snd (snd (admin_AddMeasurement x (db_admin x sec) r w h))))) = trusted (tabs (fst h))"
    by (auto simp: admin_AddMeasurement_def finish_state trusted_AddMeasurement split: sum.splits)
  have e3: "trusted (tabs (fst (snd (snd (admin_AddBuilderConfig x (db_admin x sec) r w h))))) = trusted (tabs (fst h))"
    by (auto simp: admin_AddBuilderConfig_def finish_state trusted_AddBuilderConfig split: sum.splits)
  have e4: "fst (snd (snd (admin_SetSecrets (db_admin x sec) r w h))) = fst h"
    by (auto simp: admin_SetSecrets_def split: sum.splits prod.splits outcome.splits option.splits)
  have "trusted (tabs (fst (snd (snd (H r w h))))) = trusted (tabs (fst h))"
    using assms(1) unfolding insert_iff empty_iff by (elim disjE) (simp_all only: e1 e2 e3 e4)
  then have "trusted (tabs (fst h')) = trusted (tabs (fst h))" unfolding assms(2) snd_conv .
  from db_authentic_trusted [OF this, of x] show ?thesis by (simp only:)
qed

definition add_request :: request where
  "add_request = sample_request\<lparr>rq_Params := [(''builderName'', ''alpha'')],
     rq_Body := ''{\"name\":\"beta\",\"ip_address\":\"10.0.0.8\",\"network\":\"production\"}''\<rparr>"

theorem additions_not_trusted_witness:
  "\<forall>auth b n. db_authentic sample_ext (snd (snd (admin_AddBuilder sample_ext (db_admin sample_ext inmem_service)
      add_request NewResponse sample_state))) auth b n = db_authentic sample_ext sample_state auth b n"
proof (intro allI)
  fix auth b n
  let ?H = "admin_AddBuilder sample_ext (db_admin sample_ext inmem_service)"
  show "db_authentic sample_ext (snd (snd (?H add_request NewResponse sample_state))) auth b n =
      db_authentic sample_ext sample_state auth b n"
    by (rule additions_not_trusted [of ?H sample_ext inmem_service add_request NewResponse sample_state
          "fst (?H add_request NewResponse sample_state)" "fst (snd (?H add_request NewResponse sample_state))"]) simp_all
qed

text \<open>C24: On a database that answers, a request to change the status of a builder whose name in the
  path is text that the database takes (UTF-8 without a zero byte; with another name its
  statements fail) does exactly this: a body that is not an activation request is answered with 400; an activation without an
  active configuration is answered with 400, and of a deprecated builder with 500, and neither
  changes anything; every other request is answered with 200 and sets the flag of the named
  builder, and of no other.\<close>

theorem ChangeActiveStatusForBuilder_outcome:
  assumes "db_reachable x (fst h)" "db_faults (fst h) = []" "pg_text (URLParam r ''builderName'')"
    and "admin_ChangeActiveStatusForBuilder x (db_admin x sec) r NewResponse h = (w, p, h')"
  shows "let name = URLParam r ''builderName''; t = tabs (fst h); t' = tabs (fst h') in p = None \<and>
    (case decode_activation r of
       Inl _ \<Rightarrow> sent_status w = 400 \<and> t' = t
     | Inr a \<Rightarrow>
         if Enabled a \<and> (\<forall>c\<in>set (builder_configs t). cr_BuilderName c = name \<longrightarrow> \<not> cr_IsActive c)
         then sent_status w = 400 \<and> t' = t
         else if Enabled a \<and> (\<exists>b\<in>set (builders t). br_Name b = name \<and> br_DeprecatedAt b \<noteq> None)
         then sent_status w = 500 \<and> t' = t
         else sent_status w = 200 \<and> t' = t\<lparr>builders := map (\<lambda>b. if br_Name b = name
           then b\<lparr>br_IsActive := Enabled a, br_UpdatedAt := db_now (fst h)\<rparr> else b) (builders t)\<rparr>)"
proof (cases "decode_activation r")
  case (Inl e)
  with assms(4) show ?thesis
    by (auto simp: admin_ChangeActiveStatusForBuilder_def Let_def)
next
  case (Inr a)
  let ?n = "URLParam r ''builderName''"
  note cfg = GetActiveConfigForBuilder_configured [OF reachable_ok [OF assms(1)] assms(2,3)]
  note chg = ChangeBuilder_no_fault [OF assms(2,3)]
  have none: "(\<forall>c\<in>set (builder_configs (tabs (fst h))). cr_BuilderName c = ?n \<longrightarrow> \<not> cr_IsActive c) \<longleftrightarrow>
      configured (tabs (fst h)) ?n = None"
    by (force simp: configured_def active_configs_def map_of_eq_None_iff)
  show ?thesis
  proof (cases "Enabled a \<and> configured (tabs (fst h)) ?n = None")
    case True
    with assms(4) Inr cfg show ?thesis
      unfolding Let_def none by (auto simp: admin_ChangeActiveStatusForBuilder_def Let_def)
  next
    case False
    have "(w, p, h') = finish NewResponse (snd h) (update_builder_active (Enabled a) ?n (fst h))"
      using assms(4) Inr cfg chg False
      by (auto simp: admin_ChangeActiveStatusForBuilder_def Let_def split: if_splits option.splits)
    with Inr False show ?thesis
      unfolding Let_def none
      by (auto simp: finish_def update_builder_active_def split: if_splits)
  qed
qed

definition activate_request :: "bytes \<Rightarrow> request" where
  "activate_request name = sample_request\<lparr>rq_Params := [(''builderName'', name)], rq_Body := ''{\"enabled\":true}''\<rparr>"

theorem ChangeActiveStatusForBuilder_outcome_witness:
  "sent_status (fst (admin_ChangeActiveStatusForBuilder sample_ext (db_admin sample_ext inmem_service)
     (activate_request ''beta'') NewResponse sample_state)) = 400"
proof -
  let ?r = "activate_request ''beta''"
  let ?z = "admin_ChangeActiveStatusForBuilder sample_ext (db_admin sample_ext inmem_service) ?r NewResponse sample_state"
  have h: "db_reachable sample_ext (fst sample_state)" by (simp add: sample_state_def sample_db_reachable)
  have f: "db_faults (fst sample_state) = []" "pg_text (URLParam ?r ''builderName'')" by code_simp+
  have d: "decode_activation ?r = Inr \<lparr>Enabled = True\<rparr>" by code_simp
  have "\<forall>c\<in>set (builder_configs (tabs (fst sample_state))). cr_BuilderName c = URLParam ?r ''builderName'' \<longrightarrow> \<not> cr_IsActive c"
    by code_simp
  with ChangeActiveStatusForBuilder_outcome [OF h f, of inmem_service "fst ?z" "fst (snd ?z)" "snd (snd ?z)"] d
  show ?thesis unfolding Let_def by simp
qed

text \<open>C23: An authentic builder is served: on a reachable database that answers, whose stored
  templates and addresses can be read, and with a secret store that answers, a request from an
  active builder's address with an accepted measurement is answered with status 200; the
  configuration that the handler looks for is always there.\<close>

theorem GetConfigSecrets_serves:
  assumes "op_reachable x (fst h, P)" "db_healthy x (fst h)"
    and "getAuthData r = Inr auth" "pg_text (AD_AttestationType auth)" "inet_value x (AD_IP auth) = Inr (Some ip)"
    and "db_authentic x h auth b n" "\<forall>b. \<exists>v s'. sa_GetSecretValues sa b (snd h) = (Ret (Inr v), s')"
  shows "\<exists>w' h'. h_GetConfigSecrets (db_handler x sa) r NewResponse h = (w', None, h') \<and> sent_status w' = 200"
proof -
  have "served P (tabs (fst h))" using op_reachable_inv [OF assms(1)] by simp
  from healthy_served [OF assms(2) this assms(3-6), of sa NewResponse] assms(7) show ?thesis by fastforce
qed

theorem GetConfigSecrets_serves_witness:
  "\<exists>w' h'. h_GetConfigSecrets (db_handler sample_ext inmem_accessor) sample_request NewResponse sample_state =
     (w', None, h') \<and> sent_status w' = 200"
proof -
  let ?auth = "\<lparr>AD_AttestationType = ''azure-tdx'', AD_MeasurementData = [(''4'', ''ab'')], AD_IP = v4InV6Prefix @ sample_ip\<rparr>"
  have r: "op_reachable sample_ext (fst sample_state, {''alpha''})"
    by (simp add: sample_state_def sample_db_op_reachable)
  have c: "db_healthy sample_ext (fst sample_state)" "getAuthData sample_request = Inr ?auth"
    "pg_text (AD_AttestationType ?auth)" "inet_value sample_ext (AD_IP ?auth) = Inr (Some sample_ip)"
    by code_simp+
  have "(case fst (VerifyIPAndMeasurements (NewBuilderHub (database_accessor sample_ext) inmem_accessor) 0
      (AD_IP ?auth) (AD_MeasurementData ?auth) (AD_AttestationType ?auth) (fst sample_state)) of Inl _ \<Rightarrow> False | Inr _ \<Rightarrow> True)"
    by code_simp
  then obtain b n d' where "VerifyIPAndMeasurements (NewBuilderHub (database_accessor sample_ext) inmem_accessor) 0
      (AD_IP ?auth) (AD_MeasurementData ?auth) (AD_AttestationType ?auth) (fst sample_state) = (Inr (b, n), d')"
    by (cases "VerifyIPAndMeasurements (NewBuilderHub (database_accessor sample_ext) inmem_accessor) 0
      (AD_IP ?auth) (AD_MeasurementData ?auth) (AD_AttestationType ?auth) (fst sample_state)") (auto split: sum.splits)
  from dbd.Verify_sound [OF _ _ this] have "db_authentic sample_ext sample_state ?auth b n"
    using op_reachable_inv [OF r] by (simp add: db_authentic_def)
  from GetConfigSecrets_serves [OF r c this, of inmem_accessor] show ?thesis
    by (simp add: inmem_accessor_def inmem_GetSecretValues_def)
qed

text \<open>C6: Secrets reach their builder and nobody else: after the admin has set secrets for a
  builder in a store that keeps what it is given, a request for configuration secrets that is
  answered with 200, on any later reachable database, is answered with these secrets when the
  active builder at its address is that builder, and with what the store had before when it is
  another one.\<close>

theorem secrets_delivered:
  assumes "secret_store sec store_ok ok norm" "store_ok (snd h)" "rq_ReadFails r1 = False" "norm (rq_Body r1) = Some v"
    and "ok (URLParam r1 ''builderName'')" "admin_SetSecrets (db_admin x sec) r1 NewResponse h = (w1, p, h1)"
    and "db_reachable x d2"
    and "h_GetConfigSecrets (db_handler x (SecretAccessor.truncate sec)) r NewResponse (d2, snd h1) = (w, None, h')"
    and "sent_status w = 200"
  shows "p = None \<and> sent_status w1 = 200 \<and> (\<exists>auth row. getAuthData r = Inr auth \<and> row \<in> set (builders (tabs d2)) \<and>
    br_IsActive row \<and> inet_value x (AD_IP auth) = Inr (Some (br_IPAddress row)) \<and>
    (ok (br_Name row) \<longrightarrow> (if br_Name row = URLParam r1 ''builderName'' then rs_Body w = v
       else fst (sa_GetSecretValues sec (br_Name row) (snd h)) = Ret (Inr (rs_Body w)))))"
proof -
  note set = secret_store.set_ok [OF assms(1,2,5,4)]
  then have s1: "snd h1 = snd (as_SetSecretValues sec (URLParam r1 ''builderName'') (rq_Body r1) (snd h))"
    and w1: "p = None" "w1 = NewResponse"
    using assms(3,6) by (auto simp: admin_SetSecrets_def ReadAll_def split: prod.splits)
  obtain auth row where g: "getAuthData r = Inr auth" "row \<in> set (builders (tabs d2))" "br_IsActive row"
      "inet_value x (AD_IP auth) = Inr (Some (br_IPAddress row))"
      "sa_GetSecretValues (SecretAccessor.truncate sec) (br_Name row) (snd h1) = (Ret (Inr (rs_Body w)), snd h')"
    using GetConfigSecrets_served_rows [OF _ assms(8,9)] reachable_ok [OF assms(7)] by auto
  have "Ret (Inr (rs_Body w)) = (if br_Name row = URLParam r1 ''builderName'' then Ret (Inr v)
      else fst (sa_GetSecretValues sec (br_Name row) (snd h)))" if "ok (br_Name row)"
    using secret_store.get_set [OF assms(1,2,5) that assms(4)] g(5) s1
    by (simp add: SecretAccessor.truncate_def)
  then show ?thesis using g w1 by (auto split: if_splits)
qed

theorem secrets_delivered_witness:
  "\<exists>w h'. h_GetConfigSecrets (db_handler sample_ext (SecretAccessor.truncate inmem_service)) sample_request NewResponse
     (sample_db, snd (snd (snd (admin_SetSecrets (db_admin sample_ext inmem_service)
       (add_request\<lparr>rq_Body := ''{\"n\":\"1\"}''\<rparr>) NewResponse sample_state)))) = (w, None, h') \<and>
     rs_Body w = ''{\"n\":\"1\"}''"
proof -
  let ?r1 = "add_request\<lparr>rq_Body := ''{\"n\":\"1\"}''\<rparr>"
  let ?z1 = "admin_SetSecrets (db_admin sample_ext inmem_service) ?r1 NewResponse sample_state"
  let ?z = "h_GetConfigSecrets (db_handler sample_ext (SecretAccessor.truncate inmem_service)) sample_request NewResponse
    (sample_db, snd (snd (snd ?z1)))"
  have ok: "sent_status (fst ?z) = 200" "fst (snd ?z) = None" by code_simp+
  then have z: "?z = (fst ?z, None, snd (snd ?z))" by (intro reply_collapse) simp_all
  have "rq_ReadFails ?r1 = False" "URLParam ?r1 ''builderName'' = ''alpha''"
    by (simp_all add: add_request_def sample_request_def URLParam_def)
  moreover have "\<forall>b\<in>set (builders (tabs sample_db)). br_Name b = ''alpha''" by code_simp
  ultimately have "rs_Body (fst ?z) = ''{\"n\":\"1\"}''"
    using secrets_delivered [OF mss.secret_store_axioms TrueI _ _ TrueI, of ?r1 "''{\"n\":\"1\"}''" sample_ext sample_state
        "fst ?z1" "fst (snd ?z1)" "snd (snd ?z1)" sample_db sample_request "fst ?z" "snd (snd ?z)"] sample_db_reachable z ok(1)
    by auto
  with z show ?thesis by metis
qed

end
