(* ===== verification/Http_Server.thy ===== *)
theory Http_Server
  imports Hub_Flows "HOL-Library.Word"
begin

text \<open>
  Package \<open>httpserver\<close> (\<open>server.go\<close>, \<open>handler.go\<close>) and the package \<open>metrics\<close>: the readiness
  endpoints, the three routers with their middleware, Basic authentication of the admin API, the
  construction, start and shutdown of the servers. The router library (chi), the recovering
  middleware and the request logger are parameters with their documented behaviour as a contract.
\<close>

section \<open>Basic authentication (net/http, encoding/base64)\<close>

definition b64_value :: "char \<Rightarrow> nat option" where
  "b64_value c =
     (if in_range 65 90 c then Some (byte c - 65) else if in_range 97 122 c then Some (byte c - 71)
      else if in_range 48 57 c then Some (byte c + 4) else if c = CHR ''+'' then Some 62
      else if c = CHR ''/'' then Some 63 else None)"

text \<open>\<open>base64.StdEncoding\<close>: padding is required and ends the text.\<close>

fun b64_decode :: "bytes \<Rightarrow> bytes option" where
  "b64_decode [] = Some []"
| "b64_decode (a # b # c # d # r) =
     (case (b64_value a, b64_value b) of
        (Some i, Some j) \<Rightarrow>
          (if c = CHR ''='' then (if d = CHR ''='' \<and> r = [] then Some [char_of (4 * i + j div 16)] else None)
           else
             (case b64_value c of None \<Rightarrow> None
              | Some k \<Rightarrow>
                  if d = CHR ''=''
                  then (if r = [] then Some [char_of (4 * i + j div 16), char_of (16 * (j mod 16) + k div 4)] else None)
                  else
                    (case b64_value d of None \<Rightarrow> None
                     | Some l \<Rightarrow> map_option (\<lambda>t. char_of (4 * i + j div 16) # char_of (16 * (j mod 16) + k div 4) #
                         char_of (64 * (k mod 4) + l) # t) (b64_decode r))))
      | _ \<Rightarrow> None)"
| "b64_decode _ = None"

definition DecodeString :: "bytes \<Rightarrow> bytes option" where
  "DecodeString s = b64_decode (filter (\<lambda>c. c \<noteq> CHR 0x0A \<and> c \<noteq> CHR 0x0D) s)"

definition ascii_lower :: "char \<Rightarrow> char" where
  "ascii_lower c = (if in_range 65 90 c then char_of (byte c + 32) else c)"

text \<open>\<open>strings.Cut\<close> at a byte.\<close>

definition cut_at :: "char \<Rightarrow> bytes \<Rightarrow> (bytes \<times> bytes) option" where
  "cut_at c s = (case dropWhile (\<lambda>d. d \<noteq> c) s of [] \<Rightarrow> None | _ # t \<Rightarrow> Some (takeWhile (\<lambda>d. d \<noteq> c) s, t))"

definition BasicAuth :: "request \<Rightarrow> (bytes \<times> bytes) option" where
  "BasicAuth r =
     (let auth = Header_Get r ''Authorization'' in
      if map ascii_lower (take 6 auth) \<noteq> ''basic '' then None
      else (case DecodeString (drop 6 auth) of None \<Rightarrow> None | Some cs \<Rightarrow> cut_at (CHR '':'') cs))"

definition http_Error :: "bytes \<Rightarrow> nat \<Rightarrow> response \<Rightarrow> response" where
  "http_Error txt code w =
     Write (txt @ [CHR 0x0A]) (WriteHeader code
       (Header_Set ''X-Content-Type-Options'' ''nosniff'' (Header_Set ''Content-Type'' ''text/plain; charset=utf-8'' w)))"

section \<open>Configuration and state\<close>

type_synonym Duration = "64 word"

record HTTPServerConfig =
  ListenAddr :: bytes
  MetricsAddr :: bytes
  AdminAddr :: bytes
  InternalAddr :: bytes
  EnablePprof :: bool
  DrainDuration :: Duration
  GracefulShutdownDuration :: Duration
  ReadTimeout :: Duration
  WriteTimeout :: Duration
  AdminBasicUser :: bytes
  AdminPasswordBcrypt :: bytes
  AdminAuthDisabled :: bool

text \<open>What requests change: the readiness flag, the time slept in requests (\<open>time.Sleep\<close> of a
  duration that is not positive returns at once), the recorded request durations, and the state
  behind the handlers.\<close>

record 'h server_state =
  isReady :: bool
  slept :: int
  summaries :: "(bytes \<times> int) list"
  backend :: 'h

definition on_backend :: "'h Handler \<Rightarrow> 'h server_state Handler" where
  "on_backend H r w s = (case H r w (backend s) of (w', p, h') \<Rightarrow> (w', p, s\<lparr>backend := h'\<rparr>))"

section \<open>System endpoints (httpserver/handler.go)\<close>

definition handleLivenessCheck :: "'h server_state Handler" where
  "handleLivenessCheck r w s = replies (WriteHeader StatusOK w) s"

definition handleReadinessCheck :: "'h server_state Handler" where
  "handleReadinessCheck r w s =
     (if \<not> isReady s then replies (WriteHeader StatusServiceUnavailable w) s
      else replies (WriteHeader StatusOK w) s)"

definition handleDrain :: "HTTPServerConfig \<Rightarrow> 'h server_state Handler" where
  "handleDrain c r w s =
     (let wasReady = isReady s; s = s\<lparr>isReady := False\<rparr> in
      if \<not> wasReady then replies w s
      else replies w (s\<lparr>slept := slept s + max 0 (sint (DrainDuration c))\<rparr>))"

definition handleUndrain :: "'h server_state Handler" where
  "handleUndrain r w s = (let s = s\<lparr>isReady := True\<rparr> in replies w s)"

section \<open>The router library\<close>

text \<open>A router as it is built: the middleware in the order of \<open>Use\<close>, the routes (method,
  pattern, handler) and the mounted handlers.\<close>

record 'st mux =
  mux_Use :: "('st Handler \<Rightarrow> 'st Handler) list"
  mux_Routes :: "(bytes \<times> bytes \<times> 'st Handler) list"
  mux_Mounts :: "(bytes \<times> 'st Handler) list"

text \<open>The functions of chi and httplog that the server uses: serving a router, matching a pattern
  with a path (which gives the path parameters), the pattern and the milliseconds that the
  metrics middleware records for a request, and the middleware.\<close>

record 'st chi =
  chi_ServeHTTP :: "'st mux \<Rightarrow> 'st Handler"
  chi_match :: "bytes \<Rightarrow> bytes \<Rightarrow> (bytes, bytes) gomap option"
  chi_RoutePattern :: "request \<Rightarrow> bytes"
  elapsed_ms :: "request \<Rightarrow> int"
  chi_Recoverer :: "'st Handler \<Rightarrow> 'st Handler"
  chi_Profiler :: "'st Handler"
  httplog_RequestLogger :: "'st Handler \<Rightarrow> 'st Handler"

text \<open>Their documented behaviour: middleware wraps in the order of \<open>Use\<close>; a request runs a
  handler whose method and pattern match it, or a mounted one, and otherwise is answered with
  404 or 405; a panic is recovered and status 500 is written unless the request has the header
  \<open>Connection: Upgrade\<close>, when the response stays as the handler left it; the logger does not
  change how a handler that returns answers; the profiler changes nothing. (The one panic value
  that the recovery passes on, \<open>http.ErrAbortHandler\<close>, is used nowhere in the repository.)\<close>

definition recovered :: "request \<Rightarrow> response \<Rightarrow> response" where
  "recovered r w = (if Header_Get r ''Connection'' = ''Upgrade'' then w else WriteHeader 500 w)"

definition routed :: "'st chi \<Rightarrow> (bytes \<times> bytes \<times> 'st Handler) list \<Rightarrow> (bytes \<times> 'st Handler) list \<Rightarrow> 'st Handler" where
  "routed c rs mts = chi_ServeHTTP c \<lparr>mux_Use = [], mux_Routes = rs, mux_Mounts = mts\<rparr>"

definition chi_wraps :: "'st chi \<Rightarrow> bool" where
  "chi_wraps c \<longleftrightarrow> (\<forall>m ms rs mts. chi_ServeHTTP c \<lparr>mux_Use = m # ms, mux_Routes = rs, mux_Mounts = mts\<rparr> =
     m (chi_ServeHTTP c \<lparr>mux_Use = ms, mux_Routes = rs, mux_Mounts = mts\<rparr>))"

definition chi_routes :: "'st chi \<Rightarrow> bool" where
  "chi_routes c \<longleftrightarrow> (\<forall>rs mts r w s.
     (\<exists>pat H ps. (rq_Method r, pat, H) \<in> set rs \<and> chi_match c pat (rq_Path r) = Some ps \<and>
        routed c rs mts r w s = H (r\<lparr>rq_Params := ps\<rparr>) w s) \<or>
     (\<exists>pre H. (pre, H) \<in> set mts \<and> routed c rs mts r w s = H r w s) \<or>
     (\<exists>w' code. routed c rs mts r w s = (w', None, s) \<and> code \<in> {404, 405} \<and>
        (rs_Status w = None \<longrightarrow> rs_Status w' = Some code)))"

definition chi_recovers :: "'st chi \<Rightarrow> bool" where
  "chi_recovers c \<longleftrightarrow> (\<forall>H r w s. chi_Recoverer c H r w s = (case H r w s of
     (w', None, s') \<Rightarrow> (w', None, s') | (w', Some p, s') \<Rightarrow> (recovered r w', None, s')))"

definition chi_logs :: "'st chi \<Rightarrow> bool" where
  "chi_logs c \<longleftrightarrow> (\<forall>H r w s w' s'. H r w s = (w', None, s') \<longrightarrow> httplog_RequestLogger c H r w s = (w', None, s'))"

definition chi_profiles :: "'st chi \<Rightarrow> bool" where
  "chi_profiles c \<longleftrightarrow> (\<forall>r w s. \<exists>w' p. chi_Profiler c r w s = (w', p, s))"

definition chi_contract :: "'st chi \<Rightarrow> bool" where
  "chi_contract c \<longleftrightarrow> chi_wraps c \<and> chi_routes c \<and> chi_recovers c \<and> chi_logs c \<and> chi_profiles c"

section \<open>Metrics (package metrics)\<close>

definition requestDurationLabel :: "bytes \<Rightarrow> bytes" where
  "requestDurationLabel route = ''http_server_request_duration_milliseconds{route='' @ [CHR 0x22] @ route @ [CHR 0x22] @ ''}''"

definition recordRequestDuration :: "bytes \<Rightarrow> int \<Rightarrow> 'h server_state \<Rightarrow> 'h server_state" where
  "recordRequestDuration route duration s = s\<lparr>summaries := summaries s @ [(requestDurationLabel route, duration)]\<rparr>"

text \<open>The recording is deferred: it happens when the handler returns and when it panics.\<close>

definition metrics_Middleware :: "'h server_state chi \<Rightarrow> 'h server_state Handler \<Rightarrow> 'h server_state Handler" where
  "metrics_Middleware c nxt r w s =
     (case nxt r w s of (w', p, s') \<Rightarrow> (w', p, recordRequestDuration (chi_RoutePattern c r) (elapsed_ms c r) s'))"

section \<open>Servers and routers (httpserver/server.go)\<close>

record 'h http_server =
  hs_Addr :: bytes
  hs_Handler :: "'h server_state Handler"
  hs_ReadTimeout :: Duration
  hs_WriteTimeout :: Duration

text \<open>The inner server of a metrics server exists once it has been started.\<close>

record MetricsServer =
  ms_listenAddr :: bytes
  ms_started :: bool

definition NewMetricsServer :: "bytes \<Rightarrow> MetricsServer" where
  "NewMetricsServer addr = \<lparr>ms_listenAddr = addr, ms_started = False\<rparr>"

record ('d, 's) Server =
  cfg :: HTTPServerConfig
  appHandler :: "('d \<times> 's) BuilderHubHandler"
  adminHandler :: "('d, 's) AdminHandler"
  srv :: "('d \<times> 's) http_server option"
  adminSrv :: "('d \<times> 's) http_server option"
  internalSrv :: "('d \<times> 's) http_server option"
  metricsSrv :: MetricsServer
  mockGetConfigResponse :: bytes
  mockGetBuildersResponse :: bytes
  mockGetMeasurementsResponse :: bytes

definition basicAuthMiddleware ::
  "ext \<Rightarrow> ('d, 's) Server \<Rightarrow> ('d \<times> 's) server_state Handler \<Rightarrow> ('d \<times> 's) server_state Handler" where
  "basicAuthMiddleware x sv nxt r w s =
     (let requiredUser = AdminBasicUser (cfg sv); bcryptHash = AdminPasswordBcrypt (cfg sv);
          deny = (let w = Header_Set ''WWW-Authenticate'' ''Basic realm=admin'' w in
                  replies (http_Error ''Unauthorized'' StatusUnauthorized w) s) in
      if AdminAuthDisabled (cfg sv) then nxt r w s
      else
        (case BasicAuth r of None \<Rightarrow> deny
         | Some (u, p) \<Rightarrow>
             if u \<noteq> requiredUser then deny
             else (case bcrypt_Compare x bcryptHash p of Some e \<Rightarrow> deny | None \<Rightarrow> nxt r w s)))"

definition common_middleware ::
  "('d \<times> 's) server_state chi \<Rightarrow> (('d \<times> 's) server_state Handler \<Rightarrow> ('d \<times> 's) server_state Handler) list" where
  "common_middleware c = [httplog_RequestLogger c, chi_Recoverer c, metrics_Middleware c]"

definition GetRouter :: "ext \<Rightarrow> ('d \<times> 's) server_state chi \<Rightarrow> ('d, 's) Server \<Rightarrow> ('d \<times> 's) server_state mux" where
  "GetRouter x c sv = \<lparr>
     mux_Use = common_middleware c,
     mux_Routes =
       [(''GET'', ''/livez'', handleLivenessCheck),
        (''GET'', ''/readyz'', handleReadinessCheck),
        (''GET'', ''/drain'', handleDrain (cfg sv)),
        (''GET'', ''/undrain'', handleUndrain),
        (''GET'', ''/api/l1-builder/v1/measurements'', on_backend (h_GetAllowedMeasurements (appHandler sv))),
        (''GET'', ''/api/l1-builder/v1/configuration'', on_backend (h_GetConfigSecrets (appHandler sv))),
        (''GET'', ''/api/l1-builder/v1/builders'', on_backend (h_GetActiveBuilders x (appHandler sv))),
        (''POST'', ''/api/l1-builder/v1/register_credentials/{service}'', on_backend (h_RegisterCredentials x (appHandler sv))),
        (''GET'', ''/api/internal/l1-builder/v1/builders'', on_backend (h_GetActiveBuildersNoAuth x (appHandler sv))),
        (''GET'', ''/api/internal/l1-builder/v2/network/{network}/builders'',
          on_backend (h_GetActiveBuildersNoAuthNetworked x (appHandler sv)))],
     mux_Mounts = (if EnablePprof (cfg sv) then [(''/debug'', chi_Profiler c)] else [])\<rparr>"

definition GetAdminRouter :: "ext \<Rightarrow> ('d \<times> 's) server_state chi \<Rightarrow> ('d, 's) Server \<Rightarrow> ('d \<times> 's) server_state mux" where
  "GetAdminRouter x c sv = \<lparr>
     mux_Use = common_middleware c @ [basicAuthMiddleware x sv],
     mux_Routes =
       [(''GET'', ''/api/admin/v1/builders/configuration/{builderName}/active'',
          on_backend (admin_GetActiveConfigForBuilder (adminHandler sv))),
        (''GET'', ''/api/admin/v1/builders/configuration/{builderName}/full'',
          on_backend (admin_GetFullConfigForBuilder (adminHandler sv))),
        (''POST'', ''/api/admin/v1/measurements'', on_backend (admin_AddMeasurement x (adminHandler sv))),
        (''POST'', ''/api/admin/v1/builders'', on_backend (admin_AddBuilder x (adminHandler sv))),
        (''POST'', ''/api/admin/v1/builders/activation/{builderName}'',
          on_backend (admin_ChangeActiveStatusForBuilder x (adminHandler sv))),
        (''POST'', ''/api/admin/v1/measurements/activation/{measurementName}'',
          on_backend (admin_ChangeActiveStatusForMeasurement x (adminHandler sv))),
        (''POST'', ''/api/admin/v1/builders/configuration/{builderName}'',
          on_backend (admin_AddBuilderConfig x (adminHandler sv))),
        (''POST'', ''/api/admin/v1/builders/secrets/{builderName}'', on_backend (admin_SetSecrets (adminHandler sv)))],
     mux_Mounts = []\<rparr>"

definition GetInternalRouter :: "ext \<Rightarrow> ('d \<times> 's) server_state chi \<Rightarrow> ('d, 's) Server \<Rightarrow> ('d \<times> 's) server_state mux" where
  "GetInternalRouter x c sv = \<lparr>
     mux_Use = common_middleware c,
     mux_Routes =
       [(''GET'', ''/api/l1-builder/v1/measurements'', on_backend (h_GetAllowedMeasurements (appHandler sv))),
        (''GET'', ''/api/internal/l1-builder/v1/builders'', on_backend (h_GetActiveBuildersNoAuth x (appHandler sv))),
        (''GET'', ''/api/internal/l1-builder/v2/network/{network}/builders'',
          on_backend (h_GetActiveBuildersNoAuthNetworked x (appHandler sv)))],
     mux_Mounts = []\<rparr>"

text \<open>The new server and its readiness flag; the routers are built before the servers are set,
  from the configuration and the handlers.\<close>

definition NewHTTPServer :: "ext \<Rightarrow> ('d \<times> 's) server_state chi \<Rightarrow> HTTPServerConfig \<Rightarrow> ('d \<times> 's) BuilderHubHandler
    \<Rightarrow> ('d, 's) AdminHandler \<Rightarrow> (('d, 's) Server \<times> bool) result" where
  "NewHTTPServer x c conf app adm =
     (let sv = \<lparr>cfg = conf, appHandler = app, adminHandler = adm, srv = None, adminSrv = None, internalSrv = None,
            metricsSrv = NewMetricsServer (MetricsAddr conf), mockGetConfigResponse = [],
            mockGetBuildersResponse = [], mockGetMeasurementsResponse = []\<rparr>;
          server = (\<lambda>addr m. \<lparr>hs_Addr = addr, hs_Handler = chi_ServeHTTP c m,
            hs_ReadTimeout = ReadTimeout conf, hs_WriteTimeout = WriteTimeout conf\<rparr>) in
      Inr (sv\<lparr>srv := Some (server (ListenAddr conf) (GetRouter x c sv)),
         internalSrv := Some (server (InternalAddr conf) (GetInternalRouter x c sv)),
         adminSrv := Some (server (AdminAddr conf) (GetAdminRouter x c sv))\<rparr>, True))"

text \<open>Mock responses; \<open>files\<close> is what reading a file gives.\<close>

definition stringFromFile :: "(bytes \<Rightarrow> bytes result) \<Rightarrow> bytes \<Rightarrow> bytes result" where
  "stringFromFile files fn = (case files fn of Inl e \<Rightarrow> Inl e | Inr content \<Rightarrow> Inr content)"

text \<open>A failing read leaves the empty string in the field it was for.\<close>

definition file_or_empty :: "bytes result \<Rightarrow> bytes" where
  "file_or_empty c = (case c of Inl _ \<Rightarrow> [] | Inr s \<Rightarrow> s)"

definition LoadMockResponses :: "(bytes \<Rightarrow> bytes result) \<Rightarrow> ('d, 's) Server \<Rightarrow> go_error option \<times> ('d, 's) Server" where
  "LoadMockResponses files sv =
     (let c1 = stringFromFile files ''testdata/get-configuration.json'';
          sv = sv\<lparr>mockGetConfigResponse := file_or_empty c1\<rparr> in
      case c1 of Inl e \<Rightarrow> (Some e, sv) | Inr _ \<Rightarrow>
     (let c2 = stringFromFile files ''testdata/get-builders.json'';
          sv = sv\<lparr>mockGetBuildersResponse := file_or_empty c2\<rparr> in
      case c2 of Inl e \<Rightarrow> (Some e, sv) | Inr _ \<Rightarrow>
     (let c3 = stringFromFile files ''testdata/get-measurements.json'';
          sv = sv\<lparr>mockGetMeasurementsResponse := file_or_empty c3\<rparr> in
      case c3 of Inl e \<Rightarrow> (Some e, sv) | Inr _ \<Rightarrow> (None, sv))))"

section \<open>Start and shutdown\<close>

datatype server_id = MetricsSrv | ApiSrv | InternalSrv | AdminSrv

definition ErrServerClosed :: go_error where
  "ErrServerClosed = ErrOther ''http: Server closed''"

text \<open>The end of \<open>ListenAndServe\<close> as the goroutine of a server reports it: closing is no error.\<close>

definition serve_error :: "go_error option \<Rightarrow> go_error option" where
  "serve_error e = (case e of None \<Rightarrow> None | Some e \<Rightarrow> if errors_Is e ErrServerClosed then None else Some e)"

text \<open>\<open>MetricsServer.Start\<close> creates the inner server and serves until it ends with \<open>result\<close>.\<close>

definition ms_Start :: "go_error option \<Rightarrow> MetricsServer \<Rightarrow> go_error option \<times> MetricsServer" where
  "ms_Start result m = (serve_error result, m\<lparr>ms_started := True\<rparr>)"

definition ms_Shutdown :: "go_error option \<Rightarrow> MetricsServer \<Rightarrow> go_error option outcome" where
  "ms_Shutdown result m = (if ms_started m then Ret result else Panic nil_deref)"

text \<open>The goroutines that are started, in order, with the addresses they serve.\<close>

definition RunInBackground :: "('d, 's) Server \<Rightarrow> (server_id \<times> bytes) list" where
  "RunInBackground sv =
     (if MetricsAddr (cfg sv) \<noteq> [] then [(MetricsSrv, ms_listenAddr (metricsSrv sv))] else []) @
     [(ApiSrv, ListenAddr (cfg sv)), (InternalSrv, InternalAddr (cfg sv)), (AdminSrv, AdminAddr (cfg sv))]"

text \<open>The servers that are shut down, in order, each with the error that is logged, and the panic
  that ends the function, if any; \<open>res\<close> is what shutting down a server returns.\<close>

definition Shutdown ::
  "(server_id \<Rightarrow> go_error option) \<Rightarrow> ('d, 's) Server \<Rightarrow> (server_id \<times> go_error option) list \<times> string option" where
  "Shutdown res sv =
     (let stopped = [(ApiSrv, res ApiSrv), (InternalSrv, res InternalSrv), (AdminSrv, res AdminSrv)] in
      if length (MetricsAddr (cfg sv)) \<noteq> 0 then
        (case ms_Shutdown (res MetricsSrv) (metricsSrv sv) of
           Panic p \<Rightarrow> (stopped, Some p)
         | Ret e \<Rightarrow> (stopped @ [(MetricsSrv, e)], None))
      else (stopped, None))"

section \<open>Serving through the middleware\<close>

lemma chi_contractD:
  assumes "chi_contract c"
  shows "chi_ServeHTTP c \<lparr>mux_Use = m # ms, mux_Routes = rs, mux_Mounts = mts\<rparr> =
      m (chi_ServeHTTP c \<lparr>mux_Use = ms, mux_Routes = rs, mux_Mounts = mts\<rparr>)"
    and "chi_Recoverer c H r w s = (case H r w s of
      (w', None, s') \<Rightarrow> (w', None, s') | (w', Some p, s') \<Rightarrow> (recovered r w', None, s'))"
    and "H r w s = (w', None, s') \<Longrightarrow> httplog_RequestLogger c H r w s = (w', None, s')"
    and "\<exists>w' p. chi_Profiler c r w s = (w', p, s)"
  using assms by (simp_all add: chi_contract_def chi_wraps_def chi_recovers_def chi_logs_def chi_profiles_def)

lemma routed_cases:
  assumes "chi_contract c"
  obtains (route) pat H ps where "(rq_Method r, pat, H) \<in> set rs" "chi_match c pat (rq_Path r) = Some ps"
      "routed c rs mts r w s = H (r\<lparr>rq_Params := ps\<rparr>) w s"
  | (mount) pre H where "(pre, H) \<in> set mts" "routed c rs mts r w s = H r w s"
  | (none) w' code where "routed c rs mts r w s = (w', None, s)" "code \<in> {404, 405}"
      "rs_Status w = None \<Longrightarrow> rs_Status w' = Some code"
proof -
  have "(\<exists>pat H ps. (rq_Method r, pat, H) \<in> set rs \<and> chi_match c pat (rq_Path r) = Some ps \<and>
      routed c rs mts r w s = H (r\<lparr>rq_Params := ps\<rparr>) w s) \<or>
    (\<exists>pre H. (pre, H) \<in> set mts \<and> routed c rs mts r w s = H r w s) \<or>
    (\<exists>w' code. routed c rs mts r w s = (w', None, s) \<and> code \<in> {404, 405} \<and>
      (rs_Status w = None \<longrightarrow> rs_Status w' = Some code))"
    using assms by (simp only: chi_contract_def chi_routes_def)
  then show ?thesis by (elim disjE exE conjE) (rule that; simp)+
qed

text \<open>What the three common layers make of the inner handler: the duration is recorded, a panic
  is recovered.\<close>

lemma serve_common:
  assumes "chi_contract c" "chi_ServeHTTP c \<lparr>mux_Use = ms, mux_Routes = rs, mux_Mounts = mts\<rparr> r w s = (w', p, s')"
  shows "chi_ServeHTTP c \<lparr>mux_Use = common_middleware c @ ms, mux_Routes = rs, mux_Mounts = mts\<rparr> r w s =
    (if p = None then w' else recovered r w', None,
     recordRequestDuration (chi_RoutePattern c r) (elapsed_ms c r) s')"
proof -
  let ?in = "chi_ServeHTTP c \<lparr>mux_Use = ms, mux_Routes = rs, mux_Mounts = mts\<rparr>"
  have "metrics_Middleware c ?in r w s = (w', p, recordRequestDuration (chi_RoutePattern c r) (elapsed_ms c r) s')"
    by (simp add: metrics_Middleware_def assms(2))
  then have "chi_Recoverer c (metrics_Middleware c ?in) r w s = (if p = None then w' else recovered r w', None,
      recordRequestDuration (chi_RoutePattern c r) (elapsed_ms c r) s')"
    by (auto simp: chi_contractD(2) [OF assms(1)] split: option.splits)
  then show ?thesis
    by (simp add: common_middleware_def chi_contractD(1) [OF assms(1)] chi_contractD(3) [OF assms(1)])
qed

section \<open>Base64 round trip\<close>

text \<open>What a client sends: \<open>user:password\<close> in Base64.\<close>

definition b64_char :: "nat \<Rightarrow> char" where
  "b64_char n = (if n < 26 then char_of (n + 65) else if n < 52 then char_of (n + 71)
     else if n < 62 then char_of (n - 4) else if n = 62 then CHR ''+'' else CHR ''/'')"

fun b64_encode :: "bytes \<Rightarrow> bytes" where
  "b64_encode [] = []"
| "b64_encode [a] = [b64_char (byte a div 4), b64_char (16 * (byte a mod 4)), CHR ''='', CHR ''='']"
| "b64_encode [a, b] = [b64_char (byte a div 4), b64_char (16 * (byte a mod 4) + byte b div 16),
     b64_char (4 * (byte b mod 16)), CHR ''='']"
| "b64_encode (a # b # c # r) = b64_char (byte a div 4) # b64_char (16 * (byte a mod 4) + byte b div 16) #
     b64_char (4 * (byte b mod 16) + byte c div 64) # b64_char (byte c mod 64) # b64_encode r"

lemma b64_value_char: "n < 64 \<Longrightarrow> b64_value (b64_char n) = Some n"
  by (auto simp: b64_value_def b64_char_def in_range_def)

lemma b64_char_plain:
  assumes "n < 64"
  shows "b64_char n \<noteq> CHR ''=''" "b64_char n \<noteq> CHR 0x0A" "b64_char n \<noteq> CHR 0x0D"
  using b64_value_char [OF assms] by (auto simp: b64_value_def in_range_def)

lemma b64_bounds: "byte a div 4 < 64" "16 * (byte a mod 4) + byte b div 16 < 64" "16 * (byte a mod 4) < 64"
  "4 * (byte b mod 16) + byte d div 64 < 64" "4 * (byte b mod 16) < 64" "byte d mod 64 < (64::nat)"
proof -
  have "byte a div 4 < 64" "byte b div 16 < 16" "byte d div 64 < (4::nat)"
    using byte_lt_256 [of a] byte_lt_256 [of b] byte_lt_256 [of d] by (simp_all add: less_mult_imp_div_less)
  moreover have "byte a mod 4 < 4" "byte b mod 16 < (16::nat)" by simp_all
  ultimately show "byte a div 4 < 64" "16 * (byte a mod 4) + byte b div 16 < 64" "16 * (byte a mod 4) < 64"
    "4 * (byte b mod 16) + byte d div 64 < 64" "4 * (byte b mod 16) < 64" "byte d mod 64 < (64::nat)"
    by linarith+
qed

lemma b64_decode_encode: "b64_decode (b64_encode s) = Some s"
proof (induction s rule: b64_encode.induct)
  case (2 a)
  show ?case by (simp add: b64_value_char b64_bounds)
next
  case (3 a b)
  have "byte b div 16 < (16::nat)" using byte_lt_256 [of b] by (simp add: less_mult_imp_div_less)
  then show ?case by (simp add: b64_value_char b64_bounds b64_char_plain)
next
  case (4 a b c r)
  have "byte b div 16 < (16::nat)" "byte c div 64 < (4::nat)"
    using byte_lt_256 [of b] byte_lt_256 [of c] by (simp_all add: less_mult_imp_div_less)
  with 4 show ?case by (simp add: b64_value_char b64_bounds b64_char_plain)
qed simp

lemma b64_encode_no_newline: "filter (\<lambda>c. c \<noteq> CHR 0x0A \<and> c \<noteq> CHR 0x0D) (b64_encode s) = b64_encode s"
  by (induction s rule: b64_encode.induct) (simp_all add: b64_char_plain b64_bounds)

lemma DecodeString_encode: "DecodeString (b64_encode s) = Some s"
  by (simp add: DecodeString_def b64_encode_no_newline b64_decode_encode)

lemma cut_at_append: "c \<notin> set u \<Longrightarrow> cut_at c (u @ c # p) = Some (u, p)"
  by (induction u) (auto simp: cut_at_def split: list.splits)

lemma BasicAuth_encoded:
  assumes "Header_Get r ''Authorization'' = ''Basic '' @ b64_encode (u @ CHR '':'' # p)" "CHR '':'' \<notin> set u"
  shows "BasicAuth r = Some (u, p)"
proof -
  have "map ascii_lower ''Basic '' = ''basic ''" by code_simp
  moreover have "take 6 (''Basic '' @ s) = ''Basic ''" "drop 6 (''Basic '' @ s) = s" for s :: bytes by simp_all
  ultimately show ?thesis
    unfolding BasicAuth_def Let_def assms(1) using assms(2) by (simp only: DecodeString_encode) (simp add: cut_at_append)
qed

section \<open>What the routers can reach\<close>

text \<open>The tables that decide who is trusted, and the configurations.\<close>

definition base_tables :: "tables \<Rightarrow> dbBuilder list \<times> dbMeasurement list \<times> BuilderConfig list" where
  "base_tables t = (builders t, measurements_whitelist t, builder_configs t)"

definition keeps_base :: "(db \<times> 's) Handler \<Rightarrow> bool" where
  "keeps_base H \<longleftrightarrow> (\<forall>r w h. base_tables (tabs (fst (snd (snd (H r w h))))) = base_tables (tabs (fst h)))"

lemma base_LogEvent: "base_tables (tabs (snd (LogEvent ev b n d))) = base_tables (tabs d)"
proof -
  have "preserves (\<lambda>t. base_tables t = v) (insert_event ev b n)" for v
    by (rule preservesI) (auto simp: insert_event_def Let_def base_tables_def split: sum.splits)
  then have "preserves (\<lambda>t. base_tables t = v) (LogEvent ev b n)" for v
    unfolding LogEvent_def by (intro preserves_intros)
  from preservesD [OF this refl] show ?thesis .
qed

lemma base_Register: "base_tables (tabs (snd (RegisterCredentialsForBuilder b s cert pk mn ty reg d))) = base_tables (tabs d)"
proof -
  obtain e d' where r: "RegisterCredentialsForBuilder b s cert pk mn ty reg d = (e, d')" by fastforce
  show ?thesis
    by (cases rule: RegisterCredentialsForBuilder_cases [OF r])
       (simp_all add: r, simp add: base_tables_def replace_creds_def)
qed

lemma keeps_base_app:
  "keeps_base (h_GetAllowedMeasurements (db_handler x sa))" "keeps_base (h_GetActiveBuilders x (db_handler x sa))"
  "keeps_base (h_GetActiveBuildersNoAuth x (db_handler x sa))"
  "keeps_base (h_GetActiveBuildersNoAuthNetworked x (db_handler x sa))"
  "keeps_base (h_GetConfigSecrets (db_handler x sa))" "keeps_base (h_RegisterCredentials x (db_handler x sa))"
proof -
  show "keeps_base (h_GetConfigSecrets (db_handler x sa))"
    unfolding keeps_base_def
  proof (intro allI)
    fix r w and h :: "db \<times> 'a"
    show "base_tables (tabs (fst (snd (snd (h_GetConfigSecrets (db_handler x sa) r w h))))) = base_tables (tabs (fst h))"
      using GetConfigSecrets_state [of x sa r w h] unfolding Let_def by (metis base_LogEvent)
  qed
  show "keeps_base (h_RegisterCredentials x (db_handler x sa))"
    unfolding keeps_base_def
  proof (intro allI)
    fix r w and h :: "db \<times> 'a"
    show "base_tables (tabs (fst (snd (snd (h_RegisterCredentials x (db_handler x sa) r w h))))) = base_tables (tabs (fst h))"
      using RegisterCredentials_state [of x sa r w h] unfolding Let_def by (metis base_Register)
  qed
qed (simp_all add: keeps_base_def tabs_GetAllowed tabs_h_GetActiveBuilders h_GetActiveBuildersNoAuth_def
    h_GetActiveBuildersNoAuthNetworked_def tabs_write_builders Let_def)

text \<open>A router whose handlers all keep a property of the state, behind the common middleware.\<close>

lemma serve_keeps:
  assumes "chi_contract c"
    and "\<And>meth pat H r w s. (meth, pat, H) \<in> set rs \<Longrightarrow> Q (snd (snd (H r w s))) = Q s"
    and "\<And>pre H r w s. (pre, H) \<in> set mts \<Longrightarrow> Q (snd (snd (H r w s))) = Q s"
    and "\<And>s l. Q (s\<lparr>summaries := l\<rparr>) = Q s"
  shows "\<exists>w' s'. chi_ServeHTTP c \<lparr>mux_Use = common_middleware c, mux_Routes = rs, mux_Mounts = mts\<rparr> r w s = (w', None, s') \<and>
    Q s' = Q s"
proof -
  obtain w1 p1 s1 where in1: "routed c rs mts r w s = (w1, p1, s1)" by (metis prod.exhaust)
  have "Q s1 = Q s"
  proof (cases rule: routed_cases [OF assms(1), of r rs mts w s])
    case (1 pat H ps)
    then show ?thesis using assms(2) [OF 1(1), of "r\<lparr>rq_Params := ps\<rparr>" w s] in1 by (metis snd_conv)
  next
    case (2 pre H)
    then show ?thesis using assms(3) [OF 2(1), of r w s] in1 by (metis snd_conv)
  qed (use in1 in simp)
  then show ?thesis
    using serve_common [OF assms(1) in1 [unfolded routed_def]] assms(4)
    by (simp add: recordRequestDuration_def)
qed

lemma on_backend_keeps:
  "keeps_base H \<Longrightarrow> base_tables (tabs (fst (backend (snd (snd (on_backend H r w s)))))) = base_tables (tabs (fst (backend s)))"
  by (simp add: on_backend_def keeps_base_def split: prod.split) (metis prod.collapse snd_conv)

lemma system_keeps:
  "backend (snd (snd (handleLivenessCheck r w s))) = backend s" "backend (snd (snd (handleReadinessCheck r w s))) = backend s"
  "backend (snd (snd (handleDrain cf r w s))) = backend s" "backend (snd (snd (handleUndrain r w s))) = backend s"
  by (simp_all add: handleLivenessCheck_def handleReadinessCheck_def handleDrain_def handleUndrain_def Let_def)

section \<open>One router library\<close>

text \<open>A concrete library that fulfils the contract: segments in braces match any segment.\<close>

fun match_segs :: "bytes list \<Rightarrow> bytes list \<Rightarrow> (bytes, bytes) gomap option" where
  "match_segs [] [] = Some []"
| "match_segs (p # ps) (s # ss) =
     (if take 1 p = ''{'' then map_option (\<lambda>m. (butlast (drop 1 p), s) # m) (match_segs ps ss)
      else if p = s then match_segs ps ss else None)"
| "match_segs _ _ = None"

definition sample_match :: "bytes \<Rightarrow> bytes \<Rightarrow> (bytes, bytes) gomap option" where
  "sample_match pat path = match_segs (split_on (CHR ''/'') pat) (split_on (CHR ''/'') path)"

definition sample_route :: "(bytes \<times> bytes \<times> 'st Handler) list \<Rightarrow> 'st Handler" where
  "sample_route rs r w s =
     (case find (\<lambda>(m, p, H). m = rq_Method r \<and> sample_match p (rq_Path r) \<noteq> None) rs of
        Some (m, p, H) \<Rightarrow> H (r\<lparr>rq_Params := the (sample_match p (rq_Path r))\<rparr>) w s
      | None \<Rightarrow> (http_Error ''404 page not found'' 404 w, None, s))"

definition sample_chi :: "'st chi" where
  "sample_chi = \<lparr>
     chi_ServeHTTP = \<lambda>m. foldr (\<lambda>f H. f H) (mux_Use m) (sample_route (mux_Routes m)),
     chi_match = sample_match, chi_RoutePattern = rq_Path, elapsed_ms = \<lambda>r. 1,
     chi_Recoverer = \<lambda>H r w s. (case H r w s of
       (w', None, s') \<Rightarrow> (w', None, s') | (w', Some p, s') \<Rightarrow> (recovered r w', None, s')),
     chi_Profiler = \<lambda>r w s. (w, None, s),
     httplog_RequestLogger = \<lambda>H. H\<rparr>"

lemma http_Error_status [simp]: "rs_Status w = None \<Longrightarrow> rs_Status (http_Error txt code w) = Some code"
  by (simp add: http_Error_def Header_Set_def)

lemma sample_chi_contract: "chi_contract sample_chi"
  unfolding chi_contract_def
proof (intro conjI)
  show "chi_routes (sample_chi :: 'a chi)"
    unfolding chi_routes_def
  proof (intro allI)
    fix rs :: "(bytes \<times> bytes \<times> 'a Handler) list" and mts and r :: request and w s
    let ?f = "find (\<lambda>(m, p, H). m = rq_Method r \<and> sample_match p (rq_Path r) \<noteq> None) rs"
    have routed: "routed sample_chi rs mts r w s = sample_route rs r w s"
      by (simp add: routed_def sample_chi_def)
    show "(\<exists>pat H ps. (rq_Method r, pat, H) \<in> set rs \<and> chi_match sample_chi pat (rq_Path r) = Some ps \<and>
        routed sample_chi rs mts r w s = H (r\<lparr>rq_Params := ps\<rparr>) w s) \<or>
      (\<exists>pre H. (pre, H) \<in> set mts \<and> routed sample_chi rs mts r w s = H r w s) \<or>
      (\<exists>w' code. routed sample_chi rs mts r w s = (w', None, s) \<and> code \<in> {404, 405} \<and>
        (rs_Status w = None \<longrightarrow> rs_Status w' = Some code))"
    proof (cases ?f)
      case None
      then show ?thesis unfolding routed by (auto simp: sample_route_def)
    next
      case (Some z)
      obtain m p H where z: "z = (m, p, H)" by (metis prod.exhaust)
      with Some have "(m, p, H) \<in> set rs" "m = rq_Method r" "sample_match p (rq_Path r) \<noteq> None"
        by (auto simp: find_Some_iff) (metis nth_mem)
      then show ?thesis unfolding routed using Some z
        by (intro disjI1 exI [of _ p] exI [of _ H] exI [of _ "the (sample_match p (rq_Path r))"])
           (auto simp: sample_route_def sample_chi_def)
    qed
  qed
qed (simp_all add: chi_wraps_def chi_recovers_def chi_logs_def chi_profiles_def sample_chi_def)

lemma admin_denied:
  assumes "chi_contract c" "\<not> AdminAuthDisabled (cfg sv)"
    and "\<forall>u p. BasicAuth r = Some (u, p) \<longrightarrow> u \<noteq> AdminBasicUser (cfg sv) \<or> bcrypt_Compare x (AdminPasswordBcrypt (cfg sv)) p \<noteq> None"
  shows "\<exists>w s'. chi_ServeHTTP c (GetAdminRouter x c sv) r NewResponse s = (w, None, s') \<and> sent_status w = 401 \<and>
    map_of (rs_Header w) ''WWW-Authenticate'' = Some ''Basic realm=admin'' \<and> backend s' = backend s \<and> isReady s' = isReady s"
proof -
  let ?w = "http_Error ''Unauthorized'' 401 (Header_Set ''WWW-Authenticate'' ''Basic realm=admin'' NewResponse)"
  have "basicAuthMiddleware x sv nxt r NewResponse s = (?w, None, s)" for nxt
    using assms(2,3) by (auto simp: basicAuthMiddleware_def Let_def split: option.splits)
  then have "chi_ServeHTTP c (GetAdminRouter x c sv) r NewResponse s =
      (?w, None, recordRequestDuration (chi_RoutePattern c r) (elapsed_ms c r) s)"
    unfolding GetAdminRouter_def
    using serve_common [OF assms(1), of "[basicAuthMiddleware x sv]"] by (simp add: chi_contractD(1) [OF assms(1)])
  moreover have "sent_status ?w = 401" "map_of (rs_Header ?w) ''WWW-Authenticate'' = Some ''Basic realm=admin''"
    by code_simp+
  ultimately show ?thesis by (simp add: recordRequestDuration_def)
qed

text \<open>A path that only one route matches is served by the handler of that route.\<close>

lemma serve_route:
  assumes "chi_contract c" "routed c rs [] r w s = (w', p, s')" "rs_Status w = None" "rs_Status w' \<notin> {Some 404, Some 405}"
    and "\<And>pat H ps. (rq_Method r, pat, H) \<in> set rs \<Longrightarrow> chi_match c pat (rq_Path r) = Some ps \<Longrightarrow> H = H0"
  shows "\<exists>ps. H0 (r\<lparr>rq_Params := ps\<rparr>) w s = (w', p, s')"
proof (cases rule: routed_cases [OF assms(1), of r rs "[]" w s])
  case (1 pat H ps)
  then show ?thesis using assms(2,5) by metis
next
  case (3 w1 code)
  then show ?thesis using assms(2,3,4) by auto
qed simp

text \<open>A request that the check lets through is served as by the routes behind it.\<close>

lemma admin_passes:
  assumes "chi_contract c" "\<And>nxt. basicAuthMiddleware x sv nxt r w s = nxt r w s"
    and "routed c (mux_Routes (GetAdminRouter x c sv)) [] r w s = (w', p, s')"
  shows "chi_ServeHTTP c (GetAdminRouter x c sv) r w s =
    (if p = None then w' else recovered r w', None,
     recordRequestDuration (chi_RoutePattern c r) (elapsed_ms c r) s')"
proof -
  let ?rs = "mux_Routes (GetAdminRouter x c sv)"
  have "chi_ServeHTTP c \<lparr>mux_Use = [basicAuthMiddleware x sv], mux_Routes = ?rs, mux_Mounts = []\<rparr> r w s = (w', p, s')"
    unfolding chi_contractD(1) [OF assms(1)] assms(2) using assms(3) by (simp only: routed_def)
  from serve_common [OF assms(1) this]
  show ?thesis by (simp add: GetAdminRouter_def)
qed

section \<open>Properties\<close>

text \<open>C7: Unless authentication is disabled by the flag, the admin API answers every request without
  valid Basic credentials, on any path, with status 401 and a challenge, and nothing behind it
  changes, whatever handlers it has: the check comes before the routing. With the flag such a
  request is routed to the handlers like any other.\<close>

theorem admin_router_closed:
  assumes "chi_contract c"
    and "\<forall>u p. BasicAuth r = Some (u, p) \<longrightarrow> u \<noteq> AdminBasicUser (cfg sv) \<or> bcrypt_Compare x (AdminPasswordBcrypt (cfg sv)) p \<noteq> None"
  shows "if AdminAuthDisabled (cfg sv)
    then \<exists>w p s'. routed c (mux_Routes (GetAdminRouter x c sv)) [] r NewResponse s = (w, p, s') \<and>
      chi_ServeHTTP c (GetAdminRouter x c sv) r NewResponse s = (if p = None then w else recovered r w, None,
        recordRequestDuration (chi_RoutePattern c r) (elapsed_ms c r) s')
    else \<exists>w s'. chi_ServeHTTP c (GetAdminRouter x c sv) r NewResponse s = (w, None, s') \<and> sent_status w = 401 \<and>
      map_of (rs_Header w) ''WWW-Authenticate'' = Some ''Basic realm=admin'' \<and> backend s' = backend s \<and> isReady s' = isReady s"
proof (cases "AdminAuthDisabled (cfg sv)")
  case True
  let ?z = "routed c (mux_Routes (GetAdminRouter x c sv)) [] r NewResponse s"
  have z: "?z = (fst ?z, fst (snd ?z), snd (snd ?z))" by simp
  have pass: "basicAuthMiddleware x sv nxt r NewResponse s = nxt r NewResponse s" for nxt
    using True by (simp add: basicAuthMiddleware_def)
  show ?thesis unfolding if_P [OF True] by (intro exI conjI, rule z, rule admin_passes [OF assms(1) pass z])
next
  case False
  then show ?thesis using admin_denied [OF assms(1) False assms(2)] by simp
qed

definition sample_conf :: HTTPServerConfig where
  "sample_conf = \<lparr>ListenAddr = '':8080'', MetricsAddr = '':8090'', AdminAddr = '':8081'', InternalAddr = '':8082'',
     EnablePprof = False, DrainDuration = 15000000000, GracefulShutdownDuration = 30000000000,
     ReadTimeout = 60000000000, WriteTimeout = 30000000000, AdminBasicUser = ''admin'',
     AdminPasswordBcrypt = ''hash'', AdminAuthDisabled = False\<rparr>"

definition sample_server :: "(db, InmemorySecretService) Server" where
  "sample_server = \<lparr>cfg = sample_conf, appHandler = db_handler sample_ext inmem_accessor,
     adminHandler = db_admin sample_ext inmem_service, srv = None, adminSrv = None, internalSrv = None,
     metricsSrv = NewMetricsServer '':8090'', mockGetConfigResponse = [], mockGetBuildersResponse = [],
     mockGetMeasurementsResponse = []\<rparr>"

definition sample_sstate :: "(db \<times> InmemorySecretService) server_state" where
  "sample_sstate = \<lparr>isReady = True, slept = 0, summaries = [], backend = sample_state\<rparr>"

definition open_server :: "(db, InmemorySecretService) Server" where
  "open_server = sample_server\<lparr>cfg := sample_conf\<lparr>AdminAuthDisabled := True\<rparr>\<rparr>"

theorem admin_router_closed_witness:
  "(\<exists>w s'. chi_ServeHTTP sample_chi (GetAdminRouter sample_ext sample_chi sample_server)
      (add_request\<lparr>rq_Header := [(''Authorization'', [''Basic YWRtaW46d3Jvbmc=''])]\<rparr>) NewResponse sample_sstate = (w, None, s') \<and>
     sent_status w = 401) \<and>
   sent_status (fst (chi_ServeHTTP sample_chi (GetAdminRouter sample_ext sample_chi open_server)
      ((activate_request ''beta'')\<lparr>rq_Method := ''POST'', rq_Path := ''/api/admin/v1/builders/activation/beta''\<rparr>)
      NewResponse sample_sstate)) = 400"
proof (rule conjI)
  let ?r = "add_request\<lparr>rq_Header := [(''Authorization'', [''Basic YWRtaW46d3Jvbmc=''])]\<rparr>"
  have "BasicAuth ?r = Some (''admin'', ''wrong'')" by code_simp
  moreover have "bcrypt_Compare sample_ext (AdminPasswordBcrypt (cfg sample_server)) ''wrong'' \<noteq> None"
    "\<not> AdminAuthDisabled (cfg sample_server)"
    by (simp_all add: sample_ext_def sample_server_def sample_conf_def)
  ultimately show "\<exists>w s'. chi_ServeHTTP sample_chi (GetAdminRouter sample_ext sample_chi sample_server) ?r NewResponse sample_sstate =
      (w, None, s') \<and> sent_status w = 401"
    using admin_router_closed [OF sample_chi_contract, of ?r sample_server sample_ext sample_sstate] by auto
next
  let ?r = "(activate_request ''beta'')\<lparr>rq_Method := ''POST'', rq_Path := ''/api/admin/v1/builders/activation/beta''\<rparr>"
  let ?z = "routed sample_chi (mux_Routes (GetAdminRouter sample_ext sample_chi open_server)) [] ?r NewResponse sample_sstate"
  have ba: "BasicAuth ?r = None" "AdminAuthDisabled (cfg open_server)" by code_simp+
  have "sent_status (fst ?z) = 400" "fst (snd ?z) = None" by code_simp+
  then show "sent_status (fst (chi_ServeHTTP sample_chi (GetAdminRouter sample_ext sample_chi open_server) ?r
      NewResponse sample_sstate)) = 400"
    using admin_router_closed [OF sample_chi_contract, of ?r open_server sample_ext sample_sstate] ba by auto
qed

text \<open>The admin API admits who has the password: a request with the Base64 form of the
  configured user and a password that bcrypt accepts is routed to the admin handlers.\<close>

theorem admin_router_admits:
  assumes "chi_contract c" "CHR '':'' \<notin> set (AdminBasicUser (cfg sv))" "bcrypt_Compare x (AdminPasswordBcrypt (cfg sv)) pass = None"
    and "Header_Get r ''Authorization'' = ''Basic '' @ b64_encode (AdminBasicUser (cfg sv) @ CHR '':'' # pass)"
    and "routed c (mux_Routes (GetAdminRouter x c sv)) [] r w s = (w', p, s')"
  shows "chi_ServeHTTP c (GetAdminRouter x c sv) r w s =
    (if p = None then w' else recovered r w', None,
     recordRequestDuration (chi_RoutePattern c r) (elapsed_ms c r) s')"
  by (rule admin_passes [OF assms(1) _ assms(5)])
     (use BasicAuth_encoded [OF assms(4,2)] assms(3) in \<open>simp add: basicAuthMiddleware_def Let_def\<close>)

theorem admin_router_admits_witness:
  "sent_status (fst (chi_ServeHTTP sample_chi (GetAdminRouter sample_ext sample_chi sample_server)
      ((activate_request ''beta'')\<lparr>rq_Method := ''POST'', rq_Path := ''/api/admin/v1/builders/activation/beta'',
         rq_Header := [(''Authorization'', [''Basic YWRtaW46aGFzaA==''])]\<rparr>) NewResponse sample_sstate)) = 400"
proof -
  let ?r = "(activate_request ''beta'')\<lparr>rq_Method := ''POST'', rq_Path := ''/api/admin/v1/builders/activation/beta'',
    rq_Header := [(''Authorization'', [''Basic YWRtaW46aGFzaA==''])]\<rparr>"
  let ?rs = "mux_Routes (GetAdminRouter sample_ext sample_chi sample_server)"
  let ?z = "routed sample_chi ?rs [] ?r NewResponse sample_sstate"
  have r: "sent_status (fst ?z) = 400" "fst (snd ?z) = None" by code_simp+
  have h: "Header_Get ?r ''Authorization'' = ''Basic '' @ b64_encode (AdminBasicUser (cfg sample_server) @ CHR '':'' # ''hash'')"
    by code_simp
  have z: "?z = (fst ?z, fst (snd ?z), snd (snd ?z))" by simp
  have u: "CHR '':'' \<notin> set (AdminBasicUser (cfg sample_server))" by (simp add: sample_server_def sample_conf_def)
  have b: "bcrypt_Compare sample_ext (AdminPasswordBcrypt (cfg sample_server)) ''hash'' = None"
    by (simp add: sample_ext_def sample_server_def sample_conf_def)
  from admin_router_admits [OF sample_chi_contract u b h z] r show ?thesis by simp
qed

text \<open>C8: The public and the internal router have no way to the administration: whatever request
  comes in, the builders, the whitelisted measurements and the configurations stay as they are,
  and the request is answered (a panic of a handler, as in the request for the configuration
  secrets, becomes a response).\<close>

theorem public_router_scope:
  fixes c :: "(db \<times> 's) server_state chi"
  assumes "chi_contract c" "appHandler sv = db_handler x sa" "m \<in> {GetRouter x c sv, GetInternalRouter x c sv}"
  shows "\<exists>w' s'. chi_ServeHTTP c m r w s = (w', None, s') \<and>
    builders (tabs (fst (backend s'))) = builders (tabs (fst (backend s))) \<and>
    measurements_whitelist (tabs (fst (backend s'))) = measurements_whitelist (tabs (fst (backend s))) \<and>
    builder_configs (tabs (fst (backend s'))) = builder_configs (tabs (fst (backend s)))"
proof -
  let ?Q = "\<lambda>s :: (db \<times> 's) server_state. base_tables (tabs (fst (backend s)))"
  have prof: "?Q (snd (snd (chi_Profiler c r w s))) = ?Q s" for r w s
    using chi_contractD(4) [OF assms(1), of r w s] by (metis snd_conv)
  have pub: "\<exists>w' s'. chi_ServeHTTP c (GetRouter x c sv) r w s = (w', None, s') \<and> ?Q s' = ?Q s"
    unfolding GetRouter_def assms(2)
    by (rule serve_keeps [OF assms(1)])
       (auto simp: on_backend_keeps [OF keeps_base_app(1)] on_backend_keeps [OF keeps_base_app(2)]
         on_backend_keeps [OF keeps_base_app(3)] on_backend_keeps [OF keeps_base_app(4)]
         on_backend_keeps [OF keeps_base_app(5)] on_backend_keeps [OF keeps_base_app(6)] system_keeps prof split: if_splits)
  have int: "\<exists>w' s'. chi_ServeHTTP c (GetInternalRouter x c sv) r w s = (w', None, s') \<and> ?Q s' = ?Q s"
    unfolding GetInternalRouter_def assms(2)
    by (rule serve_keeps [OF assms(1)])
       (auto simp: on_backend_keeps [OF keeps_base_app(1)] on_backend_keeps [OF keeps_base_app(3)]
         on_backend_keeps [OF keeps_base_app(4)])
  from assms(3) pub int have "\<exists>w' s'. chi_ServeHTTP c m r w s = (w', None, s') \<and> ?Q s' = ?Q s" by blast
  then show ?thesis by (auto simp: base_tables_def)
qed

theorem public_router_scope_witness:
  "\<exists>w' s'. chi_ServeHTTP sample_chi (GetRouter sample_ext sample_chi sample_server)
     (sample_request\<lparr>rq_Header := [(AttestationTypeHeader, [[CHR 0xFF]]), (MeasurementHeader, [''{}'']),
       (ForwardedHeader, [''10.0.0.7''])]\<rparr>) NewResponse sample_sstate = (w', None, s') \<and> sent_status w' = 500 \<and>
     builders (tabs (fst (backend s'))) = builders (tabs sample_db)"
proof -
  let ?r = "sample_request\<lparr>rq_Header := [(AttestationTypeHeader, [[CHR 0xFF]]), (MeasurementHeader, [''{}'']),
    (ForwardedHeader, [''10.0.0.7''])]\<rparr>"
  let ?z = "chi_ServeHTTP sample_chi (GetRouter sample_ext sample_chi sample_server) ?r NewResponse sample_sstate"
  have "appHandler sample_server = db_handler sample_ext inmem_accessor" by (simp add: sample_server_def)
  from public_router_scope [OF sample_chi_contract this, of "GetRouter sample_ext sample_chi sample_server" ?r NewResponse sample_sstate]
  obtain w' s' where z: "?z = (w', None, s')" "builders (tabs (fst (backend s'))) = builders (tabs (fst (backend sample_sstate)))"
    by blast
  have "sent_status (fst ?z) = 500" by code_simp
  with z show ?thesis by (simp add: sample_sstate_def sample_state_def)
qed

text \<open>The requests to the system endpoints.\<close>

datatype sys_request = Livez | Readyz | Drain | Undrain

fun sys_handler :: "HTTPServerConfig \<Rightarrow> sys_request \<Rightarrow> 'h server_state Handler" where
  "sys_handler cf Livez = handleLivenessCheck"
| "sys_handler cf Readyz = handleReadinessCheck"
| "sys_handler cf Drain = handleDrain cf"
| "sys_handler cf Undrain = handleUndrain"

definition sys_run :: "HTTPServerConfig \<Rightarrow> (sys_request \<times> request) list \<Rightarrow> 'h server_state \<Rightarrow> 'h server_state" where
  "sys_run cf qs s = fold (\<lambda>(q, r) s. snd (snd (sys_handler cf q r NewResponse s))) qs s"

lemma sys_run_snoc: "sys_run cf (qs @ [(q, r)]) s = snd (snd (sys_handler cf q r NewResponse (sys_run cf qs s)))"
  by (simp add: sys_run_def)

lemma isReady_step:
  "isReady (snd (snd (sys_handler cf q r w s))) = (if q = Drain then False else if q = Undrain then True else isReady s)"
  by (cases q) (simp_all add: handleLivenessCheck_def handleReadinessCheck_def handleDrain_def handleUndrain_def Let_def)

text \<open>Whether the server is ready after some requests: the last of the drain and undrain requests
  decides.\<close>

definition ready_after :: "bool \<Rightarrow> sys_request list \<Rightarrow> bool" where
  "ready_after b qs = (let ds = filter (\<lambda>q. q = Drain \<or> q = Undrain) qs in if ds = [] then b else last ds = Undrain)"

lemma ready_after_snoc: "ready_after b (qs @ [q]) = (if q = Drain then False else if q = Undrain then True else ready_after b qs)"
  by (simp add: ready_after_def Let_def)

text \<open>The indices of the drain requests that reach a ready server.\<close>

definition ready_drains :: "bool \<Rightarrow> sys_request list \<Rightarrow> nat list" where
  "ready_drains b qs = filter (\<lambda>i. qs ! i = Drain \<and> ready_after b (take i qs)) [0..<length qs]"

lemma ready_drains_snoc:
  "length (ready_drains b (qs @ [q])) = length (ready_drains b qs) + (if q = Drain \<and> ready_after b qs then 1 else 0)"
proof -
  have "filter (\<lambda>i. (qs @ [q]) ! i = Drain \<and> ready_after b (take i (qs @ [q]))) [0..<length qs] = ready_drains b qs"
    unfolding ready_drains_def by (rule filter_cong) (simp_all add: nth_append)
  then show ?thesis by (simp add: ready_drains_def)
qed

lemma slept_step:
  "slept (snd (snd (sys_handler cf q r w s))) = slept s + (if q = Drain \<and> isReady s then max 0 (sint (DrainDuration cf)) else 0)"
  by (cases q) (simp_all add: handleLivenessCheck_def handleReadinessCheck_def handleDrain_def handleUndrain_def Let_def)

lemma sys_run_state:
  "isReady (sys_run cf qs s) = ready_after (isReady s) (map fst qs) \<and>
   slept (sys_run cf qs s) = slept s + int (length (ready_drains (isReady s) (map fst qs))) * max 0 (sint (DrainDuration cf)) \<and>
   backend (sys_run cf qs s) = backend s"
proof (induction qs rule: rev_induct)
  case (snoc z qs)
  obtain q r where "z = (q, r)" by (cases z)
  moreover have "backend (snd (snd (sys_handler cf q r NewResponse s'))) = backend s'" for s' :: "'a server_state"
    by (cases q) (simp_all add: system_keeps)
  ultimately show ?case
    using snoc by (simp add: sys_run_snoc isReady_step slept_step ready_after_snoc ready_drains_snoc distrib_right)
qed (simp add: sys_run_def ready_after_def ready_drains_def)

text \<open>C27: After any sequence of requests to the system endpoints the readiness check answers 503
  exactly when the last of the drain and undrain requests was a drain (and as in the beginning
  when there was none) and liveness stays 200; the time that the requests have waited altogether
  is the drain duration once for each drain that found the server ready, so that no other
  request waits; and they change nothing else behind the server.\<close>

theorem readiness_follows_drain:
  "let s' = sys_run cf qs s; ds = filter (\<lambda>q. q = Drain \<or> q = Undrain) (map fst qs);
       ready = (if ds = [] then isReady s else last ds = Undrain) in
   sent_status (fst (handleReadinessCheck r NewResponse s')) = (if ready then 200 else 503) \<and>
   sent_status (fst (handleLivenessCheck r NewResponse s')) = 200 \<and>
   slept (snd (snd (handleDrain cf r NewResponse s'))) = slept s' + (if ready then max 0 (sint (DrainDuration cf)) else 0) \<and>
   slept s' = slept s + max 0 (sint (DrainDuration cf)) *
     int (length (filter (\<lambda>i. map fst qs ! i = Drain \<and> ready_after (isReady s) (take i (map fst qs))) [0..<length qs])) \<and>
   backend s' = backend s"
  using sys_run_state [of cf qs s]
  by (auto simp: Let_def ready_after_def ready_drains_def handleReadinessCheck_def handleLivenessCheck_def handleDrain_def)

text \<open>C28: Shutting down stops exactly the servers that were started, each once, with its own
  result, provided the goroutine of the metrics server has run; before that, with a metrics
  address, it stops the three others, dereferences the missing inner server and panics.\<close>

theorem Shutdown_stops_started:
  "if MetricsAddr (cfg sv) \<noteq> [] \<and> \<not> ms_started (metricsSrv sv)
   then Shutdown res sv = (map (\<lambda>i. (i, res i)) [ApiSrv, InternalSrv, AdminSrv], Some nil_deref)
   else \<exists>ids. Shutdown res sv = (map (\<lambda>i. (i, res i)) ids, None) \<and> mset ids = mset (map fst (RunInBackground sv)) \<and> distinct ids"
proof (cases "MetricsAddr (cfg sv) = []")
  case True
  then show ?thesis
    by (auto simp: Shutdown_def RunInBackground_def intro!: exI [of _ "[ApiSrv, InternalSrv, AdminSrv]"])
next
  case False
  show ?thesis
  proof (cases "ms_started (metricsSrv sv)")
    case True
    have "Shutdown res sv = (map (\<lambda>i. (i, res i)) [ApiSrv, InternalSrv, AdminSrv, MetricsSrv], None)"
      using False True by (simp add: Shutdown_def ms_Shutdown_def)
    moreover have "mset [ApiSrv, InternalSrv, AdminSrv, MetricsSrv] = mset (map fst (RunInBackground sv))"
      "distinct [ApiSrv, InternalSrv, AdminSrv, MetricsSrv]"
      using False by (simp_all add: RunInBackground_def)
    ultimately have "\<exists>ids. Shutdown res sv = (map (\<lambda>i. (i, res i)) ids, None) \<and>
        mset ids = mset (map fst (RunInBackground sv)) \<and> distinct ids" by blast
    with True show ?thesis by simp
  qed (use False in \<open>simp add: Shutdown_def ms_Shutdown_def\<close>)
qed

end
