(* ===== verification/Metrics_Router.thy ===== *)
theory Metrics_Router
  imports Http_Server
begin

text \<open>
  \<open>metrics/server.go\<close>: the router of the metrics listener. The text of the metrics
  (\<open>metrics.WritePrometheus\<close> of the metrics library, with the process metrics) is a parameter on
  the recorded durations. The listener only reads.
\<close>

section \<open>The router\<close>

text \<open>The methods that \<open>HandleFunc\<close> registers a pattern for.\<close>

definition all_methods :: "bytes list" where
  "all_methods = [''CONNECT'', ''DELETE'', ''GET'', ''HEAD'', ''OPTIONS'', ''PATCH'', ''POST'', ''PUT'', ''TRACE'']"

definition write_metrics :: "((bytes \<times> int) list \<Rightarrow> bytes) \<Rightarrow> 'h server_state Handler" where
  "write_metrics WritePrometheus r w s = replies (Write (WritePrometheus (summaries s)) w) s"

text \<open>\<open>log\<close>: a logger is set. The server that \<open>NewHTTPServer\<close> makes has none.\<close>

definition ms_getRouter ::
  "((bytes \<times> int) list \<Rightarrow> bytes) \<Rightarrow> 'h server_state chi \<Rightarrow> bool \<Rightarrow> 'h server_state mux" where
  "ms_getRouter WritePrometheus c log = \<lparr>
     mux_Use = (if log then [httplog_RequestLogger c] else []) @ [chi_Recoverer c],
     mux_Routes = map (\<lambda>meth. (meth, ''/metrics'', write_metrics WritePrometheus)) all_methods,
     mux_Mounts = []\<rparr>"

section \<open>What it serves\<close>

text \<open>Every request gets the metrics or status 404 or 405, with any method; nothing changes, and
  being asked for the metrics is not itself recorded.\<close>

lemma metrics_served:
  assumes "chi_contract c"
  obtains w where "chi_ServeHTTP c (ms_getRouter wp c log) r NewResponse s = (w, None, s)"
    "sent_status w = 200 \<and> rs_Body w = wp (summaries s) \<or> sent_status w \<in> {404, 405}"
proof -
  let ?rs = "mux_Routes (ms_getRouter wp c log)"
  obtain w p s' where in1: "routed c ?rs [] r NewResponse s = (w, p, s')" by (metis prod.exhaust)
  have inner: "p = None \<and> s' = s \<and> (sent_status w = 200 \<and> rs_Body w = wp (summaries s) \<or> sent_status w \<in> {404, 405})"
    using in1
    by (cases rule: routed_cases [OF assms, of r ?rs "[]" NewResponse s])
      (auto simp: ms_getRouter_def write_metrics_def)
  then have "chi_Recoverer c (routed c ?rs []) r NewResponse s = (w, None, s)"
    using in1 by (simp add: chi_contractD(2) [OF assms])
  then have "chi_ServeHTTP c (ms_getRouter wp c log) r NewResponse s = (w, None, s)"
    by (auto simp: ms_getRouter_def routed_def chi_contractD(1) [OF assms] chi_contractD(3) [OF assms])
  with inner that show ?thesis by blast
qed

text \<open>The path is registered for every method.\<close>

lemma metrics_route_found:
  "m \<in> set all_methods \<Longrightarrow> (m, ''/metrics'', write_metrics wp) \<in> set (mux_Routes (ms_getRouter wp c log))"
  by (simp add: ms_getRouter_def)

end
