(* ===== verification/Database_Tx.thy ===== *)
theory Database_Tx
  imports Hub_System
begin

text \<open>
  The two transactions of the service statement by statement. Both have the same shape: begin,
  an \<open>UPDATE\<close> that retires rows of one key, an \<open>INSERT\<close> of the new live row of that key, commit.
  Postgres runs them at its default isolation level, \<open>READ COMMITTED\<close>, of which the model has
  what its documentation says: the \<open>UPDATE\<close> selects its rows among those committed when it
  starts, takes them one by one, waits for a row that another open transaction has updated, and
  applies its condition again to what that transaction has left; the unique index makes an
  insertion wait while another open transaction has inserted a row of the same key, and refuses
  it when a live row of the key is committed that the transaction has not itself retired. A
  transaction may fail at any moment, which leaves nothing.

  The claim is that this level is enough: a commit does to the tables what the operation does
  when it runs alone at that moment, so every interleaving of statements is an interleaving of
  whole operations.
\<close>

section \<open>Transactions that replace the live row of a key\<close>

text \<open>What the statements do to the rows of one table: the primary key, the key of the unique
  index, the rows the index covers, the condition of the \<open>UPDATE\<close> and its assignment at a time.\<close>

record ('row, 'k) row_ops =
  ro_id :: "'row \<Rightarrow> nat"
  ro_key :: "'row \<Rightarrow> 'k"
  ro_live :: "'row \<Rightarrow> bool"
  ro_where :: "'k \<Rightarrow> 'row \<Rightarrow> bool"
  ro_retire :: "nat \<Rightarrow> 'row \<Rightarrow> 'row"

text \<open>Before the \<open>UPDATE\<close>, in it with the rows still to take, after the \<open>INSERT\<close>.\<close>

datatype 'row phase = Begun | Updating "nat set" | Inserted 'row

text \<open>An open transaction: its key, the time of its start (\<open>NOW()\<close>), the rows it has updated.\<close>

record ('row, 'k) tx =
  tx_key :: 'k
  tx_now :: nat
  tx_rows :: "nat set"
  tx_phase :: "'row phase"

type_synonym ('row, 'k) txs = "nat \<rightharpoonup> ('row, 'k) tx"

text \<open>The rows after the updates of a transaction, as it sees them and as its commit leaves them.\<close>

definition own_view :: "('row, 'k) row_ops \<Rightarrow> ('row, 'k) tx \<Rightarrow> 'row list \<Rightarrow> 'row list" where
  "own_view ro t rs = map (\<lambda>r. if ro_id ro r \<in> tx_rows t then ro_retire ro (tx_now t) r else r) rs"

definition where_ids :: "('row, 'k) row_ops \<Rightarrow> 'k \<Rightarrow> 'row list \<Rightarrow> nat set" where
  "where_ids ro k rs = ro_id ro ` {r \<in> set rs. ro_where ro k r}"

text \<open>\<open>ins now view r\<close>: the \<open>INSERT\<close> of a transaction begun at \<open>now\<close> succeeds on the rows it sees
  with the row \<open>r\<close>. The serial column gives a new number.\<close>

inductive tx_step :: "('row, 'k) row_ops \<Rightarrow> (nat \<Rightarrow> 'row list \<Rightarrow> 'row \<Rightarrow> bool)
    \<Rightarrow> 'row list \<times> ('row, 'k) txs \<Rightarrow> 'row list \<times> ('row, 'k) txs \<Rightarrow> bool" for ro ins where
  Tx_Begin: "txs i = None \<Longrightarrow>
    tx_step ro ins (rs, txs) (rs, txs(i \<mapsto> \<lparr>tx_key = k, tx_now = now, tx_rows = {}, tx_phase = Begun\<rparr>))"
| Tx_Select: "txs i = Some t \<Longrightarrow> tx_phase t = Begun \<Longrightarrow>
    tx_step ro ins (rs, txs) (rs, txs(i \<mapsto> t\<lparr>tx_phase := Updating (where_ids ro (tx_key t) rs)\<rparr>))"
| Tx_Take: "txs i = Some t \<Longrightarrow> tx_phase t = Updating todo \<Longrightarrow> r \<in> set rs \<Longrightarrow> ro_id ro r \<in> todo \<Longrightarrow>
    (\<forall>j t'. j \<noteq> i \<longrightarrow> txs j = Some t' \<longrightarrow> ro_id ro r \<notin> tx_rows t') \<Longrightarrow>
    tx_step ro ins (rs, txs) (rs, txs(i \<mapsto> t\<lparr>tx_phase := Updating (todo - {ro_id ro r}),
      tx_rows := (if ro_where ro (tx_key t) r then insert (ro_id ro r) (tx_rows t) else tx_rows t)\<rparr>))"
| Tx_Insert: "txs i = Some t \<Longrightarrow> tx_phase t = Updating {} \<Longrightarrow> ins (tx_now t) (own_view ro t rs) r \<Longrightarrow>
    ro_key ro r = tx_key t \<Longrightarrow> ro_id ro r \<notin> ro_id ro ` set rs \<Longrightarrow>
    (\<forall>j t' r'. txs j = Some t' \<longrightarrow> tx_phase t' = Inserted r' \<longrightarrow> ro_id ro r' \<noteq> ro_id ro r \<and> ro_key ro r' \<noteq> ro_key ro r) \<Longrightarrow>
    tx_step ro ins (rs, txs) (rs, txs(i \<mapsto> t\<lparr>tx_phase := Inserted r\<rparr>))"
| Tx_Commit: "txs i = Some t \<Longrightarrow> tx_phase t = Inserted r \<Longrightarrow>
    tx_step ro ins (rs, txs) (own_view ro t rs @ [r], txs(i := None))"
| Tx_Abort: "tx_step ro ins (rs, txs) (rs, txs(i := None))"

inductive_cases tx_stepE: "tx_step ro ins z z'"

section \<open>What holds between the statements\<close>

text \<open>Nothing has been missed so far: every row of the key is among those the \<open>UPDATE\<close> has taken
  or will take, or one it does not know is live, which dooms the insertion.\<close>

definition none_missed :: "('row, 'k) row_ops \<Rightarrow> 'row list \<Rightarrow> 'k \<Rightarrow> nat set \<Rightarrow> bool" where
  "none_missed ro rs k ids \<longleftrightarrow> where_ids ro k rs \<subseteq> ids"

definition doomed :: "('row, 'k) row_ops \<Rightarrow> 'row list \<Rightarrow> 'k \<Rightarrow> nat set \<Rightarrow> bool" where
  "doomed ro rs k ids \<longleftrightarrow> (\<exists>r\<in>set rs. ro_live ro r \<and> ro_key ro r = k \<and> ro_id ro r \<notin> ids)"

definition phase_ok :: "('row, 'k) row_ops \<Rightarrow> 'row list \<Rightarrow> ('row, 'k) tx \<Rightarrow> bool" where
  "phase_ok ro rs t \<longleftrightarrow> (case tx_phase t of
     Begun \<Rightarrow> tx_rows t = {}
   | Updating todo \<Rightarrow> todo \<subseteq> ro_id ro ` set rs \<and>
       (none_missed ro rs (tx_key t) (todo \<union> tx_rows t) \<or> doomed ro rs (tx_key t) (todo \<union> tx_rows t))
   | Inserted r \<Rightarrow> none_missed ro rs (tx_key t) (tx_rows t) \<and> ro_live ro r \<and> ro_key ro r = tx_key t \<and>
       ro_id ro r \<notin> ro_id ro ` set rs)"

definition apart :: "('row, 'k) row_ops \<Rightarrow> ('row, 'k) tx \<Rightarrow> ('row, 'k) tx \<Rightarrow> bool" where
  "apart ro t t' \<longleftrightarrow> tx_rows t \<inter> tx_rows t' = {} \<and>
     (\<forall>r r'. tx_phase t = Inserted r \<longrightarrow> tx_phase t' = Inserted r' \<longrightarrow>
        ro_key ro r \<noteq> ro_key ro r' \<and> ro_id ro r \<noteq> ro_id ro r')"

lemma apart_sym: "apart ro t t' \<Longrightarrow> apart ro t' t"
  unfolding apart_def by (metis Int_commute)

definition txs_ok :: "('row, 'k) row_ops \<Rightarrow> 'row list \<times> ('row, 'k) txs \<Rightarrow> bool" where
  "txs_ok ro z \<longleftrightarrow> (case z of (rs, txs) \<Rightarrow>
     distinct (map (ro_id ro) rs) \<and>
     (\<forall>i t. txs i = Some t \<longrightarrow> phase_ok ro rs t \<and> tx_rows t \<subseteq> where_ids ro (tx_key t) rs) \<and>
     (\<forall>i j t t'. i \<noteq> j \<longrightarrow> txs i = Some t \<longrightarrow> txs j = Some t' \<longrightarrow> apart ro t t'))"

lemma txs_okD:
  assumes "txs_ok ro (rs, txs)"
  shows "distinct (map (ro_id ro) rs)"
    and "txs i = Some t \<Longrightarrow> phase_ok ro rs t"
    and "txs i = Some t \<Longrightarrow> tx_rows t \<subseteq> where_ids ro (tx_key t) rs"
    and "i \<noteq> j \<Longrightarrow> txs i = Some t \<Longrightarrow> txs j = Some t' \<Longrightarrow> apart ro t t'"
  using assms unfolding txs_ok_def prod.case by blast+

lemma txs_okI:
  assumes "distinct (map (ro_id ro) rs)"
    and "\<And>i t. txs i = Some t \<Longrightarrow> phase_ok ro rs t \<and> tx_rows t \<subseteq> where_ids ro (tx_key t) rs"
    and "\<And>i j t t'. i \<noteq> j \<Longrightarrow> txs i = Some t \<Longrightarrow> txs j = Some t' \<Longrightarrow> apart ro t t'"
  shows "txs_ok ro (rs, txs)"
  using assms unfolding txs_ok_def prod.case by blast

locale replacing =
  fixes ro :: "('row, 'k) row_ops" and ins :: "nat \<Rightarrow> 'row list \<Rightarrow> 'row \<Rightarrow> bool"
  assumes where_key: "ro_where ro k r \<Longrightarrow> ro_key ro r = k"
    and live_where: "ro_live ro r \<Longrightarrow> ro_where ro (ro_key ro r) r"
    and retire: "ro_id ro (ro_retire ro now r) = ro_id ro r" "ro_key ro (ro_retire ro now r) = ro_key ro r"
      "\<not> ro_live ro (ro_retire ro now r)"
    and where_retire: "ro_where ro k (ro_retire ro now r) \<Longrightarrow> ro_where ro k r"
    and ins_live: "ins now view r \<Longrightarrow> ro_live ro r"
    and ins_unique: "ins now view r \<Longrightarrow> r' \<in> set view \<Longrightarrow> ro_live ro r' \<Longrightarrow> ro_key ro r' \<noteq> ro_key ro r"
begin

lemma ids_own_view: "map (ro_id ro) (own_view ro t rs) = map (ro_id ro) rs"
  by (simp add: own_view_def retire)

lemma where_ids_keys: "n \<in> where_ids ro k rs \<Longrightarrow> \<exists>r\<in>set rs. ro_id ro r = n \<and> ro_key ro r = k"
  using where_key by (auto simp: where_ids_def)

text \<open>After the insertion a transaction has taken exactly the rows its condition selects.\<close>

lemma inserted_rows:
  assumes "txs_ok ro (rs, txs)" "txs i = Some t" "tx_phase t = Inserted r"
  shows "tx_rows t = where_ids ro (tx_key t) rs"
  using assms by (force simp: txs_ok_def phase_ok_def none_missed_def)

lemma commit_replaces:
  assumes "txs_ok ro (rs, txs)" "txs i = Some t" "tx_phase t = Inserted r"
  shows "own_view ro t rs = map (\<lambda>r. if ro_where ro (tx_key t) r then ro_retire ro (tx_now t) r else r) rs"
proof -
  have inj: "inj_on (ro_id ro) (set rs)" using assms(1) by (simp add: txs_ok_def distinct_map)
  have "ro_id ro r' \<in> tx_rows t \<longleftrightarrow> ro_where ro (tx_key t) r'" if "r' \<in> set rs" for r'
    unfolding inserted_rows [OF assms] where_ids_def using that inj_on_image_mem_iff [OF inj that] by auto
  then show ?thesis by (simp add: own_view_def)
qed

text \<open>A change of one transaction.\<close>

lemma update_tx:
  assumes ok: "txs_ok ro (rs, txs)" and "phase_ok ro rs t" "tx_rows t \<subseteq> where_ids ro (tx_key t) rs"
    and new: "\<And>j t'. j \<noteq> i \<Longrightarrow> txs j = Some t' \<Longrightarrow> apart ro t t'"
  shows "txs_ok ro (rs, txs(i \<mapsto> t))"
proof (rule txs_okI)
  show "distinct (map (ro_id ro) rs)" by (rule txs_okD(1) [OF ok])
  show "phase_ok ro rs t' \<and> tx_rows t' \<subseteq> where_ids ro (tx_key t') rs" if "(txs(i \<mapsto> t)) j = Some t'" for j t'
    using that assms(2,3) txs_okD(2,3) [OF ok] by (cases "j = i") auto
  show "apart ro t1 t2" if "j \<noteq> j'" "(txs(i \<mapsto> t)) j = Some t1" "(txs(i \<mapsto> t)) j' = Some t2" for j j' t1 t2
  proof (cases "j = i")
    case True
    with that(1) have "j' \<noteq> i" by simp
    with True that(2,3) new [of j'] show ?thesis by simp
  next
    case False
    show ?thesis
    proof (cases "j' = i")
      case True
      with that new [OF False] show ?thesis by (auto intro: apart_sym)
    next
      case j': False
      with False that txs_okD(4) [OF ok \<open>j \<noteq> j'\<close>] show ?thesis by simp
    qed
  qed
qed

lemma same_row:
  assumes "distinct (map (ro_id ro) rs)" "r \<in> set rs" "r' \<in> set rs" "ro_id ro r = ro_id ro r'"
  shows "r = r'"
  using assms by (auto simp: distinct_map dest: inj_onD)

text \<open>What a commit leaves of the rows of another transaction.\<close>

lemma own_view_cases:
  assumes "r \<in> set (own_view ro t rs)"
  obtains r0 where "r0 \<in> set rs" "ro_id ro r0 \<notin> tx_rows t" "r = r0"
  | r0 where "r0 \<in> set rs" "ro_id ro r0 \<in> tx_rows t" "r = ro_retire ro (tx_now t) r0"
  using assms by (auto simp: own_view_def split: if_splits)

lemma own_view_kept: "r \<in> set rs \<Longrightarrow> ro_id ro r \<notin> tx_rows t \<Longrightarrow> r \<in> set (own_view ro t rs)"
  by (force simp: own_view_def)

lemma where_ids_kept:
  assumes "n \<in> where_ids ro k rs" "n \<notin> tx_rows t"
  shows "n \<in> where_ids ro k (own_view ro t rs @ [r])"
  using assms own_view_kept by (auto simp: where_ids_def)

lemma where_ids_commit:
  "where_ids ro k (own_view ro t rs @ [r]) \<subseteq> where_ids ro k rs \<union> (if ro_key ro r = k then {ro_id ro r} else {})"
proof
  fix n assume "n \<in> where_ids ro k (own_view ro t rs @ [r])"
  then obtain r' where r': "r' \<in> set (own_view ro t rs) \<or> r' = r" "ro_where ro k r'" "n = ro_id ro r'"
    by (auto simp: where_ids_def)
  show "n \<in> where_ids ro k rs \<union> (if ro_key ro r = k then {ro_id ro r} else {})"
  proof (cases "r' = r")
    case True
    with r' where_key show ?thesis by auto
  next
    case False
    with r'(1) have "r' \<in> set (own_view ro t rs)" by simp
    then show ?thesis
      by (cases rule: own_view_cases) (use r' where_retire retire(1) in \<open>auto simp: where_ids_def\<close>)
  qed
qed

lemma commit_other:
  assumes ok: "txs_ok ro (rs, txs)" and t: "txs i = Some t" "tx_phase t = Inserted r"
    and t': "j \<noteq> i" "txs j = Some t'"
  defines "rs' \<equiv> own_view ro t rs @ [r]"
  shows "phase_ok ro rs' t' \<and> tx_rows t' \<subseteq> where_ids ro (tx_key t') rs'"
proof
  note d = txs_okD(1) [OF ok] and pt = txs_okD(2,3) [OF ok t(1)]
  note pt' = txs_okD(2,3) [OF ok t'(2)]
  have apart: "tx_rows t \<inter> tx_rows t' = {}"
    "\<And>r'. tx_phase t' = Inserted r' \<Longrightarrow> ro_key ro r \<noteq> ro_key ro r' \<and> ro_id ro r \<noteq> ro_id ro r'"
    using txs_okD(4) [OF ok t'(1) t'(2) t(1)] t(2) unfolding apart_def by (blast, metis)
  have r: "ro_live ro r" "ro_key ro r = tx_key t" "ro_id ro r \<notin> ro_id ro ` set rs"
    using pt(1) t(2) by (simp_all add: phase_ok_def)
  have ids: "ro_id ro ` set rs' = insert (ro_id ro r) (ro_id ro ` set rs)"
    using arg_cong [OF ids_own_view [of t rs], of set] by (simp add: rs'_def)
  show "tx_rows t' \<subseteq> where_ids ro (tx_key t') rs'"
    using pt'(2) apart(1) where_ids_kept unfolding rs'_def by blast
  have sub: "where_ids ro (tx_key t') rs' \<subseteq> where_ids ro (tx_key t') rs" if "tx_key t' \<noteq> tx_key t"
    using where_ids_commit [of "tx_key t'" t rs r] that r(2) by (simp add: rs'_def)
  show "phase_ok ro rs' t'"
  proof (cases "tx_phase t'")
    case Begun
    with pt'(1) show ?thesis by (simp add: phase_ok_def)
  next
    case (Updating todo)
    let ?ids = "todo \<union> tx_rows t'"
    have todo: "todo \<subseteq> ro_id ro ` set rs" "none_missed ro rs (tx_key t') ?ids \<or> doomed ro rs (tx_key t') ?ids"
      using pt'(1) Updating by (simp_all add: phase_ok_def)
    have "none_missed ro rs' (tx_key t') ?ids \<or> doomed ro rs' (tx_key t') ?ids"
    proof (cases "tx_key t' = tx_key t")
      case True
      have "tx_rows t' \<subseteq> ro_id ro ` set rs" using pt'(2) by (auto simp: where_ids_def)
      with todo(1) r True have "doomed ro rs' (tx_key t') ?ids" by (auto simp: doomed_def rs'_def)
      then show ?thesis ..
    next
      case False
      have "r0 \<in> set rs'" if "r0 \<in> set rs" "ro_key ro r0 = tx_key t'" for r0
      proof -
        have "ro_id ro r0 \<notin> tx_rows t"
        proof
          assume "ro_id ro r0 \<in> tx_rows t"
          then have "ro_id ro r0 \<in> where_ids ro (tx_key t) rs" using pt(2) by (rule subsetD [rotated])
          then obtain r1 where r1: "r1 \<in> set rs" "ro_id ro r1 = ro_id ro r0" "ro_key ro r1 = tx_key t"
            using where_ids_keys by metis
          from same_row [OF d r1(1) that(1) r1(2)] r1(3) that(2) False show False by simp
        qed
        then show ?thesis using own_view_kept [OF that(1)] by (simp add: rs'_def)
      qed
      then have "doomed ro rs (tx_key t') ?ids \<Longrightarrow> doomed ro rs' (tx_key t') ?ids"
        unfolding doomed_def by blast
      moreover have "none_missed ro rs (tx_key t') ?ids \<Longrightarrow> none_missed ro rs' (tx_key t') ?ids"
        using sub [OF False] by (auto simp: none_missed_def)
      ultimately show ?thesis using todo(2) by blast
    qed
    with todo(1) Updating ids show ?thesis by (auto simp: phase_ok_def)
  next
    case (Inserted r')
    have r': "none_missed ro rs (tx_key t') (tx_rows t')" "ro_live ro r'" "ro_key ro r' = tx_key t'"
        "ro_id ro r' \<notin> ro_id ro ` set rs"
      using pt'(1) Inserted by (simp_all add: phase_ok_def)
    with apart(2) [OF Inserted] r(2) have "tx_key t' \<noteq> tx_key t" by auto
    from sub [OF this] r' apart(2) [OF Inserted] Inserted ids show ?thesis
      by (auto simp: phase_ok_def none_missed_def)
  qed
qed

lemma commit_ok:
  assumes ok: "txs_ok ro (rs, txs)" and t: "txs i = Some t" "tx_phase t = Inserted r"
  shows "txs_ok ro (own_view ro t rs @ [r], txs(i := None))"
proof -
  have "ro_id ro r \<notin> ro_id ro ` set rs" using txs_okD(2) [OF ok t(1)] t(2) by (simp add: phase_ok_def)
  then have d: "distinct (map (ro_id ro) (own_view ro t rs @ [r]))"
    using txs_okD(1) [OF ok] arg_cong [OF ids_own_view [of t rs], of set] by (simp add: ids_own_view)
  show ?thesis
  proof (rule txs_okI [OF d])
    show "phase_ok ro (own_view ro t rs @ [r]) t' \<and> tx_rows t' \<subseteq> where_ids ro (tx_key t') (own_view ro t rs @ [r])"
      if "(txs(i := None)) j = Some t'" for j t'
      using commit_other [OF ok t, of j t'] that by (cases "j = i") simp_all
    show "apart ro t1 t2" if "j \<noteq> j'" "(txs(i := None)) j = Some t1" "(txs(i := None)) j' = Some t2" for j j' t1 t2
      using txs_okD(4) [OF ok \<open>j \<noteq> j'\<close>] that by (cases "j = i"; cases "j' = i") simp_all
  qed
qed

lemma take_ok:
  assumes ok: "txs_ok ro (rs, txs)" and t: "txs i = Some t" "tx_phase t = Updating todo"
    and r: "r \<in> set rs" "ro_id ro r \<in> todo" "\<forall>j t'. j \<noteq> i \<longrightarrow> txs j = Some t' \<longrightarrow> ro_id ro r \<notin> tx_rows t'"
  shows "txs_ok ro (rs, txs(i \<mapsto> t\<lparr>tx_phase := Updating (todo - {ro_id ro r}),
      tx_rows := (if ro_where ro (tx_key t) r then insert (ro_id ro r) (tx_rows t) else tx_rows t)\<rparr>))"
proof -
  let ?rows = "if ro_where ro (tx_key t) r then insert (ro_id ro r) (tx_rows t) else tx_rows t"
  let ?ids = "todo \<union> tx_rows t" and ?ids' = "todo - {ro_id ro r} \<union> ?rows"
  note d = txs_okD(1) [OF ok] and pt = txs_okD(2,3) [OF ok t(1)]
  then have todo: "todo \<subseteq> ro_id ro ` set rs" "none_missed ro rs (tx_key t) ?ids \<or> doomed ro rs (tx_key t) ?ids"
    using t(2) by (simp_all add: phase_ok_def)
  have sel: "ro_id ro r \<in> where_ids ro (tx_key t) rs \<longleftrightarrow> ro_where ro (tx_key t) r"
    using same_row [OF d _ r(1)] r(1) by (auto simp: where_ids_def)
  have "where_ids ro (tx_key t) rs \<inter> ?ids \<subseteq> ?ids'" using sel by (cases "ro_where ro (tx_key t) r") auto
  then have "none_missed ro rs (tx_key t) ?ids \<Longrightarrow> none_missed ro rs (tx_key t) ?ids'"
    unfolding none_missed_def by blast
  moreover have "?ids' \<subseteq> ?ids" using r(2) by auto
  then have "doomed ro rs (tx_key t) ?ids \<Longrightarrow> doomed ro rs (tx_key t) ?ids'" unfolding doomed_def by blast
  ultimately have "none_missed ro rs (tx_key t) ?ids' \<or> doomed ro rs (tx_key t) ?ids'" using todo(2) by blast
  then have "phase_ok ro rs (t\<lparr>tx_phase := Updating (todo - {ro_id ro r}), tx_rows := ?rows\<rparr>)"
    using todo(1) by (auto simp: phase_ok_def)
  moreover have "?rows \<subseteq> where_ids ro (tx_key t) rs" using pt(2) sel by auto
  moreover have "?rows \<inter> tx_rows t' = {}" if "j \<noteq> i" "txs j = Some t'" for j t'
    using txs_okD(4) [OF ok \<open>j \<noteq> i\<close> [symmetric] t(1) that(2)] r(3) that by (auto simp: apart_def)
  ultimately show ?thesis by (intro update_tx [OF ok]) (simp_all add: apart_def)
qed

lemma insert_ok:
  assumes ok: "txs_ok ro (rs, txs)" and t: "txs i = Some t" "tx_phase t = Updating {}"
    and r: "ins (tx_now t) (own_view ro t rs) r" "ro_key ro r = tx_key t" "ro_id ro r \<notin> ro_id ro ` set rs"
      "\<forall>j t' r'. txs j = Some t' \<longrightarrow> tx_phase t' = Inserted r' \<longrightarrow> ro_id ro r' \<noteq> ro_id ro r \<and> ro_key ro r' \<noteq> ro_key ro r"
  shows "txs_ok ro (rs, txs(i \<mapsto> t\<lparr>tx_phase := Inserted r\<rparr>))"
proof -
  note pt = txs_okD(2,3) [OF ok t(1)]
  have "\<not> doomed ro rs (tx_key t) (tx_rows t)"
    using ins_unique [OF r(1)] own_view_kept r(2) by (auto simp: doomed_def)
  then have "none_missed ro rs (tx_key t) (tx_rows t)" using pt(1) t(2) by (simp add: phase_ok_def)
  then have "phase_ok ro rs (t\<lparr>tx_phase := Inserted r\<rparr>)"
    using ins_live [OF r(1)] r(2,3) by (simp add: phase_ok_def)
  moreover have "apart ro (t\<lparr>tx_phase := Inserted r\<rparr>) t'" if "j \<noteq> i" "txs j = Some t'" for j t'
    using txs_okD(4) [OF ok \<open>j \<noteq> i\<close> [symmetric] t(1) that(2)] r(4) that(2) by (fastforce simp: apart_def)
  ultimately show ?thesis
    using pt(2) by (intro update_tx [OF ok]) simp_all
qed

lemma tx_step_ok:
  assumes "tx_step ro ins z z'" "txs_ok ro z"
  shows "txs_ok ro z'"
  using assms
proof cases
  case (Tx_Begin txs i rs k now)
  with assms(2) show ?thesis by (auto intro!: update_tx simp: phase_ok_def apart_def)
next
  case (Tx_Select txs i t rs)
  note ok = assms(2) [unfolded Tx_Select(1)]
  have "tx_rows t = {}" using txs_okD(2) [OF ok Tx_Select(3)] Tx_Select(4) by (simp add: phase_ok_def)
  with ok Tx_Select(2) show ?thesis
    by (auto intro!: update_tx simp: phase_ok_def none_missed_def where_ids_def apart_def)
next
  case (Tx_Take txs i t todo r rs)
  show ?thesis unfolding Tx_Take(2)
    by (rule take_ok) (use assms(2) Tx_Take in simp_all)
next
  case (Tx_Insert txs i t rs r)
  show ?thesis unfolding Tx_Insert(2)
    by (rule insert_ok) (use assms(2) Tx_Insert in simp_all)
next
  case (Tx_Commit txs i t r rs)
  with assms(2) show ?thesis by (simp only: commit_ok)
next
  case (Tx_Abort rs txs i)
  have "txs_ok ro (rs, txs(i := None))"
    by (rule txs_okI) (use txs_okD [OF assms(2) [unfolded Tx_Abort(1)]] in \<open>auto split: if_splits\<close>)
  with Tx_Abort show ?thesis by simp
qed

end

end
