(* ===== verification/Tx_Interleaving.thy ===== *)
theory Tx_Interleaving
  imports Database_Tx
begin

text \<open>
  Concurrent requests with both transactions of the service running statement by statement: the
  rows and statements of registrations and configurations as instances of \<open>Database_Tx\<close>, the
  system in which the statements of open transactions and the single-statement operations of all
  requests interleave, and the proof that what is committed is what some interleaving of whole
  operations commits.
\<close>

section \<open>The two tables\<close>

definition cred_ops :: "(ServiceCredentialRegistration, bytes \<times> bytes) row_ops" where
  "cred_ops = \<lparr>ro_id = sr_ID, ro_key = cred_key, ro_live = sr_IsActive,
     ro_where = (\<lambda>k c. sr_BuilderName c = fst k \<and> sr_Service c = snd k),
     ro_retire = (\<lambda>now c. c\<lparr>sr_IsActive := False, sr_DeprecatedAt := Some now\<rparr>)\<rparr>"

definition config_ops :: "(BuilderConfig, bytes) row_ops" where
  "config_ops = \<lparr>ro_id = cr_ID, ro_key = cr_BuilderName, ro_live = cr_IsActive,
     ro_where = (\<lambda>b c. cr_BuilderName c = b \<and> cr_IsActive c),
     ro_retire = (\<lambda>now c. c\<lparr>cr_IsActive := False, cr_UpdatedAt := now\<rparr>)\<rparr>"

text \<open>They are the conditions and assignments of the \<open>UPDATE\<close> statements.\<close>

lemma deprecate_credentials_ops:
  "service_credential_registrations (tabs (snd (deprecate_credentials b s d))) =
     map (\<lambda>c. if ro_where cred_ops (b, s) c then ro_retire cred_ops (db_now d) c else c)
       (service_credential_registrations (tabs d))"
  by (simp add: deprecate_credentials_def upd_tabs_def cred_ops_def)

lemma deactivate_configs_ops:
  "builder_configs (tabs (snd (deactivate_configs b d))) =
     map (\<lambda>c. if ro_where config_ops b c then ro_retire config_ops (db_now d) c else c) (builder_configs (tabs d))"
  by (simp add: deactivate_configs_def upd_tabs_def config_ops_def)

text \<open>The \<open>INSERT\<close> statements, on the tables with the transaction's view of its own table.\<close>

definition cred_insert :: "tables \<Rightarrow> nat \<Rightarrow> ServiceCredentialRegistration list \<Rightarrow> ServiceCredentialRegistration \<Rightarrow> bool" where
  "cred_insert t now view r \<longleftrightarrow> (\<exists>b s cert pk mn ty reg d d'.
     list_all pg_text [b, s, cert, mn, ty, reg] \<and> tabs d = t\<lparr>service_credential_registrations := view\<rparr> \<and> db_now d = now \<and>
     insert_credentials b s (if cert \<noteq> [] then Some cert else None) pk mn ty reg d = (None, d') \<and>
     tabs d' = t\<lparr>service_credential_registrations := view @ [r]\<rparr>)"

definition config_insert :: "ext \<Rightarrow> tables \<Rightarrow> nat \<Rightarrow> BuilderConfig list \<Rightarrow> BuilderConfig \<Rightarrow> bool" where
  "config_insert x t now view r \<longleftrightarrow> (\<exists>b cfg d d'.
     pg_text b \<and> tabs d = t\<lparr>builder_configs := view\<rparr> \<and> db_now d = now \<and>
     insert_config x b cfg d = (None, d') \<and> tabs d' = t\<lparr>builder_configs := view @ [r]\<rparr>)"

text \<open>What such an insertion has found.\<close>

lemma cred_insertE:
  assumes "cred_insert t now view r"
  obtains b s cert pk mn ty reg mid i where "list_all pg_text [b, s, cert, mn, ty, reg]" "b \<in> set (builder_names t)"
    "scalar_id (filter (\<lambda>m. mr_Name m = mn \<and> mr_AttestationType m = ty) (measurements_whitelist t)) = Inr mid"
    "r = \<lparr>sr_ID = i, sr_BuilderName = b, sr_Service = s, sr_TLSCert = (if cert \<noteq> [] then Some cert else None),
       sr_ECDSAPubKey = pk, sr_IsActive = True, sr_CreatedAt = now, sr_DeprecatedAt = None,
       sr_MeasurementID = mid, sr_Region = reg\<rparr>"
    "\<not> (\<exists>c\<in>set view. sr_IsActive c \<and> sr_BuilderName c = b \<and> sr_Service c = s)"
proof -
  obtain b s cert pk mn ty reg d d' where ins: "list_all pg_text [b, s, cert, mn, ty, reg]"
      "tabs d = t\<lparr>service_credential_registrations := view\<rparr>" "db_now d = now"
      "insert_credentials b s (if cert \<noteq> [] then Some cert else None) pk mn ty reg d = (None, d')"
      "tabs d' = t\<lparr>service_credential_registrations := view @ [r]\<rparr>"
    using assms unfolding cred_insert_def by blast
  obtain mid where mid: "scalar_id (filter (\<lambda>m. mr_Name m = mn \<and> mr_AttestationType m = ty) (measurements_whitelist t)) = Inr mid"
    using ins(2,4) by (auto simp: insert_credentials_def split: sum.splits)
  have ok: "b \<in> set (builder_names t)" "\<not> (\<exists>c\<in>set view. sr_IsActive c \<and> sr_BuilderName c = b \<and> sr_Service c = s)"
    using ins(2,4) mid by (auto simp: insert_credentials_def Let_def split: if_splits)
  have "tabs d' = t\<lparr>service_credential_registrations := view @
      [cred_row d b s (if cert \<noteq> [] then Some cert else None) pk mid reg]\<rparr>"
    using ins(2,4) mid by (clarsimp simp: insert_credentials_def Let_def cred_row_def upd_tabs_def split: if_splits)
  then have "service_credential_registrations (t\<lparr>service_credential_registrations := view @ [r]\<rparr>) =
      service_credential_registrations (t\<lparr>service_credential_registrations := view @
        [cred_row d b s (if cert \<noteq> [] then Some cert else None) pk mid reg]\<rparr>)"
    using ins(5) by (simp only:)
  then have "r = cred_row d b s (if cert \<noteq> [] then Some cert else None) pk mid reg" by simp
  then show ?thesis by (intro that [OF ins(1) ok(1) mid _ ok(2), of "cred_seq d"]) (simp add: cred_row_def ins(3))
qed

lemma config_insertE:
  assumes "config_insert x t now view r"
  obtains b cfg j i where "pg_text b" "b \<in> set (builder_names t)" "pg_jsonb x cfg = Some j"
    "r = \<lparr>cr_ID = i, cr_BuilderName = b, cr_Config = j, cr_IsActive = True, cr_CreatedAt = now, cr_UpdatedAt = now\<rparr>"
    "\<not> (\<exists>c\<in>set view. cr_IsActive c \<and> cr_BuilderName c = b)"
proof -
  obtain b cfg d d' where ins: "pg_text b" "tabs d = t\<lparr>builder_configs := view\<rparr>" "db_now d = now"
      "insert_config x b cfg d = (None, d')" "tabs d' = t\<lparr>builder_configs := view @ [r]\<rparr>"
    using assms unfolding config_insert_def by blast
  obtain j where j: "pg_jsonb x cfg = Some j" using ins(4) by (auto simp: insert_config_def split: option.splits)
  have ok: "b \<in> set (builder_names t)" "\<not> (\<exists>c\<in>set view. cr_IsActive c \<and> cr_BuilderName c = b)"
    using ins(2,4) j by (auto simp: insert_config_def Let_def split: if_splits)
  let ?row = "\<lparr>cr_ID = config_seq d, cr_BuilderName = b, cr_Config = j, cr_IsActive = True, cr_CreatedAt = now, cr_UpdatedAt = now\<rparr>"
  have "tabs d' = t\<lparr>builder_configs := view @ [?row]\<rparr>"
    using ins(2-4) j by (clarsimp simp: insert_config_def Let_def upd_tabs_def split: if_splits)
  then have "builder_configs (t\<lparr>builder_configs := view @ [r]\<rparr>) = builder_configs (t\<lparr>builder_configs := view @ [?row]\<rparr>)"
    using ins(5) by (simp only:)
  then have "r = ?row" by simp
  then show ?thesis by (intro that [OF ins(1) ok(1) j _ ok(2)])
qed

interpretation cred_tx: replacing cred_ops "cred_insert t"
proof
  fix now and view :: "ServiceCredentialRegistration list" and r r'
  assume r: "cred_insert t now view r"
  show "ro_live cred_ops r" by (rule cred_insertE [OF r]) (simp add: cred_ops_def)
  assume "r' \<in> set view" "ro_live cred_ops r'"
  then show "ro_key cred_ops r' \<noteq> ro_key cred_ops r"
    by (rule_tac cred_insertE [OF r]) (auto simp: cred_ops_def cred_key_def)
qed (auto simp: cred_ops_def cred_key_def)

interpretation config_tx: replacing config_ops "config_insert x t"
proof
  fix now and view :: "BuilderConfig list" and r r'
  assume r: "config_insert x t now view r"
  show "ro_live config_ops r" by (rule config_insertE [OF r]) (simp add: config_ops_def)
  assume "r' \<in> set view" "ro_live config_ops r'"
  then show "ro_key config_ops r' \<noteq> ro_key config_ops r"
    by (rule_tac config_insertE [OF r]) (auto simp: config_ops_def)
qed (auto simp: config_ops_def)

section \<open>Operations that run alone\<close>

text \<open>What the two operations do on a database that answers, with the row they insert.\<close>

lemma insert_credentials_exact:
  assumes "scalar_id (filter (\<lambda>m. mr_Name m = mn \<and> mr_AttestationType m = ty) (measurements_whitelist (tabs d))) = Inr mid"
    and "varchar255 b" "b \<in> set (builder_names (tabs d))"
    and "\<not> (\<exists>c\<in>set (service_credential_registrations (tabs d)). sr_IsActive c \<and> sr_BuilderName c = b \<and> sr_Service c = s)"
  shows "insert_credentials b s cert pk mn ty reg d = (None, d\<lparr>cred_seq := Suc (cred_seq d), tabs := (tabs d)\<lparr>
    service_credential_registrations := service_credential_registrations (tabs d) @ [cred_row d b s cert pk mid reg]\<rparr>\<rparr>)"
  using assms(2,3)
  by (simp only: insert_credentials_def assms(1) sum.case Let_def if_not_P [OF assms(4)] if_False not_not simp_thms
      upd_tabs_def cred_row_def) simp

lemma insert_config_exact:
  assumes "pg_jsonb x cfg = Some j" "varchar255 b" "b \<in> set (builder_names (tabs d))"
    and "\<not> (\<exists>c\<in>set (builder_configs (tabs d)). cr_IsActive c \<and> cr_BuilderName c = b)"
  shows "insert_config x b cfg d = (None, d\<lparr>config_seq := Suc (config_seq d), tabs := (tabs d)\<lparr>builder_configs :=
    builder_configs (tabs d) @ [\<lparr>cr_ID = config_seq d, cr_BuilderName = b, cr_Config = j, cr_IsActive = True,
      cr_CreatedAt = db_now d, cr_UpdatedAt = db_now d\<rparr>]\<rparr>\<rparr>)"
  using assms(2,3)
  by (simp only: insert_config_def assms(1) option.case Let_def if_not_P [OF assms(4)] if_False not_not simp_thms
      upd_tabs_def) simp

lemma Register_exact:
  assumes ok: "tables_ok (tabs d)" "db_faults d = []" "b \<in> set (builder_names (tabs d))"
    and args: "list_all pg_text [b, s, cert, mn, ty, reg]"
    and mid: "scalar_id (filter (\<lambda>m. mr_Name m = mn \<and> mr_AttestationType m = ty) (measurements_whitelist (tabs d))) = Inr mid"
  shows "tabs (snd (RegisterCredentialsForBuilder b s cert pk mn ty reg d)) =
    replace_creds b s (db_now d) (cred_row d b s (if cert \<noteq> [] then Some cert else None) pk mid reg) (tabs d)"
proof -
  let ?cert = "if cert \<noteq> [] then Some cert else None"
  let ?cs = "map (\<lambda>c. if sr_BuilderName c = b \<and> sr_Service c = s
      then c\<lparr>sr_IsActive := False, sr_DeprecatedAt := Some (db_now d)\<rparr> else c) (service_credential_registrations (tabs d))"
  define d1 where "d1 = d\<lparr>tabs := (tabs d)\<lparr>service_credential_registrations := ?cs\<rparr>\<rparr>"
  define d2 where "d2 = d1\<lparr>tabs := replace_creds b s (db_now d) (cred_row d b s ?cert pk mid reg) (tabs d), cred_seq := Suc (cred_seq d)\<rparr>"
  have del: "deprecate_credentials b s d = (None, d1)"
    by (simp add: deprecate_credentials_def upd_tabs_def d1_def)
  have d1: "service_credential_registrations (tabs d1) = ?cs" "builders (tabs d1) = builders (tabs d)"
    "measurements_whitelist (tabs d1) = measurements_whitelist (tabs d)" "cred_seq d1 = cred_seq d" "db_now d1 = db_now d"
    by (simp_all add: d1_def)
  have len: "varchar255 b" using tables_okD(6) [OF ok(1)] ok(3) by blast
  have free: "\<not> (\<exists>c\<in>set (service_credential_registrations (tabs d1)). sr_IsActive c \<and> sr_BuilderName c = b \<and> sr_Service c = s)"
    unfolding d1 by (simp add: ball_Un Int_def)
  have ins: "insert_credentials b s ?cert pk mn ty reg d1 = (None, d2)"
    unfolding insert_credentials_exact [of mn ty d1 mid b s, unfolded d1(2,3), OF mid len ok(3) free]
    by (simp add: d1_def d2_def replace_creds_def cred_row_def)
  have "RegisterCredentialsForBuilder b s cert pk mn ty reg d = (None, d2)"
    unfolding RegisterCredentialsForBuilder_def
    by (rule transaction2_no_fault [where ?d1.0 = d1])
       (use ok(2) args del ins in \<open>simp_all add: checked_None d1_def d2_def\<close>)
  then show ?thesis by (simp add: d2_def)
qed

lemma AddBuilderConfig_exact:
  assumes ok: "tables_ok (tabs d)" "db_faults d = []" "b \<in> set (builder_names (tabs d))"
    and "pg_text b" "pg_jsonb x cfg = Some j"
  shows "tabs (snd (AddBuilderConfig x b cfg d)) = replace_config b (db_now d)
    \<lparr>cr_ID = config_seq d, cr_BuilderName = b, cr_Config = j, cr_IsActive = True,
     cr_CreatedAt = db_now d, cr_UpdatedAt = db_now d\<rparr> (tabs d)"
proof -
  let ?row = "\<lparr>cr_ID = config_seq d, cr_BuilderName = b, cr_Config = j, cr_IsActive = True,
    cr_CreatedAt = db_now d, cr_UpdatedAt = db_now d\<rparr>"
  let ?cs = "map (\<lambda>c. if cr_BuilderName c = b \<and> cr_IsActive c
      then c\<lparr>cr_IsActive := False, cr_UpdatedAt := db_now d\<rparr> else c) (builder_configs (tabs d))"
  define d1 where "d1 = d\<lparr>tabs := (tabs d)\<lparr>builder_configs := ?cs\<rparr>\<rparr>"
  define d2 where "d2 = d1\<lparr>tabs := replace_config b (db_now d) ?row (tabs d), config_seq := Suc (config_seq d)\<rparr>"
  have del: "deactivate_configs b d = (None, d1)"
    by (simp add: deactivate_configs_def upd_tabs_def d1_def)
  have d1: "builder_configs (tabs d1) = ?cs" "builders (tabs d1) = builders (tabs d)"
    "config_seq d1 = config_seq d" "db_now d1 = db_now d"
    by (simp_all add: d1_def)
  have len: "varchar255 b" using tables_okD(6) [OF ok(1)] ok(3) by blast
  have free: "\<not> (\<exists>c\<in>set (builder_configs (tabs d1)). cr_IsActive c \<and> cr_BuilderName c = b)"
    unfolding d1 by (simp add: ball_Un Int_def) blast
  have ins: "insert_config x b cfg d1 = (None, d2)"
    unfolding insert_config_exact [of x cfg j b d1, unfolded d1(2), OF assms(5) len ok(3) free]
    by (simp add: d1_def d2_def replace_config_def)
  have "AddBuilderConfig x b cfg d = (None, d2)"
    unfolding AddBuilderConfig_def
    by (rule transaction2_no_fault [where ?d1.0 = d1])
       (use ok(2) assms(4) del ins in \<open>simp_all add: checked_None d1_def d2_def\<close>)
  then show ?thesis by (simp add: d2_def)
qed

section \<open>What an inserted row needs at the commit\<close>

text \<open>The tables only grow in what an insertion has looked up: names of builders, and the number,
  name and type of measurements.\<close>

definition measurement_facts :: "tables \<Rightarrow> (nat \<times> bytes \<times> bytes) set" where
  "measurement_facts t = (\<lambda>m. (mr_ID m, mr_Name m, mr_AttestationType m)) ` set (measurements_whitelist t)"

definition grows :: "tables \<Rightarrow> tables \<Rightarrow> bool" where
  "grows t t' \<longleftrightarrow> set (builder_names t) \<subseteq> set (builder_names t') \<and> measurement_facts t \<subseteq> measurement_facts t'"

lemma grows_refl [simp]: "grows t t"
  by (simp add: grows_def)

lemma grows_other_tables [simp]:
  "grows t (t'\<lparr>service_credential_registrations := cs\<rparr>) = grows t t'"
  "grows t (t'\<lparr>builder_configs := cf\<rparr>) = grows t t'" "grows t (t'\<lparr>event_log := es\<rparr>) = grows t t'"
  by (simp_all add: grows_def measurement_facts_def)

lemma grows_register: "preserves (grows t) (RegisterCredentialsForBuilder b s cert pk mn ty reg)"
proof (rule preservesI)
  fix d :: db assume ok: "grows t (tabs d)"
  obtain e d' where r: "RegisterCredentialsForBuilder b s cert pk mn ty reg d = (e, d')" by fastforce
  show "grows t (tabs (snd (RegisterCredentialsForBuilder b s cert pk mn ty reg d)))"
    unfolding r by (cases rule: RegisterCredentialsForBuilder_cases [OF r])
      (use ok in \<open>simp_all add: replace_creds_def\<close>)
qed

lemma grows_config: "preserves (grows t) (AddBuilderConfig x b cfg)"
proof (rule preservesI)
  fix d :: db assume ok: "grows t (tabs d)"
  obtain e d' where r: "AddBuilderConfig x b cfg d = (e, d')" by fastforce
  show "grows t (tabs (snd (AddBuilderConfig x b cfg d)))"
    unfolding r by (cases rule: AddBuilderConfig_cases [OF r])
      (use ok in \<open>simp_all add: replace_config_def\<close>)
qed

lemma grows_statements:
  "preserves (grows t) (insert_event ev b n)" "preserves (grows t) (insert_measurement x nm ty bts a)"
  "preserves (grows t) (insert_builder nm ip a nw dns)"
  "preserves (grows t) (update_builder_active a nm)" "preserves (grows t) (update_measurement_active a nm)"
proof -
  show "preserves (grows t) (insert_event ev b n)"
    by (rule preservesI) (auto simp: insert_event_def Let_def split: sum.splits)
  show "preserves (grows t) (insert_measurement x nm ty bts a)"
    by (rule preservesI) (auto simp: insert_measurement_def Let_def grows_def measurement_facts_def split: option.splits)
  show "preserves (grows t) (insert_builder nm ip a nw dns)"
    by (rule preservesI) (auto simp: insert_builder_def grows_def measurement_facts_def split: option.splits)
  have names: "map br_Name (map (\<lambda>b. if br_Name b = nm then b\<lparr>br_IsActive := a, br_UpdatedAt := k\<rparr> else b) bs) = map br_Name bs"
    for bs k by (induction bs) simp_all
  show "preserves (grows t) (update_builder_active a nm)"
    by (rule preservesI) (auto simp: update_builder_active_def grows_def measurement_facts_def
        arg_cong [OF names, of set, unfolded set_map, simplified] image_image)
  have facts: "map (\<lambda>m. (mr_ID m, mr_Name m, mr_AttestationType m)) (map (\<lambda>m. if mr_Name m = nm then m\<lparr>mr_IsActive := a\<rparr> else m) ms) =
      map (\<lambda>m. (mr_ID m, mr_Name m, mr_AttestationType m)) ms"
    for ms by (induction ms) simp_all
  show "preserves (grows t) (update_measurement_active a nm)"
  proof (rule preservesI)
    fix d :: db assume "grows t (tabs d)"
    moreover have "measurement_facts (tabs (snd (update_measurement_active a nm d))) = measurement_facts (tabs d)"
      using arg_cong [OF facts [of "measurements_whitelist (tabs d)"], of set]
      by (simp add: update_measurement_active_def measurement_facts_def image_image del: if_image_distrib)
    ultimately show "grows t (tabs (snd (update_measurement_active a nm d)))"
      by (simp add: grows_def) (simp add: update_measurement_active_def)
  qed
qed

lemma grows_operations:
  "preserves (grows t) (LogEvent ev b n)" "preserves (grows t) (AddMeasurement x m a)"
  "preserves (grows t) (ChangeActiveStatusForMeasurement n a)" "preserves (grows t) (ChangeActiveStatusForBuilder n a)"
  unfolding LogEvent_def AddMeasurement_def ChangeActiveStatusForMeasurement_def ChangeActiveStatusForBuilder_def
  by (intro preserves_intros grows_statements)+

lemma grows_AddBuilder: "preserves (grows t) (AddBuilder x bld)"
proof (rule preservesI)
  fix d :: db assume ok: "grows t (tabs d)"
  have "preserves (grows t) (exec (checked ps (insert_builder n ip a nw dns)))" for ps n ip a nw dns
    by (intro preserves_intros grows_statements)
  from preservesD [OF this ok] show "grows t (tabs (snd (AddBuilder x bld d)))"
    by (cases "inet_value x (B_IPAddress bld)") (simp_all add: AddBuilder_def ok)
qed

lemma op_step_grows: "op_step x z z' \<Longrightarrow> grows (tabs (fst z)) (tabs (fst z'))"
proof (erule op_stepE, goal_cases)
  case (2 n d c d' P)
  then have "tabs d' = tabs d" by (simp add: tabs_config_read)
  with 2 show ?case by simp
qed (simp_all add: grows_register [THEN preservesD] grows_config [THEN preservesD] grows_AddBuilder [THEN preservesD]
  grows_operations [THEN preservesD])

text \<open>A row that an open transaction has inserted can be inserted by the operation alone.\<close>

definition cred_prepared :: "tables \<Rightarrow> (ServiceCredentialRegistration, bytes \<times> bytes) tx \<Rightarrow> bool" where
  "cred_prepared t a \<longleftrightarrow> (\<forall>r. tx_phase a = Inserted r \<longrightarrow> (\<exists>b s cert pk mn ty reg mid i.
     tx_key a = (b, s) \<and> list_all pg_text [b, s, cert, mn, ty, reg] \<and> b \<in> set (builder_names t) \<and>
     (\<forall>n. mid = Some n \<longrightarrow> (n, mn, ty) \<in> measurement_facts t) \<and>
     r = \<lparr>sr_ID = i, sr_BuilderName = b, sr_Service = s, sr_TLSCert = (if cert \<noteq> [] then Some cert else None),
       sr_ECDSAPubKey = pk, sr_IsActive = True, sr_CreatedAt = tx_now a, sr_DeprecatedAt = None,
       sr_MeasurementID = mid, sr_Region = reg\<rparr>))"

definition config_prepared :: "ext \<Rightarrow> tables \<Rightarrow> (BuilderConfig, bytes) tx \<Rightarrow> bool" where
  "config_prepared x t a \<longleftrightarrow> (\<forall>r. tx_phase a = Inserted r \<longrightarrow> (\<exists>b cfg j i.
     tx_key a = b \<and> pg_text b \<and> b \<in> set (builder_names t) \<and> pg_jsonb x cfg = Some j \<and>
     r = \<lparr>cr_ID = i, cr_BuilderName = b, cr_Config = j, cr_IsActive = True,
       cr_CreatedAt = tx_now a, cr_UpdatedAt = tx_now a\<rparr>))"

lemma cred_prepared_grows:
  assumes "cred_prepared t a" "grows t t'"
  shows "cred_prepared t' a"
  unfolding cred_prepared_def
proof (intro allI impI)
  fix r assume "tx_phase a = Inserted r"
  with assms(1) obtain b s cert pk mn ty reg mid i where "tx_key a = (b, s)" "list_all pg_text [b, s, cert, mn, ty, reg]"
      "b \<in> set (builder_names t)" "\<forall>n. mid = Some n \<longrightarrow> (n, mn, ty) \<in> measurement_facts t"
      "r = \<lparr>sr_ID = i, sr_BuilderName = b, sr_Service = s, sr_TLSCert = (if cert \<noteq> [] then Some cert else None),
       sr_ECDSAPubKey = pk, sr_IsActive = True, sr_CreatedAt = tx_now a, sr_DeprecatedAt = None,
       sr_MeasurementID = mid, sr_Region = reg\<rparr>"
    unfolding cred_prepared_def by metis
  moreover from this(3,4) assms(2) have "b \<in> set (builder_names t')"
      "\<forall>n. mid = Some n \<longrightarrow> (n, mn, ty) \<in> measurement_facts t'"
    unfolding grows_def by blast+
  ultimately show "\<exists>b s cert pk mn ty reg mid i. tx_key a = (b, s) \<and> list_all pg_text [b, s, cert, mn, ty, reg] \<and>
      b \<in> set (builder_names t') \<and> (\<forall>n. mid = Some n \<longrightarrow> (n, mn, ty) \<in> measurement_facts t') \<and>
      r = \<lparr>sr_ID = i, sr_BuilderName = b, sr_Service = s, sr_TLSCert = (if cert \<noteq> [] then Some cert else None),
        sr_ECDSAPubKey = pk, sr_IsActive = True, sr_CreatedAt = tx_now a, sr_DeprecatedAt = None,
        sr_MeasurementID = mid, sr_Region = reg\<rparr>"
    by (intro exI conjI)
qed

lemma config_prepared_grows: "config_prepared x t c \<Longrightarrow> grows t t' \<Longrightarrow> config_prepared x t' c"
  unfolding config_prepared_def grows_def by (meson subsetD)

lemma scalar_id_member:
  assumes "scalar_id (filter (\<lambda>m. mr_Name m = mn \<and> mr_AttestationType m = ty) (measurements_whitelist t)) = Inr (Some n)"
  shows "(n, mn, ty) \<in> measurement_facts t"
proof -
  obtain m where m: "filter (\<lambda>m. mr_Name m = mn \<and> mr_AttestationType m = ty) (measurements_whitelist t) = [m]" "n = mr_ID m"
    using assms by (auto simp: scalar_id_def split: list.splits)
  then have "m \<in> set (filter (\<lambda>m. mr_Name m = mn \<and> mr_AttestationType m = ty) (measurements_whitelist t))" by simp
  with m(2) show ?thesis by (auto simp: measurement_facts_def)
qed

lemma member_scalar_id:
  assumes "(n, mn, ty) \<in> measurement_facts t" "distinct (map mr_Name (measurements_whitelist t))"
  shows "scalar_id (filter (\<lambda>m. mr_Name m = mn \<and> mr_AttestationType m = ty) (measurements_whitelist t)) = Inr (Some n)"
proof -
  obtain m where m: "m \<in> set (measurements_whitelist t)" "n = mr_ID m" "mn = mr_Name m" "ty = mr_AttestationType m"
    using assms(1) by (auto simp: measurement_facts_def)
  have "filter (\<lambda>m'. mr_Name m' = mn \<and> mr_AttestationType m' = ty) (measurements_whitelist t) =
      filter (\<lambda>m. mr_AttestationType m = ty) (filter (\<lambda>m'. mr_Name m' = mr_Name m) (measurements_whitelist t))"
    by (simp add: m(3) conj_commute)
  with filter_the_key [OF assms(2) m(1)] show ?thesis by (simp add: scalar_id_def m)
qed

text \<open>A name that no measurement has, for a registration whose measurement was not found.\<close>

lemma pg_text_replicate: "pg_text (replicate n (CHR ''a''))"
  by (induction n) (simp_all add: pg_text_def)

lemma fresh_name: "\<exists>n. pg_text n \<and> n \<notin> set (ns :: bytes list)"
proof -
  have "length n \<le> sum_list (map length ns)" if "n \<in> set ns" for n
    using that by (simp add: member_le_sum_list)
  then have "replicate (Suc (sum_list (map length ns))) (CHR ''a'') \<notin> set ns" by fastforce
  then show ?thesis using pg_text_replicate by blast
qed

lemma prepared_insert:
  assumes "cred_insert t (tx_now a) view r" "ro_key cred_ops r = tx_key a"
  shows "cred_prepared t (a\<lparr>tx_phase := Inserted r\<rparr>)"
proof (rule cred_insertE [OF assms(1)])
  fix b s cert pk mn ty reg mid i
  assume *: "list_all pg_text [b, s, cert, mn, ty, reg]" "b \<in> set (builder_names t)"
    "scalar_id (filter (\<lambda>m. mr_Name m = mn \<and> mr_AttestationType m = ty) (measurements_whitelist t)) = Inr mid"
    "r = \<lparr>sr_ID = i, sr_BuilderName = b, sr_Service = s, sr_TLSCert = (if cert \<noteq> [] then Some cert else None),
       sr_ECDSAPubKey = pk, sr_IsActive = True, sr_CreatedAt = tx_now a, sr_DeprecatedAt = None,
       sr_MeasurementID = mid, sr_Region = reg\<rparr>"
  have "tx_key a = (b, s)" using assms(2) *(4) by (simp add: cred_ops_def cred_key_def)
  moreover have "\<forall>n. mid = Some n \<longrightarrow> (n, mn, ty) \<in> measurement_facts t" using *(3) scalar_id_member by auto
  ultimately show ?thesis unfolding cred_prepared_def using * by (simp, metis)
qed

lemma prepared_config_insert:
  assumes "config_insert x t (tx_now a) view r" "ro_key config_ops r = tx_key a"
  shows "config_prepared x t (a\<lparr>tx_phase := Inserted r\<rparr>)"
proof (rule config_insertE [OF assms(1)])
  fix b cfg j i
  assume *: "pg_text b" "b \<in> set (builder_names t)" "pg_jsonb x cfg = Some j"
    "r = \<lparr>cr_ID = i, cr_BuilderName = b, cr_Config = j, cr_IsActive = True, cr_CreatedAt = tx_now a, cr_UpdatedAt = tx_now a\<rparr>"
  have "tx_key a = b" using assms(2) *(4) by (simp add: config_ops_def)
  then show ?thesis unfolding config_prepared_def using * by (simp, metis)
qed

definition alone :: "tables \<Rightarrow> nat \<Rightarrow> nat \<Rightarrow> db" where
  "alone t now i = \<lparr>tabs = t, measurement_seq = 0, cred_seq = i, config_seq = i, event_seq = 0, db_now = now,
     db_seed = 0, db_faults = []\<rparr>"

text \<open>The commit of a transaction is the operation.\<close>

lemma registration_commits:
  assumes "tables_ok t" "cred_prepared t a" "txs_ok cred_ops (service_credential_registrations t, R)"
    and "R k = Some a" "tx_phase a = Inserted r"
  shows "\<exists>b s cert pk mn ty reg d. tabs d = t \<and> tabs (snd (RegisterCredentialsForBuilder b s cert pk mn ty reg d)) =
    t\<lparr>service_credential_registrations := own_view cred_ops a (service_credential_registrations t) @ [r]\<rparr>"
proof -
  obtain b s cert pk mn ty reg mid i where *: "tx_key a = (b, s)" "list_all pg_text [b, s, cert, mn, ty, reg]"
      "b \<in> set (builder_names t)" "\<forall>n. mid = Some n \<longrightarrow> (n, mn, ty) \<in> measurement_facts t"
      and r: "r = \<lparr>sr_ID = i, sr_BuilderName = b, sr_Service = s, sr_TLSCert = (if cert \<noteq> [] then Some cert else None),
       sr_ECDSAPubKey = pk, sr_IsActive = True, sr_CreatedAt = tx_now a, sr_DeprecatedAt = None,
       sr_MeasurementID = mid, sr_Region = reg\<rparr>"
    using assms(2,5) unfolding cred_prepared_def by metis
  obtain mn' where mn': "pg_text mn'" "scalar_id (filter (\<lambda>m. mr_Name m = mn' \<and> mr_AttestationType m = ty)
      (measurements_whitelist t)) = Inr mid"
  proof (cases mid)
    case None
    obtain n where n: "pg_text n" "n \<notin> set (map mr_Name (measurements_whitelist t))" using fresh_name by blast
    then have "filter (\<lambda>m. mr_Name m = n \<and> mr_AttestationType m = ty) (measurements_whitelist t) = []"
      by (auto simp: filter_empty_conv)
    with n(1) None that show ?thesis by (simp add: scalar_id_def)
  next
    case (Some n)
    with *(4) have "scalar_id (filter (\<lambda>m. mr_Name m = mn \<and> mr_AttestationType m = ty) (measurements_whitelist t)) = Inr mid"
      using member_scalar_id [OF _ tables_okD(7) [OF assms(1)]] by simp
    with that [of mn] *(2) show ?thesis by simp
  qed
  let ?d = "alone t (tx_now a) i"
  have "tabs (snd (RegisterCredentialsForBuilder b s cert pk mn' ty reg ?d)) = replace_creds b s (db_now ?d)
      (cred_row ?d b s (if cert \<noteq> [] then Some cert else None) pk mid reg) (tabs ?d)"
    by (rule Register_exact) (use assms(1) * mn' in \<open>simp_all add: alone_def\<close>)
  also have "\<dots> = t\<lparr>service_credential_registrations := own_view cred_ops a (service_credential_registrations t) @ [r]\<rparr>"
    unfolding cred_tx.commit_replaces [OF assms(3-5)]
    by (simp add: replace_creds_def cred_row_def alone_def r * cred_ops_def)
  finally show ?thesis by (metis alone_def db.select_convs(1))
qed

lemma config_commits:
  assumes "tables_ok t" "config_prepared x t a" "txs_ok config_ops (builder_configs t, C)"
    and "C k = Some a" "tx_phase a = Inserted r"
  shows "\<exists>b cfg d. tabs d = t \<and> tabs (snd (AddBuilderConfig x b cfg d)) =
    t\<lparr>builder_configs := own_view config_ops a (builder_configs t) @ [r]\<rparr>"
proof -
  obtain b cfg j i where *: "tx_key a = b" "pg_text b" "b \<in> set (builder_names t)" "pg_jsonb x cfg = Some j"
      and r: "r = \<lparr>cr_ID = i, cr_BuilderName = b, cr_Config = j, cr_IsActive = True,
        cr_CreatedAt = tx_now a, cr_UpdatedAt = tx_now a\<rparr>"
    using assms(2,5) unfolding config_prepared_def by metis
  let ?d = "alone t (tx_now a) i"
  have "tabs (snd (AddBuilderConfig x b cfg ?d)) = replace_config b (db_now ?d)
      \<lparr>cr_ID = config_seq ?d, cr_BuilderName = b, cr_Config = j, cr_IsActive = True,
       cr_CreatedAt = db_now ?d, cr_UpdatedAt = db_now ?d\<rparr> (tabs ?d)"
    by (rule AddBuilderConfig_exact) (use assms(1) * in \<open>simp_all add: alone_def\<close>)
  also have "\<dots> = t\<lparr>builder_configs := own_view config_ops a (builder_configs t) @ [r]\<rparr>"
    unfolding config_tx.commit_replaces [OF assms(3-5)]
    by (simp add: replace_config_def alone_def r * config_ops_def)
  finally show ?thesis by (metis alone_def db.select_convs(1))
qed

section \<open>The system\<close>

text \<open>The committed tables, the builders that a pending activation was checked for, and the open
  transactions of registrations and of configurations. Besides their statements, any operation
  of the service that is a single statement or a read can run; these are the operations that
  leave the two tables alone.\<close>

record hub_state =
  hub_tabs :: tables
  hub_checked :: "bytes set"
  hub_regs :: "(ServiceCredentialRegistration, bytes \<times> bytes) txs"
  hub_cfgs :: "(BuilderConfig, bytes) txs"

inductive hub_step :: "ext \<Rightarrow> hub_state \<Rightarrow> hub_state \<Rightarrow> bool" for x where
  Hub_Op: "op_step x (d, hub_checked z) (d', P') \<Longrightarrow> tabs d = hub_tabs z \<Longrightarrow>
    service_credential_registrations (tabs d') = service_credential_registrations (tabs d) \<Longrightarrow>
    builder_configs (tabs d') = builder_configs (tabs d) \<Longrightarrow>
    hub_step x z (z\<lparr>hub_tabs := tabs d', hub_checked := P'\<rparr>)"
| Hub_Register: "tx_step cred_ops (cred_insert (hub_tabs z))
      (service_credential_registrations (hub_tabs z), hub_regs z) (cs, R) \<Longrightarrow>
    hub_step x z (z\<lparr>hub_tabs := (hub_tabs z)\<lparr>service_credential_registrations := cs\<rparr>, hub_regs := R\<rparr>)"
| Hub_Config: "tx_step config_ops (config_insert x (hub_tabs z)) (builder_configs (hub_tabs z), hub_cfgs z) (cs, C) \<Longrightarrow>
    hub_step x z (z\<lparr>hub_tabs := (hub_tabs z)\<lparr>builder_configs := cs\<rparr>, hub_cfgs := C\<rparr>)"

definition hub_init :: hub_state where
  "hub_init = \<lparr>hub_tabs = empty_tables, hub_checked = {}, hub_regs = Map.empty, hub_cfgs = Map.empty\<rparr>"

inductive hub_reachable :: "ext \<Rightarrow> hub_state \<Rightarrow> bool" for x where
  Hub_Init: "hub_reachable x hub_init"
| Hub_Next: "hub_reachable x z \<Longrightarrow> hub_step x z z' \<Longrightarrow> hub_reachable x z'"

definition hub_inv :: "ext \<Rightarrow> hub_state \<Rightarrow> bool" where
  "hub_inv x z \<longleftrightarrow> (\<forall>d. tabs d = hub_tabs z \<longrightarrow> op_reachable x (d, hub_checked z)) \<and>
     txs_ok cred_ops (service_credential_registrations (hub_tabs z), hub_regs z) \<and>
     txs_ok config_ops (builder_configs (hub_tabs z), hub_cfgs z) \<and>
     (\<forall>i a. hub_regs z i = Some a \<longrightarrow> cred_prepared (hub_tabs z) a) \<and>
     (\<forall>i a. hub_cfgs z i = Some a \<longrightarrow> config_prepared x (hub_tabs z) a)"

text \<open>A statement leaves the committed rows or commits, and an open transaction is the one it was
  or has moved; only an insertion makes a row.\<close>

lemma tx_step_rows:
  assumes "tx_step ro ins (rs, T) (rs', T')"
  obtains (kept) "rs' = rs"
  | (commit) i t r where "T i = Some t" "tx_phase t = Inserted r" "rs' = own_view ro t rs @ [r]" "T' = T(i := None)"
  using assms by cases auto

lemma tx_step_moves:
  assumes "tx_step ro ins (rs, T) (rs', T')" "T' i = Some t'"
  obtains (same) "T i = Some t'"
  | (moved) "\<forall>r. tx_phase t' \<noteq> Inserted r"
  | (insert) t r where "t' = t\<lparr>tx_phase := Inserted r\<rparr>" "ins (tx_now t) (own_view ro t rs) r" "ro_key ro r = tx_key t"
  using assms by cases (auto split: if_splits)

lemma op_reachable_same: "op_reachable x (d, P) \<Longrightarrow> tabs d' = tabs d \<Longrightarrow> op_reachable x (d', P)"
  by (blast intro: Op_Next Op_Read)

lemma hub_inv_init: "hub_inv x hub_init"
  by (simp add: hub_inv_def hub_init_def txs_ok_def Op_Init) (simp add: empty_tables_def)

lemma read_step: "\<exists>d d'. tabs d = t \<and> tabs d' = t \<and> op_step x (d, P) (d', P)"
  by (intro exI [of _ "alone t 0 0"]) (simp add: alone_def Op_Read)

text \<open>One statement is no operation, a read, or one whole operation.\<close>

lemma hub_step_simulated:
  assumes "hub_inv x z" "hub_step x z z'"
  shows "\<exists>d d'. tabs d = hub_tabs z \<and> tabs d' = hub_tabs z' \<and> op_step x (d, hub_checked z) (d', hub_checked z')"
  using assms(2)
proof cases
  case (Hub_Op d d' P')
  then show ?thesis by auto
next
  case (Hub_Register cs R)
  from Hub_Register(2) show ?thesis
  proof (cases rule: tx_step_rows)
    case kept
    then have "hub_tabs z' = hub_tabs z" "hub_checked z' = hub_checked z" using Hub_Register(1) by simp_all
    then show ?thesis by (simp only: read_step)
  next
    case (commit i a r)
    have "tables_ok (hub_tabs z)"
      using assms(1) op_reachable_inv [of x "(alone (hub_tabs z) 0 0, hub_checked z)"] by (simp add: hub_inv_def alone_def)
    with assms(1) commit obtain b s cert pk mn ty reg d where d: "tabs d = hub_tabs z"
        "tabs (snd (RegisterCredentialsForBuilder b s cert pk mn ty reg d)) = (hub_tabs z)\<lparr>service_credential_registrations := cs\<rparr>"
      using registration_commits [of "hub_tabs z" a "hub_regs z" i r] unfolding hub_inv_def by metis
    have "op_step x (d, hub_checked z) (snd (RegisterCredentialsForBuilder b s cert pk mn ty reg d), hub_checked z)"
      by (rule Op_Register)
    with d Hub_Register(1) show ?thesis by auto
  qed
next
  case (Hub_Config cs C)
  from Hub_Config(2) show ?thesis
  proof (cases rule: tx_step_rows)
    case kept
    then have "hub_tabs z' = hub_tabs z" "hub_checked z' = hub_checked z" using Hub_Config(1) by simp_all
    then show ?thesis by (simp only: read_step)
  next
    case (commit i a r)
    have "tables_ok (hub_tabs z)"
      using assms(1) op_reachable_inv [of x "(alone (hub_tabs z) 0 0, hub_checked z)"] by (simp add: hub_inv_def alone_def)
    with assms(1) commit obtain b cfg d where d: "tabs d = hub_tabs z"
        "tabs (snd (AddBuilderConfig x b cfg d)) = (hub_tabs z)\<lparr>builder_configs := cs\<rparr>"
      using config_commits [of "hub_tabs z" x a "hub_cfgs z" i r] unfolding hub_inv_def by metis
    have "op_step x (d, hub_checked z) (snd (AddBuilderConfig x b cfg d), hub_checked z)"
      by (rule Op_Config)
    with d Hub_Config(1) show ?thesis by auto
  qed
qed

lemma hub_step_inv:
  assumes "hub_inv x z" "hub_step x z z'"
  shows "hub_inv x z'"
proof -
  obtain d d' where sim: "tabs d = hub_tabs z" "tabs d' = hub_tabs z'" "op_step x (d, hub_checked z) (d', hub_checked z')"
    using hub_step_simulated [OF assms] by blast
  then have "op_reachable x (d', hub_checked z')" using assms(1) by (auto simp: hub_inv_def intro: Op_Next)
  then have reach: "\<forall>d. tabs d = hub_tabs z' \<longrightarrow> op_reachable x (d, hub_checked z')"
    using sim(2) by (metis op_reachable_same)
  have grows: "grows (hub_tabs z) (hub_tabs z')" using op_step_grows [OF sim(3)] sim(1,2) by simp
  note old = assms(1) [unfolded hub_inv_def]
  have regs: "\<forall>i a. hub_regs z i = Some a \<longrightarrow> cred_prepared (hub_tabs z') a"
    using old cred_prepared_grows grows by blast
  have cfgs: "\<forall>i a. hub_cfgs z i = Some a \<longrightarrow> config_prepared x (hub_tabs z') a"
    using old config_prepared_grows grows by blast
  show ?thesis
    using assms(2)
  proof cases
    case (Hub_Op d d' P')
    with old reach regs cfgs show ?thesis by (simp add: hub_inv_def)
  next
    case (Hub_Register cs R)
    have "txs_ok cred_ops (cs, R)" using cred_tx.tx_step_ok [OF Hub_Register(2)] old by simp
    moreover have "cred_prepared (hub_tabs z') a" if "R i = Some a" for i a
      using Hub_Register(2) that
    proof (cases rule: tx_step_moves)
      case same
      with regs show ?thesis by blast
    next
      case moved
      then show ?thesis by (simp add: cred_prepared_def)
    next
      case (insert t r)
      from cred_prepared_grows [OF prepared_insert [OF insert(2,3)] grows] insert(1) show ?thesis by simp
    qed
    ultimately show ?thesis using Hub_Register(1) old reach cfgs by (simp add: hub_inv_def)
  next
    case (Hub_Config cs C)
    have "txs_ok config_ops (cs, C)" using config_tx.tx_step_ok [OF Hub_Config(2)] old by simp
    moreover have "config_prepared x (hub_tabs z') a" if "C i = Some a" for i a
      using Hub_Config(2) that
    proof (cases rule: tx_step_moves)
      case same
      with cfgs show ?thesis by blast
    next
      case moved
      then show ?thesis by (simp add: config_prepared_def)
    next
      case (insert t r)
      from config_prepared_grows [OF prepared_config_insert [OF insert(2,3)] grows] insert(1) show ?thesis by simp
    qed
    ultimately show ?thesis using Hub_Config(1) old reach regs by (simp add: hub_inv_def)
  qed
qed

lemma hub_reachable_inv: "hub_reachable x z \<Longrightarrow> hub_inv x z"
  by (induction rule: hub_reachable.induct) (simp_all add: hub_inv_init hub_step_inv)

section \<open>Properties\<close>

text \<open>C16: The isolation of the transactions is enough: when the statements of concurrent
  registrations and configurations interleave, with other operations between them and with
  failures at any point, every statement leaves the committed tables as they are or does to them
  what one whole operation of the service does that runs alone at that moment; so every
  committed state is one that whole operations reach.\<close>

theorem interleaving_refines_operations:
  assumes "hub_reachable x z" "hub_step x z z'"
  shows "\<exists>d d'. tabs d = hub_tabs z \<and> tabs d' = hub_tabs z' \<and> op_step x (d, hub_checked z) (d', hub_checked z') \<and>
    op_reachable x (d, hub_checked z) \<and> op_reachable x (d', hub_checked z')"
proof -
  note inv = hub_reachable_inv [OF assms(1)]
  obtain d d' where sim: "tabs d = hub_tabs z" "tabs d' = hub_tabs z'" "op_step x (d, hub_checked z) (d', hub_checked z')"
    using hub_step_simulated [OF inv assms(2)] by blast
  have "op_reachable x (d, hub_checked z)" using inv sim(1) by (simp add: hub_inv_def)
  with sim Op_Next show ?thesis by blast
qed

text \<open>Two registrations of the same builder and service: both have begun and selected their rows,
  the first has inserted its row.\<close>

definition race_tabs :: tables where
  "race_tabs = tabs (snd (AddBuilder sample_ext sample_builder sample_db0))"

definition race_row :: ServiceCredentialRegistration where
  "race_row = \<lparr>sr_ID = 1, sr_BuilderName = ''alpha'', sr_Service = ''proxy'', sr_TLSCert = Some ''cert'', sr_ECDSAPubKey = ''k'',
     sr_IsActive = True, sr_CreatedAt = 100, sr_DeprecatedAt = None, sr_MeasurementID = None, sr_Region = ''eu''\<rparr>"

definition race_tx :: "ServiceCredentialRegistration phase \<Rightarrow> (ServiceCredentialRegistration, bytes \<times> bytes) tx" where
  "race_tx p = \<lparr>tx_key = (''alpha'', ''proxy''), tx_now = 100, tx_rows = {}, tx_phase = p\<rparr>"

definition race :: "(ServiceCredentialRegistration, bytes \<times> bytes) txs \<Rightarrow> hub_state" where
  "race R = \<lparr>hub_tabs = race_tabs, hub_checked = {}, hub_regs = R, hub_cfgs = Map.empty\<rparr>"

lemma race_tabs_eq: "builder_names race_tabs = [''alpha'']" "service_credential_registrations race_tabs = []"
  "measurements_whitelist race_tabs = []" "builder_configs race_tabs = []"
  by code_simp+

lemma race_insert: "cred_insert race_tabs 100 [] race_row"
proof -
  let ?d = "alone race_tabs 100 1"
  let ?d' = "?d\<lparr>cred_seq := Suc (cred_seq ?d), tabs := (tabs ?d)\<lparr>service_credential_registrations :=
    service_credential_registrations (tabs ?d) @ [cred_row ?d ''alpha'' ''proxy'' (Some ''cert'') ''k'' None ''eu'']\<rparr>\<rparr>"
  have names: "list_all pg_text [''alpha'', ''proxy'', ''cert'', ''m1'', ''azure-tdx'', ''eu'']" "varchar255 ''alpha''"
    by code_simp+
  have "insert_credentials ''alpha'' ''proxy'' (Some ''cert'') ''k'' ''m1'' ''azure-tdx'' ''eu'' ?d = (None, ?d')"
    by (rule insert_credentials_exact) (simp_all add: alone_def race_tabs_eq scalar_id_def names(2))
  then have ins: "insert_credentials ''alpha'' ''proxy'' (if ''cert'' \<noteq> [] then Some ''cert'' else None)
      ''k'' ''m1'' ''azure-tdx'' ''eu'' ?d = (None, ?d')" by simp
  have row: "cred_row ?d ''alpha'' ''proxy'' (Some ''cert'') ''k'' None ''eu'' = race_row"
    by (simp add: cred_row_def alone_def race_row_def)
  have t: "tabs ?d = race_tabs\<lparr>service_credential_registrations := []\<rparr>" "db_now ?d = 100"
    "tabs ?d' = race_tabs\<lparr>service_credential_registrations := [] @ [race_row]\<rparr>"
    unfolding row by (simp_all add: alone_def race_tabs_eq(2) [symmetric])
  show ?thesis unfolding cred_insert_def by (intro exI conjI) (rule names(1) t ins)+
qed

lemma race_step:
  assumes "tx_step cred_ops (cred_insert race_tabs) ([], R) ([], R')" "hub_reachable sample_ext (race R)"
  shows "hub_reachable sample_ext (race R')"
proof -
  have "hub_step sample_ext (race R) ((race R)\<lparr>hub_tabs := (hub_tabs (race R))\<lparr>service_credential_registrations := []\<rparr>, hub_regs := R'\<rparr>)"
    by (rule Hub_Register) (use assms(1) in \<open>simp add: race_def race_tabs_eq\<close>)
  moreover have "race_tabs\<lparr>service_credential_registrations := []\<rparr> = race_tabs"
    by (simp add: race_tabs_eq(2) [symmetric])
  ultimately show ?thesis using Hub_Next [OF assms(2)] by (simp add: race_def)
qed

lemma race_reachable:
  "hub_reachable sample_ext (race [0 \<mapsto> race_tx (Inserted race_row), 1 \<mapsto> race_tx (Updating {})])"
proof -
  let ?d = "snd (AddBuilder sample_ext sample_builder sample_db0)"
  have "op_step sample_ext (sample_db0, {}) (?d, {})" by (rule Op_AddBuilder) (simp add: sample_builder_def)
  moreover have "service_credential_registrations (tabs ?d) = service_credential_registrations (tabs sample_db0)"
    "builder_configs (tabs ?d) = builder_configs (tabs sample_db0)" by code_simp+
  moreover have "tabs sample_db0 = hub_tabs hub_init" "hub_checked hub_init = {}" by (simp_all add: hub_init_def sample_db0_def)
  ultimately have "hub_step sample_ext hub_init (hub_init\<lparr>hub_tabs := tabs ?d, hub_checked := {}\<rparr>)"
    using Hub_Op [of sample_ext sample_db0 hub_init ?d "{}"] by simp
  then have "hub_step sample_ext hub_init (hub_init\<lparr>hub_tabs := race_tabs, hub_checked := {}\<rparr>)"
    by (simp only: race_tabs_def)
  from Hub_Next [OF Hub_Init this] have "hub_reachable sample_ext (race Map.empty)"
    by (simp add: race_def hub_init_def)
  from race_step [OF Tx_Begin [of _ 0 _ _ _ "(''alpha'', ''proxy'')" 100] this]
  have "hub_reachable sample_ext (race [0 \<mapsto> race_tx Begun])" by (simp add: race_tx_def)
  from race_step [OF Tx_Begin [of _ 1 _ _ _ "(''alpha'', ''proxy'')" 100] this]
  have "hub_reachable sample_ext (race [0 \<mapsto> race_tx Begun, 1 \<mapsto> race_tx Begun])" by (simp add: race_tx_def)
  from race_step [OF Tx_Select [of _ 1 "race_tx Begun"] this]
  have "hub_reachable sample_ext (race [0 \<mapsto> race_tx Begun, 1 \<mapsto> race_tx (Updating {})])"
    by (simp add: race_tx_def where_ids_def)
  from race_step [OF Tx_Select [of _ 0 "race_tx Begun"] this]
  have "hub_reachable sample_ext (race [1 \<mapsto> race_tx (Updating {}), 0 \<mapsto> race_tx (Updating {})])"
    by (simp add: race_tx_def where_ids_def fun_upd_twist)
  from race_step [OF Tx_Insert [of _ 0 "race_tx (Updating {})" _ _ _ race_row] this] race_insert
  show ?thesis
    by (simp add: race_tx_def own_view_def cred_ops_def cred_key_def race_row_def fun_upd_twist)
qed

theorem interleaving_refines_operations_witness:
  "\<exists>d. service_credential_registrations (tabs d) = [race_row] \<and> op_reachable sample_ext (d, {})"
proof -
  let ?R = "[0 \<mapsto> race_tx (Inserted race_row), 1 \<mapsto> race_tx (Updating {})]"
  have "tx_step cred_ops (cred_insert race_tabs) ([], ?R) (own_view cred_ops (race_tx (Inserted race_row)) [] @ [race_row], ?R(0 := None))"
    by (rule Tx_Commit) (simp_all add: race_tx_def)
  then have "hub_step sample_ext (race ?R) ((race ?R)\<lparr>hub_tabs := race_tabs\<lparr>service_credential_registrations := [race_row]\<rparr>,
      hub_regs := ?R(0 := None)\<rparr>)"
    using Hub_Register [of "race ?R" "[race_row]" "?R(0 := None)"] by (simp add: race_def race_tabs_eq own_view_def)
  from interleaving_refines_operations [OF race_reachable this]
  obtain d' where "tabs d' = race_tabs\<lparr>service_credential_registrations := [race_row]\<rparr>" "op_reachable sample_ext (d', {})"
    by (auto simp: race_def)
  then show ?thesis by (intro exI [of _ d']) simp
qed

text \<open>No registration is lost without being seen: while a registration has inserted its row and
  not committed, no other open transaction has inserted one for the same builder and service, and
  the rows it has deactivated are all the rows of that builder and service that are committed; a
  registration that another one has overtaken cannot get there.\<close>

theorem registration_overtakes_nothing:
  assumes "hub_reachable x z" "hub_regs z i = Some t" "tx_phase t = Inserted r"
  shows "tx_rows t = sr_ID ` {c \<in> set (service_credential_registrations (hub_tabs z)).
      (sr_BuilderName c, sr_Service c) = (sr_BuilderName r, sr_Service r)} \<and>
    (\<forall>j t' r'. j \<noteq> i \<longrightarrow> hub_regs z j = Some t' \<longrightarrow> tx_phase t' = Inserted r' \<longrightarrow>
      (sr_BuilderName r', sr_Service r') \<noteq> (sr_BuilderName r, sr_Service r))"
proof -
  have ok: "txs_ok cred_ops (service_credential_registrations (hub_tabs z), hub_regs z)"
    using hub_reachable_inv [OF assms(1)] by (simp add: hub_inv_def)
  have key: "tx_key t = (sr_BuilderName r, sr_Service r)"
    using txs_okD(2) [OF ok assms(2)] assms(3) by (simp add: phase_ok_def cred_ops_def cred_key_def)
  have "tx_rows t = sr_ID ` {c \<in> set (service_credential_registrations (hub_tabs z)).
      (sr_BuilderName c, sr_Service c) = (sr_BuilderName r, sr_Service r)}"
    unfolding cred_tx.inserted_rows [OF ok assms(2,3)] by (simp add: where_ids_def key cred_ops_def)
  moreover have "(sr_BuilderName r', sr_Service r') \<noteq> (sr_BuilderName r, sr_Service r)"
    if "j \<noteq> i" "hub_regs z j = Some t'" "tx_phase t' = Inserted r'" for j t' r'
    using txs_okD(4) [OF ok that(1,2) assms(2)] that(3) assms(3) by (auto simp: apart_def cred_ops_def cred_key_def)
  ultimately show ?thesis by blast
qed

theorem registration_overtakes_nothing_witness:
  "hub_regs (race [0 \<mapsto> race_tx (Inserted race_row), 1 \<mapsto> race_tx (Updating {})]) 0 = Some (race_tx (Inserted race_row)) \<and>
   tx_rows (race_tx (Inserted race_row)) = sr_ID ` {c \<in> set (service_credential_registrations race_tabs).
     (sr_BuilderName c, sr_Service c) = (''alpha'', ''proxy'')}"
  using registration_overtakes_nothing [OF race_reachable, of 0 "race_tx (Inserted race_row)" race_row]
  by (simp add: race_def race_tx_def race_row_def)

end
