(* ===== verification/Hub_Spec.thy ===== *)
theory Hub_Spec
  imports Tx_Interleaving
begin

text \<open>
  What the hub is, without tables: an abstract machine over a registry of builders, measurement
  templates, credentials and configurations and a log, with one rule per thing that can happen
  to them. The abstraction function forgets row numbers, superseded rows, timestamps and the
  order of rows. Every operation of the database, every statement of the interleaved system and
  every request to a handler is a sequence of steps of the machine, so its invariants and what
  it never changes carry over to the program.
\<close>

section \<open>The abstract machine\<close>

record identity =
  id_IPAddress :: bytes
  id_Network :: bytes
  id_DNSName :: "bytes option"

record measurement_template =
  tp_ID :: nat
  tp_AttestationType :: bytes
  tp_Measurement :: bytes

record hub_spec =
  sp_builders :: "bytes \<rightharpoonup> identity"
  sp_active :: "bytes set"
  sp_templates :: "bytes \<rightharpoonup> measurement_template"
  sp_allowed :: "bytes set"
  sp_creds :: "bytes \<times> bytes \<rightharpoonup> credential"
  sp_configs :: "bytes \<rightharpoonup> bytes"
  sp_events :: "(bytes \<times> bytes \<times> nat option) list"

definition spec_init :: hub_spec where
  "spec_init = \<lparr>sp_builders = Map.empty, sp_active = {}, sp_templates = Map.empty, sp_allowed = {},
     sp_creds = Map.empty, sp_configs = Map.empty, sp_events = []\<rparr>"

inductive spec_step :: "hub_spec \<Rightarrow> hub_spec \<Rightarrow> bool" where
  Spec_Nothing: "spec_step s s"
| Spec_AddBuilder: "n \<notin> dom (sp_builders s) \<Longrightarrow> spec_step s (s\<lparr>sp_builders := (sp_builders s)(n \<mapsto> i)\<rparr>)"
| Spec_AddMeasurement: "n \<notin> dom (sp_templates s) \<Longrightarrow> spec_step s (s\<lparr>sp_templates := (sp_templates s)(n \<mapsto> m)\<rparr>)"
| Spec_Register: "n \<in> dom (sp_builders s) \<Longrightarrow> spec_step s (s\<lparr>sp_creds := (sp_creds s)((n, svc) \<mapsto> c)\<rparr>)"
| Spec_Configure: "n \<in> dom (sp_builders s) \<Longrightarrow> spec_step s (s\<lparr>sp_configs := (sp_configs s)(n \<mapsto> cfg)\<rparr>)"
| Spec_Activate: "n \<in> dom (sp_configs s) \<Longrightarrow> spec_step s (s\<lparr>sp_active := insert n (sp_active s)\<rparr>)"
| Spec_Deactivate: "spec_step s (s\<lparr>sp_active := sp_active s - {n}\<rparr>)"
| Spec_Allow: "n \<in> dom (sp_templates s) \<Longrightarrow> spec_step s (s\<lparr>sp_allowed := insert n (sp_allowed s)\<rparr>)"
| Spec_Disallow: "spec_step s (s\<lparr>sp_allowed := sp_allowed s - {n}\<rparr>)"
| Spec_Log: "n \<in> dom (sp_builders s) \<Longrightarrow> (\<forall>i. m = Some i \<longrightarrow> i \<in> tp_ID ` ran (sp_templates s)) \<Longrightarrow>
    spec_step s (s\<lparr>sp_events := sp_events s @ [(e, n, m)]\<rparr>)"

inductive_cases spec_stepE: "spec_step s s'"

text \<open>What the machine keeps: everything belongs to a known builder or template, and what is active
  is configured.\<close>

definition spec_ok :: "hub_spec \<Rightarrow> bool" where
  "spec_ok s \<longleftrightarrow> sp_active s \<subseteq> dom (sp_configs s) \<and> dom (sp_configs s) \<subseteq> dom (sp_builders s) \<and>
     (\<forall>k\<in>dom (sp_creds s). fst k \<in> dom (sp_builders s)) \<and> sp_allowed s \<subseteq> dom (sp_templates s) \<and>
     (\<forall>(e, n, m)\<in>set (sp_events s). n \<in> dom (sp_builders s) \<and>
       (\<forall>i. m = Some i \<longrightarrow> i \<in> tp_ID ` ran (sp_templates s)))"

lemma spec_ok_creds: "spec_ok s \<Longrightarrow> sp_creds s (n, svc) = Some c \<Longrightarrow> n \<in> dom (sp_builders s)"
  unfolding spec_ok_def by (elim conjE) (drule bspec [of "dom (sp_creds s)" _ "(n, svc)"], simp_all add: domI)

lemma spec_init_ok: "spec_ok spec_init"
  by (simp add: spec_ok_def spec_init_def)

lemma ran_upd_fresh: "n \<notin> dom f \<Longrightarrow> ran (f(n \<mapsto> v)) = insert v (ran f)"
  by (simp add: domIff)

lemma spec_step_ok: "spec_step s s' \<Longrightarrow> spec_ok s \<Longrightarrow> spec_ok s'"
  by (erule spec_stepE) (auto simp: spec_ok_def ran_upd_fresh)

text \<open>What it never changes: who a builder is, what a template says, and what has been logged.\<close>

definition extends :: "hub_spec \<Rightarrow> hub_spec \<Rightarrow> bool" where
  "extends s s' \<longleftrightarrow> sp_builders s \<subseteq>\<^sub>m sp_builders s' \<and> sp_templates s \<subseteq>\<^sub>m sp_templates s' \<and>
     dom (sp_creds s) \<subseteq> dom (sp_creds s') \<and> dom (sp_configs s) \<subseteq> dom (sp_configs s') \<and>
     (\<exists>es. sp_events s' = sp_events s @ es)"

lemma extends_refl: "extends s s"
  by (simp add: extends_def)

lemma extends_trans: "extends s s1 \<Longrightarrow> extends s1 s2 \<Longrightarrow> extends s s2"
  unfolding extends_def by (elim conjE exE, intro conjI) (auto intro: map_le_trans dest: subsetD)

lemma spec_step_extends: "spec_step s s' \<Longrightarrow> extends s s'"
  by (erule spec_stepE) (auto simp: extends_def map_le_def)

section \<open>Refinement\<close>

text \<open>Concrete steps that, from states with the invariant, keep it and are abstract steps through the
  abstraction function.\<close>

locale refinement =
  fixes astep :: "'a \<Rightarrow> 'a \<Rightarrow> bool" and cstep :: "'c \<Rightarrow> 'c \<Rightarrow> bool" and abs :: "'c \<Rightarrow> 'a"
    and keeps :: "'c \<Rightarrow> bool"
  assumes keep: "keeps c \<Longrightarrow> cstep c c' \<Longrightarrow> keeps c'"
    and simulated: "keeps c \<Longrightarrow> cstep c c' \<Longrightarrow> astep\<^sup>*\<^sup>* (abs c) (abs c')"
begin

lemma run_keeps: "cstep\<^sup>*\<^sup>* c c' \<Longrightarrow> keeps c \<Longrightarrow> keeps c'"
  by (induction rule: rtranclp_induct) (auto intro: keep)

lemma run_simulated: "cstep\<^sup>*\<^sup>* c c' \<Longrightarrow> keeps c \<Longrightarrow> astep\<^sup>*\<^sup>* (abs c) (abs c')"
proof (induction rule: rtranclp_induct)
  case (step c1 c2)
  then show ?case using simulated run_keeps by (meson rtranclp_trans)
qed simp

lemma run_invariant:
  assumes "cstep\<^sup>*\<^sup>* c c'" "keeps c" "I (abs c)" and "\<And>a a'. I a \<Longrightarrow> astep a a' \<Longrightarrow> I a'"
  shows "I (abs c')"
  using run_simulated [OF assms(1,2)] assms(3,4) by (induction rule: rtranclp_induct) auto

lemma run_related:
  assumes "cstep\<^sup>*\<^sup>* c c'" "keeps c" and "\<And>a. R a a" "\<And>a b d. R a b \<Longrightarrow> R b d \<Longrightarrow> R a d" "\<And>a a'. astep a a' \<Longrightarrow> R a a'"
  shows "R (abs c) (abs c')"
  using run_simulated [OF assms(1,2)] by (induction rule: rtranclp_induct) (blast intro: assms(3-5))+

end

section \<open>The abstraction function\<close>

definition identity_of :: "dbBuilder \<Rightarrow> identity" where
  "identity_of b = \<lparr>id_IPAddress = br_IPAddress b, id_Network = br_Network b, id_DNSName = br_DNSName b\<rparr>"

definition template_of :: "dbMeasurement \<Rightarrow> measurement_template" where
  "template_of m = \<lparr>tp_ID = mr_ID m, tp_AttestationType = mr_AttestationType m, tp_Measurement = mr_Measurement m\<rparr>"

definition hub_abs :: "tables \<Rightarrow> hub_spec" where
  "hub_abs t = \<lparr>sp_builders = map_of (map (\<lambda>b. (br_Name b, identity_of b)) (builders t)),
     sp_active = br_Name ` set (filter br_IsActive (builders t)),
     sp_templates = map_of (map (\<lambda>m. (mr_Name m, template_of m)) (measurements_whitelist t)),
     sp_allowed = mr_Name ` set (filter mr_IsActive (measurements_whitelist t)),
     sp_creds = registry t, sp_configs = configured t,
     sp_events = map (\<lambda>e. (er_EventName e, er_BuilderName e, er_MeasurementID e)) (event_log t)\<rparr>"

lemma hub_abs_empty: "hub_abs empty_tables = spec_init"
  by (simp add: hub_abs_def spec_init_def empty_tables_def registry_def active_creds_def configured_def active_configs_def)

lemma hub_abs_sel [simp]:
  "dom (sp_builders (hub_abs t)) = set (builder_names t)"
  "dom (sp_templates (hub_abs t)) = set (map mr_Name (measurements_whitelist t))"
  "sp_creds (hub_abs t) = registry t" "sp_configs (hub_abs t) = configured t"
  by (auto simp: hub_abs_def dom_map_of_conv_image_fst image_image)

lemma templates_ran:
  assumes "distinct (map mr_Name (measurements_whitelist t))" "m \<in> set (measurements_whitelist t)"
  shows "mr_ID m \<in> tp_ID ` ran (sp_templates (hub_abs t))"
proof -
  have "sp_templates (hub_abs t) (mr_Name m) = Some (template_of m)"
    using assms by (auto simp: hub_abs_def distinct_map comp_def inj_on_def intro!: map_of_is_SomeI)
  then have "template_of m \<in> ran (sp_templates (hub_abs t))" by (rule ranI)
  then show ?thesis by (force simp: template_of_def)
qed

section \<open>Every operation is a step\<close>

text \<open>A statement that is a step of the machine on every database whose tables satisfy \<open>I\<close>.\<close>

definition refines :: "(tables \<Rightarrow> bool) \<Rightarrow> stmt \<Rightarrow> bool" where
  "refines I s \<longleftrightarrow> (\<forall>d. tables_ok (tabs d) \<longrightarrow> I (tabs d) \<longrightarrow> spec_step (hub_abs (tabs d)) (hub_abs (tabs (snd (s d)))))"

lemma refinesI:
  "(\<And>d. tables_ok (tabs d) \<Longrightarrow> I (tabs d) \<Longrightarrow> spec_step (hub_abs (tabs d)) (hub_abs (tabs (snd (s d))))) \<Longrightarrow> refines I s"
  by (simp add: refines_def)

lemma refinesD:
  "refines I s \<Longrightarrow> tables_ok (tabs d) \<Longrightarrow> I (tabs d) \<Longrightarrow> spec_step (hub_abs (tabs d)) (hub_abs (tabs (snd (s d))))"
  by (simp add: refines_def)

lemma refines_checked: "refines I s \<Longrightarrow> refines I (checked ps s)"
  by (simp add: refines_def checked_def Spec_Nothing)

lemma refines_wrap_err: "refines I s \<Longrightarrow> refines I (wrap_err w s)"
  by (simp add: refines_def snd_wrap_err)

lemma refines_exec:
  assumes "refines I s"
  shows "refines I (exec s)"
proof (rule refinesI)
  fix d :: db assume "tables_ok (tabs d)" "I (tabs d)"
  then have "spec_step (hub_abs (tabs d)) (hub_abs (tabs (snd (s (d\<lparr>db_faults := fs\<rparr>)))))" for fs
    using refinesD [OF assms, of "d\<lparr>db_faults := fs\<rparr>"] by simp
  then show "spec_step (hub_abs (tabs d)) (hub_abs (tabs (snd (exec s d))))"
    by (cases s d rule: exec_cases) (simp_all add: Spec_Nothing)
qed

lemmas refines_intros = refines_checked refines_wrap_err refines_exec

lemma singleton_add: "k \<notin> dom m \<Longrightarrow> [k \<mapsto> v] ++ m = m(k \<mapsto> v)"
  by (simp add: map_add_comm)

lemma registry_upd [simp]: "registry (t\<lparr>builders := bs\<rparr>) = registry t" "registry (t\<lparr>measurements_whitelist := ms\<rparr>) = registry t"
    "registry (t\<lparr>event_log := es\<rparr>) = registry t" "registry (t\<lparr>builder_configs := cf\<rparr>) = registry t"
  by (simp_all add: registry_def active_creds_def)

lemma configured_upd [simp]: "configured (t\<lparr>builders := bs\<rparr>) = configured t" "configured (t\<lparr>measurements_whitelist := ms\<rparr>) = configured t"
    "configured (t\<lparr>event_log := es\<rparr>) = configured t" "configured (t\<lparr>service_credential_registrations := cs\<rparr>) = configured t"
  by (simp_all add: configured_def active_configs_def)

lemma refines_Register: "refines I (RegisterCredentialsForBuilder b s cert pk mn ty reg)"
proof (rule refinesI)
  fix d :: db
  obtain e d' where r: "RegisterCredentialsForBuilder b s cert pk mn ty reg d = (e, d')" by fastforce
  show "spec_step (hub_abs (tabs d)) (hub_abs (tabs (snd (RegisterCredentialsForBuilder b s cert pk mn ty reg d))))"
    unfolding r
  proof (cases rule: RegisterCredentialsForBuilder_cases [OF r])
    case (2 row)
    have "hub_abs (tabs d') = (hub_abs (tabs d))\<lparr>sp_creds := (sp_creds (hub_abs (tabs d)))((b, s) \<mapsto> cred_of row)\<rparr>"
      using registry_replace [OF 2(2,3), of "db_now d" "tabs d"] 2(1)
      by (simp add: hub_abs_def) (simp add: replace_creds_def)
    with 2 show "spec_step (hub_abs (tabs d)) (hub_abs (tabs (snd (e, d'))))" by (simp add: Spec_Register del: hub_abs_sel(3))
  qed (simp add: Spec_Nothing)
qed

lemma refines_Config: "refines I (AddBuilderConfig x b cfg)"
proof (rule refinesI)
  fix d :: db
  obtain e d' where r: "AddBuilderConfig x b cfg d = (e, d')" by fastforce
  show "spec_step (hub_abs (tabs d)) (hub_abs (tabs (snd (AddBuilderConfig x b cfg d))))"
    unfolding r
  proof (cases rule: AddBuilderConfig_cases [OF r])
    case (2 row)
    have "hub_abs (tabs d') = (hub_abs (tabs d))\<lparr>sp_configs := (sp_configs (hub_abs (tabs d)))(b \<mapsto> cr_Config row)\<rparr>"
      using configured_replace [OF 2(2,3), of "db_now d" "tabs d"] 2(1)
      by (simp add: hub_abs_def) (simp add: replace_config_def)
    with 2 show "spec_step (hub_abs (tabs d)) (hub_abs (tabs (snd (e, d'))))" by (simp add: Spec_Configure del: hub_abs_sel(4))
  qed (simp add: Spec_Nothing)
qed

lemma refines_insert_event: "refines I (insert_event ev b n)"
proof (rule refinesI)
  fix d :: db assume ok: "tables_ok (tabs d)"
  show "spec_step (hub_abs (tabs d)) (hub_abs (tabs (snd (insert_event ev b n d))))"
  proof (cases "scalar_id (filter (\<lambda>m. mr_Name m = n) (measurements_whitelist (tabs d)))")
    case (Inr mid)
    show ?thesis
    proof (cases "varchar255 b \<and> b \<in> set (builder_names (tabs d))")
      case True
      have "\<forall>i. mid = Some i \<longrightarrow> i \<in> tp_ID ` ran (sp_templates (hub_abs (tabs d)))"
        using scalar_id_known [OF Inr] templates_ran [OF tables_okD(7) [OF ok]] by (auto simp: known_measurement_iff)
      then have "spec_step (hub_abs (tabs d)) ((hub_abs (tabs d))\<lparr>sp_events := sp_events (hub_abs (tabs d)) @ [(ev, b, mid)]\<rparr>)"
        using True by (intro Spec_Log) simp_all
      moreover have "hub_abs (tabs (snd (insert_event ev b n d))) =
          (hub_abs (tabs d))\<lparr>sp_events := sp_events (hub_abs (tabs d)) @ [(ev, b, mid)]\<rparr>"
        using Inr True by (simp add: insert_event_def Let_def upd_tabs_def hub_abs_def)
      ultimately show ?thesis by simp
    qed (use Inr in \<open>auto simp: insert_event_def Let_def Spec_Nothing\<close>)
  qed (simp add: insert_event_def Spec_Nothing)
qed

lemma refines_insert_measurement: "refines I (insert_measurement x n ty bts False)"
proof (rule refinesI)
  fix d :: db
  show "spec_step (hub_abs (tabs d)) (hub_abs (tabs (snd (insert_measurement x n ty bts False d))))"
  proof (cases "pg_jsonb x bts")
    case (Some j)
    let ?row = "\<lparr>mr_ID = measurement_seq d, mr_Name = n, mr_AttestationType = ty, mr_Measurement = j, mr_IsActive = False,
      mr_CreatedAt = db_now d, mr_UpdatedAt = db_now d, mr_DeprecatedAt = None\<rparr>"
    show ?thesis
    proof (cases "n \<in> set (map mr_Name (measurements_whitelist (tabs d)))")
      case True
      with Some show ?thesis by (simp add: insert_measurement_def Let_def Spec_Nothing)
    next
      case False
      then have "hub_abs (tabs (snd (insert_measurement x n ty bts False d))) =
          (hub_abs (tabs d))\<lparr>sp_templates := (sp_templates (hub_abs (tabs d)))(n \<mapsto> template_of ?row)\<rparr>"
        using Some by (simp add: insert_measurement_def Let_def upd_tabs_def hub_abs_def singleton_add dom_map_of_conv_image_fst image_image)
      with False show ?thesis by (simp add: Spec_AddMeasurement)
    qed
  qed (simp add: insert_measurement_def Spec_Nothing)
qed

lemma refines_insert_builder: "refines I (insert_builder n ip False nw dns)"
proof (rule refinesI)
  fix d :: db
  show "spec_step (hub_abs (tabs d)) (hub_abs (tabs (snd (insert_builder n ip False nw dns d))))"
  proof (cases "ip = None \<or> \<not> varchar255 n \<or> n \<in> set (builder_names (tabs d))")
    case True
    then show ?thesis by (auto simp: insert_builder_def Spec_Nothing split: option.split)
  next
    case False
    then obtain a where a: "ip = Some a" by auto
    then have "hub_abs (tabs (snd (insert_builder n ip False nw dns d))) = (hub_abs (tabs d))\<lparr>sp_builders :=
        (sp_builders (hub_abs (tabs d)))(n \<mapsto> \<lparr>id_IPAddress = a, id_Network = nw, id_DNSName = dns\<rparr>)\<rparr>"
      using False by (simp add: insert_builder_def upd_tabs_def hub_abs_def singleton_add dom_map_of_conv_image_fst image_image identity_of_def)
    with False show ?thesis by (simp add: Spec_AddBuilder)
  qed
qed

text \<open>The status of one row among rows with different names.\<close>

lemma status_update:
  assumes "\<And>r. name (upd r) = name r" "\<And>r. act (upd r) = a"
  shows "name ` {r \<in> (\<lambda>r. if name r = n then upd r else r) ` R. act r} =
    (if a then (if n \<in> name ` R then insert n (name ` {r \<in> R. act r}) else name ` {r \<in> R. act r})
     else name ` {r \<in> R. act r} - {n})"
proof -
  have "x \<in> name ` {r \<in> (\<lambda>r. if name r = n then upd r else r) ` R. act r} \<longleftrightarrow>
      (\<exists>r\<in>R. act (if name r = n then upd r else r) \<and> name (if name r = n then upd r else r) = x)" for x
    by blast
  also have "\<dots> x \<longleftrightarrow> (\<exists>r\<in>R. name r = x \<and> (if x = n then a else act r))" for x
    by (rule bex_cong [OF refl]) (use assms in auto)
  finally show ?thesis by (intro set_eqI) auto
qed

lemma map_unchanged: "(\<And>r. f (upd r) = f r) \<Longrightarrow> map f (map (\<lambda>r. if P r then upd r else r) rs) = map f rs"
  by simp

lemma refines_update_builder:
  "refines (\<lambda>t. a \<longrightarrow> n \<in> dom (configured t)) (update_builder_active a n)"
proof (rule refinesI)
  fix d :: db assume ok: "tables_ok (tabs d)" and cfg: "a \<longrightarrow> n \<in> dom (configured (tabs d))"
  let ?upd = "\<lambda>b. b\<lparr>br_IsActive := a, br_UpdatedAt := db_now d\<rparr>"
  let ?t = "(tabs d)\<lparr>builders := map (\<lambda>b. if br_Name b = n then ?upd b else b) (builders (tabs d))\<rparr>"
  have ids: "map (\<lambda>b. (br_Name b, identity_of b)) (builders ?t) = map (\<lambda>b. (br_Name b, identity_of b)) (builders (tabs d))"
    by (simp del: map_map if_image_distrib) (rule map_unchanged, simp add: identity_of_def)
  have act: "br_Name ` set (filter br_IsActive (builders ?t)) =
      (if a then (if n \<in> br_Name ` set (builders (tabs d)) then insert n (br_Name ` set (filter br_IsActive (builders (tabs d))))
        else br_Name ` set (filter br_IsActive (builders (tabs d))))
       else br_Name ` set (filter br_IsActive (builders (tabs d))) - {n})"
    using status_update [of br_Name ?upd br_IsActive a n "set (builders (tabs d))"] by simp
  have abs: "hub_abs ?t = (hub_abs (tabs d))\<lparr>sp_active := br_Name ` set (filter br_IsActive (builders ?t))\<rparr>"
    unfolding hub_abs_def ids by simp
  have known: "n \<in> br_Name ` set (builders (tabs d))" if a
    using cfg that tables_okD(4) [OF ok]
    by (auto simp: configured_def active_configs_def dom_map_of_conv_image_fst)
  have "spec_step (hub_abs (tabs d)) (hub_abs ?t)"
  proof (cases a)
    case True
    with abs act known have "hub_abs ?t = (hub_abs (tabs d))\<lparr>sp_active := insert n (sp_active (hub_abs (tabs d)))\<rparr>"
      by (simp add: hub_abs_def)
    with cfg True show ?thesis by (simp add: Spec_Activate)
  next
    case False
    with abs act have "hub_abs ?t = (hub_abs (tabs d))\<lparr>sp_active := sp_active (hub_abs (tabs d)) - {n}\<rparr>"
      by (simp add: hub_abs_def)
    then show ?thesis by (simp add: Spec_Deactivate)
  qed
  then show "spec_step (hub_abs (tabs d)) (hub_abs (tabs (snd (update_builder_active a n d))))"
    by (simp add: update_builder_active_def upd_tabs_def Spec_Nothing)
qed

lemma refines_update_measurement: "refines I (update_measurement_active a n)"
proof (rule refinesI)
  fix d :: db
  let ?upd = "\<lambda>m. m\<lparr>mr_IsActive := a\<rparr>" and ?ms = "measurements_whitelist (tabs d)"
  let ?t = "(tabs d)\<lparr>measurements_whitelist := map (\<lambda>m. if mr_Name m = n then ?upd m else m) ?ms\<rparr>"
  have tps: "map (\<lambda>m. (mr_Name m, template_of m)) (measurements_whitelist ?t) = map (\<lambda>m. (mr_Name m, template_of m)) ?ms"
    by (simp del: map_map if_image_distrib) (rule map_unchanged, simp add: template_of_def)
  have act: "mr_Name ` set (filter mr_IsActive (measurements_whitelist ?t)) =
      (if a then (if n \<in> mr_Name ` set ?ms then insert n (mr_Name ` set (filter mr_IsActive ?ms))
        else mr_Name ` set (filter mr_IsActive ?ms))
       else mr_Name ` set (filter mr_IsActive ?ms) - {n})"
    using status_update [of mr_Name ?upd mr_IsActive a n "set ?ms"] by simp
  have abs: "hub_abs ?t = (hub_abs (tabs d))\<lparr>sp_allowed := mr_Name ` set (filter mr_IsActive (measurements_whitelist ?t))\<rparr>"
    unfolding hub_abs_def tps by simp
  consider (allow) "a" "n \<in> mr_Name ` set ?ms" | (unknown) "a" "n \<notin> mr_Name ` set ?ms" | (disallow) "\<not> a" by blast
  then have "spec_step (hub_abs (tabs d)) (hub_abs ?t)"
  proof cases
    case allow
    with abs act have "hub_abs ?t = (hub_abs (tabs d))\<lparr>sp_allowed := insert n (sp_allowed (hub_abs (tabs d)))\<rparr>"
      by (simp add: hub_abs_def)
    with allow show ?thesis by (simp add: Spec_Allow)
  next
    case unknown
    with abs act have "hub_abs ?t = hub_abs (tabs d)" by (simp add: hub_abs_def)
    then show ?thesis by (simp add: Spec_Nothing)
  next
    case disallow
    with abs act have "hub_abs ?t = (hub_abs (tabs d))\<lparr>sp_allowed := sp_allowed (hub_abs (tabs d)) - {n}\<rparr>"
      by (simp add: hub_abs_def)
    then show ?thesis by (simp add: Spec_Disallow)
  qed
  then show "spec_step (hub_abs (tabs d)) (hub_abs (tabs (snd (update_measurement_active a n d))))"
    by (simp add: update_measurement_active_def upd_tabs_def Spec_Nothing)
qed

lemma refines_operations:
  "refines I (LogEvent ev b n)" "refines I (AddMeasurement x m False)" "refines I (ChangeActiveStatusForMeasurement n a)"
  "refines (\<lambda>t. a \<longrightarrow> n \<in> dom (configured t)) (ChangeActiveStatusForBuilder n a)"
  unfolding LogEvent_def AddMeasurement_def ChangeActiveStatusForMeasurement_def ChangeActiveStatusForBuilder_def
  by (intro refines_intros refines_insert_event refines_insert_measurement refines_update_builder refines_update_measurement)+

lemma refines_AddBuilder:
  assumes "\<not> B_IsActive b"
  shows "refines I (AddBuilder x b)"
proof (rule refinesI)
  fix d :: db assume ok: "tables_ok (tabs d)" "I (tabs d)"
  have "refines I (exec (checked ps (insert_builder n ip False nw dns)))" for ps n ip nw dns
    by (intro refines_intros refines_insert_builder)
  from refinesD [OF this ok] show "spec_step (hub_abs (tabs d)) (hub_abs (tabs (snd (AddBuilder x b d))))"
    using assms by (cases "inet_value x (B_IPAddress b)") (simp_all add: AddBuilder_def Spec_Nothing)
qed

section \<open>The program refines the machine\<close>

lemmas refines_unconditional = refines_Register [of "\<lambda>t. True"] refines_Config [of "\<lambda>t. True"]
  refines_operations(1-3) [of "\<lambda>t. True"] refines_AddBuilder [where I = "\<lambda>t. True"]

lemma op_step_refines:
  "op_step x z z' \<Longrightarrow> tables_ok (tabs (fst z)) \<Longrightarrow> served (snd z) (tabs (fst z)) \<Longrightarrow>
   spec_step (hub_abs (tabs (fst z))) (hub_abs (tabs (fst z')))"
proof (erule op_stepE, goal_cases)
  case (1 d' d P)
  then show ?case by (simp add: Spec_Nothing)
next
  case (2 n d c d' P)
  then have "tabs d' = tabs d" by (simp add: tabs_config_read)
  with 2 show ?case by (simp add: Spec_Nothing)
next
  case (9 n d P)
  then show ?case using refinesD [OF refines_operations(4) [where a = False]] by simp
next
  case (10 n P d)
  then have "n \<in> dom (configured (tabs d))" by (auto simp: served_def)
  with 10 show ?case using refinesD [OF refines_operations(4) [where a = True]] by simp
qed (simp_all add: refines_unconditional [THEN refinesD])

inductive request_step :: "ext \<Rightarrow> 's AdminSecretService \<Rightarrow> db \<times> 's \<Rightarrow> db \<times> 's \<Rightarrow> bool" for x sec where
  Request: "H \<in> set (system_handlers x sec) \<Longrightarrow> H r NewResponse h = (w, p, h') \<Longrightarrow> request_step x sec h h'"

interpretation op: refinement spec_step "op_step x" "\<lambda>z. hub_abs (tabs (fst z))" "op_reachable x"
proof
  fix z z' assume z: "op_reachable x z" "op_step x z z'"
  then show "op_reachable x z'" by (rule Op_Next)
  show "spec_step\<^sup>*\<^sup>* (hub_abs (tabs (fst z))) (hub_abs (tabs (fst z')))"
    using op_step_refines [OF z(2)] op_reachable_inv [OF z(1)] by blast
qed

interpretation requests: refinement spec_step "request_step x sec" "\<lambda>h. hub_abs (tabs (fst h))"
  "\<lambda>h. \<exists>P. op_reachable x (fst h, P)"
proof
  fix h h' :: "db \<times> 'a" assume h: "\<exists>P. op_reachable x (fst h, P)" "request_step x sec h h'"
  obtain P where P: "op_reachable x (fst h, P)" using h(1) by blast
  obtain P' where run: "(op_step x)\<^sup>*\<^sup>* (fst h, P) (fst h', P')"
    using h(2)
  proof cases
    case (Request H r w p)
    have "tables_ok (tabs (fst h))" using op_reachable_inv [OF P] by simp
    then show thesis using system_handlers_run [OF Request(1)] Request(2) that unfolding runs_def by (metis snd_conv)
  qed
  show "\<exists>P. op_reachable x (fst h', P)" using op_reachable_steps [OF run P] by blast
  show "spec_step\<^sup>*\<^sup>* (hub_abs (tabs (fst h))) (hub_abs (tabs (fst h')))"
    using op.run_simulated [OF run P] by simp
qed

interpretation hub: refinement spec_step "hub_step x" "\<lambda>z. hub_abs (hub_tabs z)" "hub_inv x"
proof
  fix z z' assume z: "hub_inv x z" "hub_step x z z'"
  show "hub_inv x z'" by (rule hub_step_inv [OF z])
  obtain d d' where d: "tabs d = hub_tabs z" "tabs d' = hub_tabs z'" "op_step x (d, hub_checked z) (d', hub_checked z')"
    using hub_step_simulated [OF z] by blast
  have "op_reachable x (d, hub_checked z)" using z(1) d(1) by (simp add: hub_inv_def)
  with op.simulated [OF _ d(3)] d(1,2) show "spec_step\<^sup>*\<^sup>* (hub_abs (hub_tabs z)) (hub_abs (hub_tabs z'))" by simp
qed

lemma hub_run: "hub_reachable x z \<Longrightarrow> (hub_step x)\<^sup>*\<^sup>* hub_init z"
  by (induction rule: hub_reachable.induct) auto

lemma hub_abs_identity:
  assumes "distinct (builder_names t)" "row \<in> set (builders t)"
  shows "sp_builders (hub_abs t) (br_Name row) = Some (identity_of row)"
  using assms by (auto simp: hub_abs_def distinct_map comp_def inj_on_def intro!: map_of_is_SomeI)

lemma identity_hub_abs:
  assumes "sp_builders (hub_abs t) n = Some i"
  obtains row where "row \<in> set (builders t)" "br_Name row = n" "identity_of row = i"
  using map_of_SomeD [of "map (\<lambda>b. (br_Name b, identity_of b)) (builders t)" n i] assms by (auto simp: hub_abs_def)

lemma hub_abs_template:
  assumes "distinct (map mr_Name (measurements_whitelist t))" "m \<in> set (measurements_whitelist t)"
  shows "sp_templates (hub_abs t) (mr_Name m) = Some (template_of m)"
  using assms by (auto simp: hub_abs_def distinct_map comp_def inj_on_def intro!: map_of_is_SomeI)

lemma template_hub_abs:
  assumes "sp_templates (hub_abs t) n = Some i"
  obtains m where "m \<in> set (measurements_whitelist t)" "mr_Name m = n" "template_of m = i"
  using map_of_SomeD [of "map (\<lambda>m. (mr_Name m, template_of m)) (measurements_whitelist t)" n i] assms
  by (auto simp: hub_abs_def)

lemma map_le_Some: "f \<subseteq>\<^sub>m g \<Longrightarrow> f k = Some v \<Longrightarrow> g k = Some v"
  unfolding map_le_def by (metis domI)

lemma requests_extend:
  assumes "op_reachable x (fst h, P)" "(request_step x sec)\<^sup>*\<^sup>* h h'"
  shows "extends (hub_abs (tabs (fst h))) (hub_abs (tabs (fst h')))" "tables_ok (tabs (fst h'))"
    "\<exists>P'. op_reachable x (fst h', P')"
proof -
  show "extends (hub_abs (tabs (fst h))) (hub_abs (tabs (fst h')))"
    by (rule requests.run_related [OF assms(2)]) (use assms(1) in \<open>auto intro: extends_refl spec_step_extends elim: extends_trans\<close>)
  show r: "\<exists>P'. op_reachable x (fst h', P')" using requests.run_keeps [OF assms(2)] assms(1) by blast
  then show "tables_ok (tabs (fst h'))" using op_reachable_inv by fastforce
qed

lemma identity_kept:
  assumes "op_reachable x (fst h, P)" "(request_step x sec)\<^sup>*\<^sup>* h h'" "row \<in> set (builders (tabs (fst h)))"
  obtains row' where "row' \<in> set (builders (tabs (fst h')))" "br_Name row' = br_Name row" "identity_of row' = identity_of row"
proof -
  have "distinct (builder_names (tabs (fst h)))" using op_reachable_inv [OF assms(1)] tables_okD(5) by simp
  from hub_abs_identity [OF this assms(3)] have "sp_builders (hub_abs (tabs (fst h'))) (br_Name row) = Some (identity_of row)"
    using requests_extend(1) [OF assms(1,2)] map_le_Some by (auto simp: extends_def)
  then show ?thesis by (rule identity_hub_abs) (rule that)
qed

lemma template_kept:
  assumes "op_reachable x (fst h, P)" "(request_step x sec)\<^sup>*\<^sup>* h h'" "m \<in> set (measurements_whitelist (tabs (fst h)))"
  obtains m' where "m' \<in> set (measurements_whitelist (tabs (fst h')))" "mr_Name m' = mr_Name m" "template_of m' = template_of m"
proof -
  have "distinct (map mr_Name (measurements_whitelist (tabs (fst h))))" using op_reachable_inv [OF assms(1)] tables_okD(7) by simp
  from hub_abs_template [OF this assms(3)] have "sp_templates (hub_abs (tabs (fst h'))) (mr_Name m) = Some (template_of m)"
    using requests_extend(1) [OF assms(1,2)] map_le_Some by (auto simp: extends_def)
  then show ?thesis by (rule template_hub_abs) (rule that)
qed

section \<open>Properties\<close>

text \<open>C11: The whole program, with the statements of concurrent requests interleaved and with any
  failures, does nothing but the steps of the abstract machine: what is committed in a reachable
  state is a state of the machine, every further run is a run of the machine, and so every active
  builder is configured and everything stored belongs to a known builder or template.\<close>

theorem hub_refines_spec:
  assumes "hub_reachable x z" "(hub_step x)\<^sup>*\<^sup>* z z'"
  shows "spec_step\<^sup>*\<^sup>* spec_init (hub_abs (hub_tabs z)) \<and> spec_step\<^sup>*\<^sup>* (hub_abs (hub_tabs z)) (hub_abs (hub_tabs z')) \<and>
    spec_ok (hub_abs (hub_tabs z'))"
proof -
  have keep: "hub_inv x z" by (rule hub_reachable_inv [OF assms(1)])
  have start: "hub_abs (hub_tabs hub_init) = spec_init" by (simp add: hub_init_def hub_abs_empty)
  have run: "(hub_step x)\<^sup>*\<^sup>* hub_init z'" using hub_run [OF assms(1)] assms(2) by simp
  have "spec_ok (hub_abs (hub_tabs z'))"
    by (rule hub.run_invariant [OF run hub_inv_init]) (auto simp: start spec_init_ok intro: spec_step_ok)
  then show ?thesis
    using hub.run_simulated [OF hub_run [OF assms(1)] hub_inv_init] hub.run_simulated [OF assms(2) keep] by (simp add: start)
qed

theorem hub_refines_spec_witness:
  "\<exists>s. spec_step\<^sup>*\<^sup>* spec_init s \<and> sp_creds s (''alpha'', ''proxy'') = Some (cred_of race_row) \<and> ''alpha'' \<in> dom (sp_builders s)"
proof -
  let ?R = "[0 \<mapsto> race_tx (Inserted race_row), 1 \<mapsto> race_tx (Updating {})]"
  let ?z = "(race ?R)\<lparr>hub_tabs := race_tabs\<lparr>service_credential_registrations := [race_row]\<rparr>, hub_regs := ?R(0 := None)\<rparr>"
  have "tx_step cred_ops (cred_insert race_tabs) ([], ?R) (own_view cred_ops (race_tx (Inserted race_row)) [] @ [race_row], ?R(0 := None))"
    by (rule Tx_Commit) (simp_all add: race_tx_def)
  then have "hub_step sample_ext (race ?R) ?z"
    using Hub_Register [of "race ?R" "[race_row]" "?R(0 := None)"] by (simp add: race_def race_tabs_eq own_view_def)
  from hub_refines_spec [OF race_reachable r_into_rtranclp [of "hub_step sample_ext", OF this]]
  have run: "spec_step\<^sup>*\<^sup>* spec_init (hub_abs (hub_tabs ?z))" and ok: "spec_ok (hub_abs (hub_tabs ?z))"
    by (blast intro: rtranclp_trans)+
  have cred: "sp_creds (hub_abs (hub_tabs ?z)) (''alpha'', ''proxy'') = Some (cred_of race_row)"
    by (simp add: registry_def active_creds_def race_row_def cred_key_def)
  show ?thesis by (intro exI [of _ "hub_abs (hub_tabs ?z)"] conjI run cred spec_ok_creds [OF ok cred])
qed

text \<open>C15: History is kept: whatever requests run, a builder keeps its address, network and DNS name
  under its unique name, a measurement keeps its template, the log of events only grows at its end,
  and a builder and service once registered, or a builder once configured, stays so.\<close>

theorem history_kept:
  assumes "op_reachable x (fst h, P)" "(request_step x sec)\<^sup>*\<^sup>* h h'"
  shows "(\<forall>row\<in>set (builders (tabs (fst h))). \<exists>row'\<in>set (builders (tabs (fst h'))).
      br_Name row' = br_Name row \<and> br_IPAddress row' = br_IPAddress row \<and> br_Network row' = br_Network row \<and>
      br_DNSName row' = br_DNSName row) \<and> distinct (builder_names (tabs (fst h'))) \<and>
    (\<forall>m\<in>set (measurements_whitelist (tabs (fst h))). \<exists>m'\<in>set (measurements_whitelist (tabs (fst h'))).
      mr_ID m' = mr_ID m \<and> mr_Name m' = mr_Name m \<and> mr_AttestationType m' = mr_AttestationType m \<and>
      mr_Measurement m' = mr_Measurement m) \<and> distinct (map mr_Name (measurements_whitelist (tabs (fst h')))) \<and>
    (\<exists>es. map (\<lambda>e. (er_EventName e, er_BuilderName e, er_MeasurementID e)) (event_log (tabs (fst h'))) =
      map (\<lambda>e. (er_EventName e, er_BuilderName e, er_MeasurementID e)) (event_log (tabs (fst h))) @ es) \<and>
    dom (registry (tabs (fst h))) \<subseteq> dom (registry (tabs (fst h'))) \<and>
    dom (configured (tabs (fst h))) \<subseteq> dom (configured (tabs (fst h')))"
proof -
  note ext = requests_extend [OF assms]
  have rows: "\<exists>row'\<in>set (builders (tabs (fst h'))). br_Name row' = br_Name row \<and> br_IPAddress row' = br_IPAddress row \<and>
      br_Network row' = br_Network row \<and> br_DNSName row' = br_DNSName row" if "row \<in> set (builders (tabs (fst h)))" for row
    by (rule identity_kept [OF assms that]) (auto simp: identity_of_def)
  have templates: "\<exists>m'\<in>set (measurements_whitelist (tabs (fst h'))). mr_ID m' = mr_ID m \<and> mr_Name m' = mr_Name m \<and>
      mr_AttestationType m' = mr_AttestationType m \<and> mr_Measurement m' = mr_Measurement m"
    if "m \<in> set (measurements_whitelist (tabs (fst h)))" for m
    by (rule template_kept [OF assms that]) (auto simp: template_of_def)
  have "(\<exists>es. sp_events (hub_abs (tabs (fst h'))) = sp_events (hub_abs (tabs (fst h))) @ es) \<and>
      dom (registry (tabs (fst h))) \<subseteq> dom (registry (tabs (fst h'))) \<and>
      dom (configured (tabs (fst h))) \<subseteq> dom (configured (tabs (fst h')))"
    using ext(1) by (simp add: extends_def)
  then show ?thesis
    using rows templates tables_okD(5,7) [OF ext(2)] by (simp add: hub_abs_def)
qed

text \<open>A request that tries to give the name of a builder to another address.\<close>

definition takeover_request :: request where
  "takeover_request = sample_request\<lparr>
     rq_Body := ''{\"name\":\"alpha\",\"ip_address\":\"6.6.6.6\",\"network\":\"production\"}''\<rparr>"

theorem history_kept_witness:
  "\<exists>row\<in>set (builders (tabs (fst (snd (snd (admin_AddBuilder sample_ext (db_admin sample_ext inmem_service)
     takeover_request NewResponse sample_state)))))). br_Name row = ''alpha'' \<and> br_IPAddress row = sample_ip"
proof -
  let ?H = "admin_AddBuilder sample_ext (db_admin sample_ext inmem_service)"
  let ?z = "?H takeover_request NewResponse sample_state"
  have reach: "op_reachable sample_ext (fst sample_state, {''alpha''})"
    by (simp add: sample_state_def sample_db_op_reachable)
  have "?H \<in> set (system_handlers sample_ext inmem_service)" by (simp add: system_handlers_def Let_def)
  then have "request_step sample_ext inmem_service sample_state (snd (snd ?z))"
    by (rule Request [of _ _ _ takeover_request _ "fst ?z" "fst (snd ?z)"]) simp
  note kept = history_kept [OF reach r_into_rtranclp [of "request_step sample_ext inmem_service", OF this], THEN conjunct1]
  have "list_ex (\<lambda>b. br_Name b = ''alpha'' \<and> br_IPAddress b = sample_ip) (builders (tabs (fst sample_state)))" by code_simp
  then obtain row where row: "row \<in> set (builders (tabs (fst sample_state)))" "br_Name row = ''alpha''" "br_IPAddress row = sample_ip"
    by (auto simp: list_ex_iff)
  from bspec [OF kept row(1)] row(2,3) show ?thesis by metis
qed

end
