(* ===== verification/Decoded_Text.thy ===== *)
theory Decoded_Text
  imports Ports_Types
begin

text \<open>
  Text that the decoders produce is UTF-8: an escape becomes a well-formed sequence, an ill-formed
  byte and a lone surrogate become U+FFFD. So a decoded measurement template is one that is read
  back from its own document.
\<close>

section \<open>Runes\<close>

lemma utf8_valid_rune:
  assumes "rune_len s \<noteq> 0" "utf8_valid (drop (rune_len s) s)"
  shows "utf8_valid s"
proof (cases s)
  case (Cons c cs)
  with assms show ?thesis unfolding utf8_valid_def by (subst utf8_count.simps) auto
qed (use assms in simp)

text \<open>A sequence that is one rune, before valid text.\<close>

definition one_rune :: "bytes \<Rightarrow> bool" where
  "one_rune p \<longleftrightarrow> p \<noteq> [] \<and> (\<forall>r. rune_len (p @ r) = length p)"

lemma one_rune_valid: "one_rune p \<Longrightarrow> utf8_valid r \<Longrightarrow> utf8_valid (p @ r)"
  by (rule utf8_valid_rune) (simp_all add: one_rune_def)

lemma one_rune_take:
  assumes "rune_len s \<noteq> 0"
  shows "one_rune (take (rune_len s) s)"
  using rune_len_take [OF assms] rune_len_le [of s] assms by (auto simp: one_rune_def)

lemma one_rune_ascii: "byte c < 128 \<Longrightarrow> one_rune [c]"
  by (simp add: one_rune_def rune_len_one)

lemma one_rune_replacement: "one_rune replacement"
  by (simp add: one_rune_def rune_len_three in_range_def second3_def)

lemma one_rune_encode:
  assumes "n < 1114112" "\<not> is_surrogate n"
  shows "one_rune (encode_rune n)"
proof -
  consider "n < 128" | "128 \<le> n" "n < 2048" | "2048 \<le> n" "n < 65536" | "65536 \<le> n" by linarith
  then show ?thesis
  proof cases
    case 1
    then show ?thesis by (simp add: encode_rune_def one_rune_ascii)
  next
    case 2
    then have "2 \<le> n div 64" "n div 64 < 32" by simp_all
    with 2 show ?thesis by (simp add: encode_rune_def one_rune_def rune_len_two in_range_def)
  next
    case 3
    define a b where "a = n div 4096" and "b = n div 64 mod 64"
    have "n div 64 div 64 = n div 4096" by (simp add: div_mult2_eq [symmetric])
    then have n: "n div 64 = 64 * a + b" unfolding a_def b_def by (metis mult_div_mod_eq)
    have ab: "a < 16" "b < 64" using 3 by (simp_all add: a_def b_def)
    have "a = 0 \<Longrightarrow> 32 \<le> b" using 3(1) n by linarith
    moreover have "b < 32" if "a = 13"
    proof -
      have "n < 57344" using n that ab by linarith
      with assms(2) have "n < 55296" by (simp add: is_surrogate_def)
      then show ?thesis using n that by linarith
    qed
    ultimately have "second3 (char_of (224 + a)) (char_of (128 + b))"
      using ab by (auto simp: second3_def in_range_def)
    with 3 ab show ?thesis
      by (simp add: encode_rune_def one_rune_def rune_len_three in_range_def flip: a_def b_def)
  next
    case 4
    define a b where "a = n div 262144" and "b = n div 4096 mod 64"
    have "n div 4096 div 64 = n div 262144" by (simp add: div_mult2_eq [symmetric])
    then have n: "n div 4096 = 64 * a + b" unfolding a_def b_def by (metis mult_div_mod_eq)
    have ab: "a < 5" "b < 64" using assms(1) by (simp_all add: a_def b_def)
    have "a = 0 \<Longrightarrow> 16 \<le> b" using 4 n by linarith
    moreover have "a = 4 \<Longrightarrow> b < 16" using assms(1) n by linarith
    ultimately have "second4 (char_of (240 + a)) (char_of (128 + b))"
      using ab by (auto simp: second4_def in_range_def)
    with 4 ab show ?thesis
      by (simp add: encode_rune_def one_rune_def rune_len_four in_range_def flip: a_def b_def)
  qed
qed

section \<open>Unquoting a literal\<close>

lemma str_lit_step:
  assumes "str_lit b" "b \<noteq> []"
  shows "str_item (b @ [dq]) \<noteq> 0 \<and> str_item (b @ [dq]) \<le> length b \<and> str_lit (drop (str_item (b @ [dq])) b)"
proof -
  let ?k = "str_item (b @ [dq])"
  have s: "scan_str (b @ [dq]) = Some (b, [])" using assms(1) by (simp add: str_lit_def)
  then have k: "?k \<noteq> 0" using assms(2) by (subst (asm) scan_str.simps) (auto split: if_splits)
  with s obtain b' where b': "scan_str (drop ?k (b @ [dq])) = Some (b', [])" "b = take ?k (b @ [dq]) @ b'"
    by (auto simp: scan_str_item)
  from scan_str_Some [OF b'(1)] have e: "drop ?k (b @ [dq]) = b' @ [dq]" .
  then have "length (b @ [dq]) - ?k = Suc (length b')" by (metis length_append_singleton length_drop)
  then have le: "?k \<le> length b" by simp
  with e have "drop ?k b = b'" by simp
  with b'(1) e le k show ?thesis by (simp add: str_lit_def)
qed

lemma str_lit_plain: "str_lit (c # cs) \<Longrightarrow> c \<noteq> bsl \<Longrightarrow> str_lit cs"
  using str_lit_step [of "c # cs"] by (auto split: if_splits)

lemma str_lit_plains: "str_lit s \<Longrightarrow> \<forall>c\<in>set (take n s). c \<noteq> bsl \<Longrightarrow> str_lit (drop n s)"
proof (induction s arbitrary: n)
  case (Cons c cs)
  then show ?case by (cases n) (auto dest: str_lit_plain)
qed simp

lemma str_lit_escape:
  assumes "str_lit (bsl # cs)"
  obtains (simple) d ds where "cs = d # ds" "d \<in> set simple_escapes" "str_lit ds"
  | (hex) ds n where "cs = CHR ''u'' # ds" "hex4 ds = Some n" "str_lit (drop 4 ds)"
proof -
  have nu: "CHR ''u'' \<notin> set simple_escapes" by (simp add: simple_escapes_def)
  obtain d ds where c: "cs = d # ds"
    using str_lit_step [OF assms] by (cases cs) (auto simp: simple_escapes_def split: if_splits)
  show ?thesis
  proof (cases "d \<in> set simple_escapes")
    case True
    with c str_lit_step [OF assms] show ?thesis by (intro simple) auto
  next
    case False
    then have u: "d = CHR ''u''" "hex4 (ds @ [dq]) \<noteq> None" "6 \<le> length (bsl # cs)" "str_lit (drop 6 (bsl # cs))"
      using c str_lit_step [OF assms] by (auto split: if_splits)
    then obtain n where n: "hex4 (ds @ [dq]) = Some n" by blast
    have "4 \<le> length ds" using u(3) c by simp
    then have "hex4 ds = Some n" using n by (cases ds rule: hex4.cases) auto
    with u c show ?thesis by (intro hex) auto
  qed
qed

lemma unescape_ascii: "d \<in> set simple_escapes \<Longrightarrow> byte (unescape d) < 128"
proof -
  have "list_all (\<lambda>d. byte (unescape d) < (128 :: nat)) simple_escapes" by code_simp
  then show "d \<in> set simple_escapes \<Longrightarrow> byte (unescape d) < 128" by (simp add: list_all_iff)
qed

lemma hexval_less: "hexval c = Some n \<Longrightarrow> n < 16"
  by (auto simp: hexval_def in_range_def split: if_splits)

lemma hex4_less: "hex4 s = Some n \<Longrightarrow> n < 65536"
proof (cases s rule: hex4.cases)
  case (1 a b c d r)
  assume s: "hex4 s = Some n"
  from s 1 have "hexval a \<noteq> None" "hexval b \<noteq> None" "hexval c \<noteq> None" "hexval d \<noteq> None"
    by (simp_all split: option.splits)
  then obtain w x y z where h: "hexval a = Some w" "hexval b = Some x" "hexval c = Some y" "hexval d = Some z"
    by blast
  from s have n: "n = 4096 * w + 256 * x + 16 * y + z" unfolding 1 hex4.simps h by simp
  have "w < 16" "x < 16" "y < 16" "z < 16" using h hexval_less by blast+
  then show ?thesis unfolding n by linarith
qed (simp_all)

lemma low_surrogate_Some:
  assumes "low_surrogate s = Some m"
  obtains r where "s = bsl # CHR ''u'' # r" "hex4 r = Some m" "56320 \<le> m" "m < 57344"
  using assms by (cases s rule: low_surrogate.cases) (auto split: if_splits option.splits)

text \<open>Each step of the unquoting gives one rune and stays at the beginning of an element.\<close>

lemma unquote_step_text:
  assumes "str_lit s" "s \<noteq> []"
  shows "one_rune (fst (unquote_step s)) \<and> str_lit (drop (snd (unquote_step s)) s)"
proof -
  obtain c cs where s: "s = c # cs" using assms(2) by (cases s) auto
  show ?thesis
  proof (cases "c = bsl")
    case True
    with assms(1) s have lit: "str_lit (bsl # cs)" by simp
    show ?thesis
    proof (cases rule: str_lit_escape [OF lit])
      case (1 d ds)
      then have "d \<noteq> CHR ''u''" by (auto simp: simple_escapes_def)
      with 1 True s show ?thesis by (simp add: unquote_step_def unescape_ascii one_rune_ascii)
    next
      case (2 ds n)
      show ?thesis
      proof (cases "is_surrogate n \<and> n < 56320 \<and> low_surrogate (drop 4 ds) \<noteq> None")
        case False
        then have "unquote_step s = (if is_surrogate n then replacement else encode_rune n, 6)"
          using 2 True s by (auto simp: unquote_step_def split: option.splits bool.splits)
        moreover have "drop 6 s = drop 4 ds" using 2 True s by simp
        ultimately show ?thesis using 2 hex4_less [OF 2(2)] by (simp add: one_rune_replacement one_rune_encode)
      next
        case pair: True
        then obtain m where m: "low_surrogate (drop 4 ds) = Some m" by blast
        then obtain r where r: "drop 4 ds = bsl # CHR ''u'' # r" "hex4 r = Some m" "56320 \<le> m" "m < 57344"
          by (rule low_surrogate_Some)
        have step: "unquote_step s = (encode_rune (65536 + (n - 55296) * 1024 + (m - 56320)), 12)"
          using 2 True s pair m by (simp add: unquote_step_def)
        have "drop 12 s = drop 4 r" using 2 True s arg_cong [OF r(1), of "drop 6"] by simp
        moreover have "str_lit (drop 4 r)"
          using 2(3) unfolding r(1) by (cases rule: str_lit_escape) (auto simp: simple_escapes_def)
        moreover have "n - 55296 < 1024" "m - 56320 < 1024" using pair r(3,4) by (auto simp: is_surrogate_def)
        ultimately show ?thesis unfolding step by (auto intro!: one_rune_encode simp: is_surrogate_def)
      qed
    qed
  next
    case False
    then have tail: "str_lit cs" using assms(1) s str_lit_plain by blast
    consider "byte c < 128" | "128 \<le> byte c" "rune_len s = 0" | "128 \<le> byte c" "rune_len s \<noteq> 0" by linarith
    then show ?thesis
    proof cases
      case 3
      have "\<forall>d\<in>set (take (rune_len s) s). d \<noteq> bsl" using rune_len_high [OF 3(2)] 3(1) s by fastforce
      with 3 False s assms(1) show ?thesis
        by (simp add: unquote_step_def one_rune_take str_lit_plains)
    qed (use False s tail in \<open>simp_all add: unquote_step_def one_rune_ascii one_rune_replacement\<close>)
  qed
qed

lemma utf8_unquote: "str_lit s \<Longrightarrow> utf8_valid (unquote s)"
proof (induction s rule: unquote.induct)
  case (1 s)
  show ?case
  proof (cases s)
    case (Cons c cs)
    with unquote_step_text [OF "1.prems"] 1(1) show ?thesis
      by (subst unquote.simps) (auto intro: one_rune_valid)
  qed simp
qed

section \<open>What the decoders produce\<close>

lemma dec_string_text: "dec_string v old = Some s \<Longrightarrow> lits_ok v \<Longrightarrow> utf8_valid old \<Longrightarrow> utf8_valid s"
  by (cases v) (auto simp: utf8_unquote)

lemma dec_strings_text:
  "dec_strings vs old = Some ss \<Longrightarrow> \<forall>v\<in>set vs. lits_ok v \<Longrightarrow> \<forall>s\<in>set old. utf8_valid s \<Longrightarrow> \<forall>s\<in>set ss. utf8_valid s"
proof (induction vs arbitrary: old ss)
  case (Cons v vs)
  let ?o = "case old of [] \<Rightarrow> [] | x # _ \<Rightarrow> x"
  from Cons.prems(1) obtain s ts where s: "dec_string v ?o = Some s" "dec_strings vs (drop 1 old) = Some ts" "ss = s # ts"
    by (auto split: option.splits)
  have "utf8_valid ?o" using Cons.prems(3) by (cases old) auto
  then have "utf8_valid s" using dec_string_text [OF s(1)] Cons.prems(2) by simp
  moreover have "\<forall>t\<in>set ts. utf8_valid t"
    using Cons.IH [OF s(2)] Cons.prems(2,3) by (auto dest: in_set_dropD)
  ultimately show ?case using s(3) by simp
qed simp

lemma dec_slice_text:
  "dec_slice v old = Some ss \<Longrightarrow> lits_ok v \<Longrightarrow> \<forall>s\<in>set old. utf8_valid s \<Longrightarrow> \<forall>s\<in>set ss. utf8_valid s"
  by (cases v) (auto dest: dec_strings_text)

text \<open>A struct keeps what every one of its fields keeps.\<close>

definition fields_keep :: "('s \<Rightarrow> bool) \<Rightarrow> 's field list \<Rightarrow> bool" where
  "fields_keep P fs \<longleftrightarrow> (\<forall>(n, d)\<in>set fs. \<forall>v s s'. lits_ok v \<longrightarrow> P s \<longrightarrow> d v s = Some s' \<longrightarrow> P s')"

lemma dec_struct_keeps:
  assumes keep: "fields_keep P fs"
  shows "dec_struct fs v s = Some s' \<Longrightarrow> lits_ok v \<Longrightarrow> P s \<Longrightarrow> P s'"
proof (cases v)
  case (JObj ms)
  have "dec_fields fs ms s = Some s' \<Longrightarrow> \<forall>(k, v)\<in>set ms. lits_ok v \<Longrightarrow> P s \<Longrightarrow> P s'" for ms s
  proof (induction ms arbitrary: s)
    case (Cons q ms)
    obtain k v where q: "q = (k, v)" by (cases q)
    show ?case
    proof (cases "find_field fs (unquote k)")
      case (Some d)
      with Cons.prems(1) q obtain s1 where s1: "d v s = Some s1" "dec_fields fs ms s1 = Some s'"
        by (auto split: option.splits)
      obtain n where "(n, d) \<in> set fs" using find_field_mem [OF Some] by blast
      with keep have "P s1" using s1(1) Cons.prems(2,3) q by (fastforce simp: fields_keep_def)
      then show ?thesis using Cons.IH [OF s1(2)] Cons.prems(2) by simp
    qed (use Cons q in auto)
  qed simp
  then show "dec_struct fs v s = Some s' \<Longrightarrow> lits_ok v \<Longrightarrow> P s \<Longrightarrow> P s'" using JObj by fastforce
qed auto

lemma single_fields_keep: "fields_keep text_ok single_fields"
  by (auto simp: fields_keep_def single_fields_def text_ok_def dest: dec_string_text dec_slice_text)

lemma text_ok_zero: "text_ok zero_single"
  by code_simp

lemma dec_single_text: "dec_single v = Some s \<Longrightarrow> lits_ok v \<Longrightarrow> text_ok s"
  using dec_struct_keeps [OF single_fields_keep, of v zero_single s] text_ok_zero by (simp add: dec_single_def)

lemma dec_members_text:
  assumes "dec_members dec_single ms m = Some m'" "\<forall>(k, v)\<in>set ms. str_lit k \<and> lits_ok v" "template_ok (Some m)"
  shows "template_ok (Some m')"
  using assms
proof (induction ms arbitrary: m)
  case (Cons p ms)
  obtain k v where p: "p = (k, v)" by (cases p)
  with Cons.prems(1) obtain s where s: "dec_single v = Some s"
      "dec_members dec_single ms (AList.update (unquote k) s m) = Some m'"
    by (auto split: option.splits)
  have "utf8_valid (unquote k)" "text_ok s" using Cons.prems(2) p s(1) utf8_unquote dec_single_text by auto
  then have "template_ok (Some (AList.update (unquote k) s m))"
    using Cons.prems(3) by (auto simp: template_ok_def distinct_update dest!: update_mem)
  then show ?case using Cons.IH [OF s(2)] Cons.prems(2) by simp
qed simp

lemma dec_singles_text: "dec_singles v old = Some m \<Longrightarrow> lits_ok v \<Longrightarrow> template_ok old \<Longrightarrow> template_ok m"
  by (cases v) (auto simp: dec_singles_def template_ok_def dest!: dec_members_text)

lemma measurement_fields_keep:
  "fields_keep (\<lambda>m. utf8_valid (PM_Name m) \<and> utf8_valid (PM_AttestationType m) \<and> template_ok (PM_Measurements m)) measurement_fields"
  by (auto simp: fields_keep_def measurement_fields_def dest: dec_string_text dec_singles_text)

lemma Unmarshal_Inr: "Unmarshal f s old = Inr v \<Longrightarrow> \<exists>j. json_parse s = Some j \<and> lits_ok j \<and> f j old = Some v"
  by (auto simp: Unmarshal_def json_parse_lits split: option.splits)

text \<open>A template that is read from the database, and a measurement that is read from a request.\<close>

lemma decoded_template: "Unmarshal dec_singles s (Some []) = Inr m \<Longrightarrow> template_ok m"
  using dec_singles_text [of _ "Some []" m] by (auto simp: template_ok_def dest!: Unmarshal_Inr)

lemma converted_template: "convertMeasurementToDomain r = Inr m \<Longrightarrow> template_ok (M_Measurement m)"
  by (auto simp: convertMeasurementToDomain_def split: sum.splits dest: decoded_template)

lemma decoded_measurement:
  assumes "Unmarshal (dec_struct measurement_fields) s zero_measurement = Inr m"
  shows "utf8_valid (PM_Name m) \<and> utf8_valid (PM_AttestationType m) \<and> template_ok (PM_Measurements m)"
proof -
  obtain j where "lits_ok j" "dec_struct measurement_fields j zero_measurement = Some m"
    using Unmarshal_Inr [OF assms] by blast
  then show ?thesis
    using dec_struct_keeps [OF measurement_fields_keep, of j zero_measurement m] by (simp add: zero_measurement_def template_ok_def)
qed

section \<open>Measurements as documents\<close>

lemma enc_measurement_depth: "lits_ok (enc_measurement m) \<and> depth (enc_measurement m) \<le> 4"
  using enc_singles_depth [of "PM_Measurements m"] by (auto simp: enc_measurement_def)

text \<open>An allowed measurement is read back by the type that wrote it.\<close>

lemma find_measurement_fields [simp]:
  "find_field measurement_fields ''measurement_id'' = Some (\<lambda>v m. map_option (\<lambda>s. m\<lparr>PM_Name := s\<rparr>) (dec_string v (PM_Name m)))"
  "find_field measurement_fields ''attestation_type'' =
     Some (\<lambda>v m. map_option (\<lambda>s. m\<lparr>PM_AttestationType := s\<rparr>) (dec_string v (PM_AttestationType m)))"
  "find_field measurement_fields ''measurements'' =
     Some (\<lambda>v m. map_option (\<lambda>s. m\<lparr>PM_Measurements := s\<rparr>) (dec_singles v (PM_Measurements m)))"
  by (simp_all add: find_field_def measurement_fields_def)

lemma dec_measurement_enc:
  assumes "utf8_valid (PM_Name m)" "utf8_valid (PM_AttestationType m)" "template_ok (PM_Measurements m)"
  shows "dec_struct measurement_fields (enc_measurement m) zero_measurement =
    Some (m\<lparr>PM_Measurements := in_key_order (PM_Measurements m)\<rparr>)"
  using assms by (cases m) (simp add: enc_measurement_def zero_measurement_def dec_singles_enc)

text \<open>C21: Whatever document of a measurement is accepted, with any escapes, ill-formed bytes, repeated
  or unknown members, the measurement that comes out of it is well-formed (its name, its type and
  all text of its template are UTF-8, no key is repeated), and writing it and reading the text
  again gives the same measurement, its keys in order.\<close>

theorem accepted_measurement_roundtrip:
  assumes "Unmarshal (dec_struct measurement_fields) s zero_measurement = Inr m"
  shows "utf8_valid (PM_Name m) \<and> utf8_valid (PM_AttestationType m) \<and> template_ok (PM_Measurements m) \<and>
    Unmarshal (dec_struct measurement_fields) (json_print (enc_measurement m)) zero_measurement =
      Inr (m\<lparr>PM_Measurements := in_key_order (PM_Measurements m)\<rparr>)"
proof -
  note ok = decoded_measurement [OF assms]
  have "json_wf (enc_measurement m)" using enc_measurement_depth [of m] by (simp add: json_wf_def maxNestingDepth_def)
  then show ?thesis using ok dec_measurement_enc [of m] by (simp add: Unmarshal_def json_parse_print)
qed

definition escaped_measurement :: bytes where
  "escaped_measurement = ''{\"measurement_id\":\"m'' @ [bsl] @ ''n\",\"measurements\":{\"b'' @ [CHR 0xFF] @
     ''\":{\"expected\":\"1\"},\"a\":{\"expected_any\":[\"2\"]}}}''"

theorem accepted_measurement_roundtrip_witness:
  "\<exists>m. Unmarshal (dec_struct measurement_fields) escaped_measurement zero_measurement = Inr m \<and>
     Unmarshal (dec_struct measurement_fields) (json_print (enc_measurement m)) zero_measurement =
       Inr (m\<lparr>PM_Measurements := in_key_order (PM_Measurements m)\<rparr>) \<and> map fst (entries (PM_Measurements m)) = [''b'' @ replacement, ''a'']"
proof -
  let ?P = "\<lambda>r. case r of Inl _ \<Rightarrow> False | Inr m \<Rightarrow> map fst (entries (PM_Measurements m)) = [''b'' @ replacement, ''a'']"
  have ok: "?P (Unmarshal (dec_struct measurement_fields) escaped_measurement zero_measurement)" by code_simp
  obtain r where r: "Unmarshal (dec_struct measurement_fields) escaped_measurement zero_measurement = r" by blast
  from ok obtain m where m: "r = Inr m" "map fst (entries (PM_Measurements m)) = [''b'' @ replacement, ''a'']"
    unfolding r by (cases r) simp_all
  note again = accepted_measurement_roundtrip [OF r [unfolded m(1)], THEN conjunct2, THEN conjunct2, THEN conjunct2]
  show ?thesis by (rule exI [of _ m], rule conjI [OF r [unfolded m(1)]], rule conjI [OF again m(2)])
qed

end
