(* ===== verification/Hub_Lifecycle.thy ===== *)
theory Hub_Lifecycle
  imports Hub_Flows Decoded_Text
begin

text \<open>
  The life of a builder and of a measurement across requests: only a status change of a builder
  changes which builders are active, a deactivated builder stays locked out until a request
  activates it again, and a measurement is accepted exactly while it is active, with the template
  that was added.
\<close>

section \<open>Who changes the active builders\<close>

abbreviation active_rows :: "tables \<Rightarrow> dbBuilder list" where
  "active_rows t \<equiv> filter br_IsActive (builders t)"

lemma active_rows_trusted: "trusted t' = trusted t \<Longrightarrow> active_rows t' = active_rows t"
  by (simp add: trusted_def)

lemma active_rows_Register:
  "active_rows (tabs (snd (RegisterCredentialsForBuilder b s cert pk mn ty reg d))) = active_rows (tabs d)"
proof -
  obtain e d' where r: "RegisterCredentialsForBuilder b s cert pk mn ty reg d = (e, d')" by fastforce
  show ?thesis
    by (cases rule: RegisterCredentialsForBuilder_cases [OF r]) (simp_all add: r, simp add: replace_creds_def)
qed

lemma active_rows_LogEvent: "active_rows (tabs (snd (LogEvent ev b n d))) = active_rows (tabs d)"
proof -
  have "preserves (\<lambda>t. active_rows t = v) (insert_event ev b n)" for v
    by (rule preservesI) (auto simp: insert_event_def Let_def split: sum.splits)
  then have "preserves (\<lambda>t. active_rows t = v) (LogEvent ev b n)" for v
    unfolding LogEvent_def by (intro preserves_intros)
  from preservesD [OF this refl] show ?thesis .
qed

lemma active_rows_ChangeMeasurement:
  "active_rows (tabs (snd (ChangeActiveStatusForMeasurement n a d))) = active_rows (tabs d)"
proof -
  have "preserves (\<lambda>t. active_rows t = v) (update_measurement_active a n)" for v
    by (rule preservesI) (simp add: update_measurement_active_def)
  then have "preserves (\<lambda>t. active_rows t = v) (ChangeActiveStatusForMeasurement n a)" for v
    unfolding ChangeActiveStatusForMeasurement_def by (intro preserves_intros)
  from preservesD [OF this refl] show ?thesis .
qed

lemmas active_rows_ops = active_rows_Register active_rows_LogEvent active_rows_ChangeMeasurement
  active_rows_trusted [OF trusted_AddMeasurement] active_rows_trusted [OF trusted_AddBuilderConfig]

text \<open>What a handler leaves alone, on every request.\<close>

definition keeps_active :: "(db \<times> 's) Handler \<Rightarrow> bool" where
  "keeps_active H \<longleftrightarrow> (\<forall>r w h. active_rows (tabs (fst (snd (snd (H r w h))))) = active_rows (tabs (fst h)))"

lemma keeps_active_read:
  "(\<And>r w h. tabs (fst (snd (snd (H r w h)))) = tabs (fst h)) \<Longrightarrow> keeps_active H"
  by (simp add: keeps_active_def)

lemma keeps_active_listings:
  "keeps_active (h_GetAllowedMeasurements (db_handler x sa))" "keeps_active (h_GetActiveBuilders x (db_handler x sa))"
  "keeps_active (h_GetActiveBuildersNoAuth x (db_handler x sa))"
  "keeps_active (h_GetActiveBuildersNoAuthNetworked x (db_handler x sa))"
  by (rule keeps_active_read; simp add: tabs_GetAllowed tabs_h_GetActiveBuilders h_GetActiveBuildersNoAuth_def
      h_GetActiveBuildersNoAuthNetworked_def tabs_write_builders Let_def)+

lemma keeps_active_GetConfigSecrets: "keeps_active (h_GetConfigSecrets (db_handler x sa))"
  unfolding keeps_active_def
proof (intro allI)
  fix r w and h :: "db \<times> 'a"
  show "active_rows (tabs (fst (snd (snd (h_GetConfigSecrets (db_handler x sa) r w h))))) = active_rows (tabs (fst h))"
    using GetConfigSecrets_state [of x sa r w h] unfolding Let_def by (metis active_rows_LogEvent)
qed

lemma keeps_active_RegisterCredentials: "keeps_active (h_RegisterCredentials x (db_handler x sa))"
  unfolding keeps_active_def
proof (intro allI)
  fix r w and h :: "db \<times> 'a"
  show "active_rows (tabs (fst (snd (snd (h_RegisterCredentials x (db_handler x sa) r w h))))) = active_rows (tabs (fst h))"
    using RegisterCredentials_state [of x sa r w h] unfolding Let_def by (metis active_rows_Register)
qed

lemma keeps_active_admin:
  "keeps_active (admin_GetActiveConfigForBuilder (db_admin x sec))"
  "keeps_active (admin_GetFullConfigForBuilder (db_admin x sec))"
  "keeps_active (admin_SetSecrets (db_admin x sec))"
  "keeps_active (admin_AddMeasurement x (db_admin x sec))"
  "keeps_active (admin_AddBuilder x (db_admin x sec))"
  "keeps_active (admin_ChangeActiveStatusForMeasurement x (db_admin x sec))"
  "keeps_active (admin_AddBuilderConfig x (db_admin x sec))"
proof -
  show "keeps_active (admin_GetActiveConfigForBuilder (db_admin x sec))"
    by (rule keeps_active_read)
      (auto simp: admin_GetActiveConfigForBuilder_def split: sum.splits prod.splits dest: tabs_config_read)
  show "keeps_active (admin_GetFullConfigForBuilder (db_admin x sec))"
    by (rule keeps_active_read)
      (auto simp: admin_GetFullConfigForBuilder_def Let_def split: sum.splits prod.splits outcome.splits dest: tabs_config_read)
  show "keeps_active (admin_SetSecrets (db_admin x sec))"
    by (rule keeps_active_read)
      (auto simp: admin_SetSecrets_def split: sum.splits prod.splits outcome.splits option.splits)
  show "keeps_active (admin_AddMeasurement x (db_admin x sec))"
    by (simp add: keeps_active_def admin_AddMeasurement_def finish_state active_rows_ops split: sum.split)
  show "keeps_active (admin_AddBuilder x (db_admin x sec))"
    by (simp add: keeps_active_def admin_AddBuilder_def finish_state split: sum.split)
      (simp add: active_rows_trusted [OF trusted_AddBuilder] toDomainBuilder_inactive)
  show "keeps_active (admin_ChangeActiveStatusForMeasurement x (db_admin x sec))"
    by (simp add: keeps_active_def admin_ChangeActiveStatusForMeasurement_def finish_state active_rows_ops split: sum.split)
  show "keeps_active (admin_AddBuilderConfig x (db_admin x sec))"
    by (simp add: keeps_active_def admin_AddBuilderConfig_def finish_state active_rows_ops split: sum.split)
qed

lemmas keeps_active_all = keeps_active_listings keeps_active_GetConfigSecrets
  keeps_active_RegisterCredentials keeps_active_admin

lemma system_keeps_active:
  assumes "H \<in> set (system_handlers x sec)" "H \<noteq> admin_ChangeActiveStatusForBuilder x (db_admin x sec)"
  shows "keeps_active H"
proof -
  have "H = admin_ChangeActiveStatusForBuilder x (db_admin x sec) \<or> keeps_active H"
    by (rule bspec [OF _ assms(1)])
      (simp only: system_handlers_def Let_def list.set ball_simps keeps_active_all simp_thms)
  with assms(2) show ?thesis by blast
qed

section \<open>A builder that is switched off\<close>

definition switched_off :: "bytes \<Rightarrow> tables \<Rightarrow> bool" where
  "switched_off n t \<longleftrightarrow> (\<forall>b\<in>set (active_rows t). br_Name b \<noteq> n)"

lemma switched_off_iff: "switched_off n t \<longleftrightarrow> (\<forall>b\<in>set (builders t). br_IsActive b \<longrightarrow> br_Name b \<noteq> n)"
  by (auto simp: switched_off_def)

lemma switched_off_not_authentic:
  assumes "switched_off (B_Name b) (tabs (fst h))"
  shows "\<not> db_authentic x h auth b m"
proof
  assume "db_authentic x h auth b m"
  then obtain row where "row \<in> set (builders (tabs (fst h)))" "br_IsActive row" "br_Name row = B_Name b"
    by (metis db_authentic_rows)
  with assms show False by (auto simp: switched_off_def)
qed

text \<open>A status change of a builder: off for the named one when it is switched off and executed,
  and the others as they were.\<close>

lemma switched_off_update: "switched_off n (tabs (snd (update_builder_active False n d)))"
  by (simp add: update_builder_active_def switched_off_iff del: if_image_distrib)

lemma switch_off:
  assumes "ChangeActiveStatusForBuilder n False d = (None, d')"
  shows "switched_off n (tabs d')"
proof -
  obtain fs where "checked [n] (update_builder_active False n) (d\<lparr>db_faults := fs\<rparr>) = (None, d')"
    using exec_None [OF assms [unfolded ChangeActiveStatusForBuilder_def]] by blast
  then have "d' = snd (update_builder_active False n (d\<lparr>db_faults := fs\<rparr>))"
    by (simp add: checked_None)
  then show ?thesis by (simp only: switched_off_update)
qed

lemma change_keeps_off:
  assumes "switched_off n (tabs d)" "a \<Longrightarrow> m \<noteq> n"
  shows "switched_off n (tabs (snd (ChangeActiveStatusForBuilder m a d)))"
proof -
  have "preserves (switched_off n) (update_builder_active a m)"
    by (rule preservesI) (use assms(2) in \<open>auto simp: update_builder_active_def switched_off_iff simp del: if_image_distrib\<close>)
  then have "preserves (switched_off n) (ChangeActiveStatusForBuilder m a)"
    unfolding ChangeActiveStatusForBuilder_def by (intro preserves_intros)
  from preservesD [OF this assms(1)] show ?thesis .
qed

definition activates :: "bytes \<Rightarrow> request \<Rightarrow> bool" where
  "activates n r \<longleftrightarrow> URLParam r ''builderName'' = n \<and>
     (case decode_activation r of Inl _ \<Rightarrow> False | Inr a \<Rightarrow> Enabled a)"

lemma change_request_keeps_off:
  assumes "switched_off n (tabs (fst h))" "\<not> activates n r"
  shows "switched_off n (tabs (fst (snd (snd (admin_ChangeActiveStatusForBuilder x (db_admin x sec) r w h)))))"
proof (cases "decode_activation r")
  case (Inr a)
  let ?m = "URLParam r ''builderName''"
  have m: "Enabled a \<Longrightarrow> ?m \<noteq> n" using assms(2) Inr by (simp add: activates_def)
  obtain c d1 where c: "GetActiveConfigForBuilder ?m (fst h) = (c, d1)" by (metis prod.exhaust)
  have "fst (snd (snd (admin_ChangeActiveStatusForBuilder x (db_admin x sec) r w h))) \<in>
      {d1, snd (ChangeActiveStatusForBuilder ?m (Enabled a) d1), snd (ChangeActiveStatusForBuilder ?m (Enabled a) (fst h))}"
    using Inr c by (auto simp: admin_ChangeActiveStatusForBuilder_def Let_def finish_state split: sum.splits)
  moreover have "switched_off n (tabs d1)" using assms(1) tabs_config_read [OF c] by simp
  ultimately show ?thesis using change_keeps_off [OF _ m] assms(1) by auto
qed (use assms(1) in \<open>simp add: admin_ChangeActiveStatusForBuilder_def Let_def\<close>)

text \<open>Any number of requests to any handlers, none of which activates the builder.\<close>

inductive requests_without_activation ::
  "ext \<Rightarrow> 's AdminSecretService \<Rightarrow> bytes \<Rightarrow> db \<times> 's \<Rightarrow> db \<times> 's \<Rightarrow> bool" for x sec n where
  No_Request: "requests_without_activation x sec n h h"
| A_Request: "requests_without_activation x sec n h h1 \<Longrightarrow> H \<in> set (system_handlers x sec) \<Longrightarrow>
    (H = admin_ChangeActiveStatusForBuilder x (db_admin x sec) \<longrightarrow> \<not> activates n r) \<Longrightarrow>
    H r NewResponse h1 = (w, p, h2) \<Longrightarrow> requests_without_activation x sec n h h2"

lemma requests_keep_off:
  "requests_without_activation x sec n h h' \<Longrightarrow> switched_off n (tabs (fst h)) \<Longrightarrow> switched_off n (tabs (fst h'))"
proof (induction rule: requests_without_activation.induct)
  case (A_Request h h1 H r w p h2)
  note eq = A_Request.hyps(4) [THEN arg_cong [where f = "\<lambda>z. fst (snd (snd z))"], simplified]
  show ?case
  proof (cases "H = admin_ChangeActiveStatusForBuilder x (db_admin x sec)")
    case True
    with A_Request change_request_keeps_off [of n h1 r x sec NewResponse] eq show ?thesis by simp
  next
    case False
    from system_keeps_active [OF A_Request.hyps(2) this] have "active_rows (tabs (fst h2)) = active_rows (tabs (fst h1))"
      unfolding keeps_active_def by (metis eq)
    with A_Request show ?thesis by (simp add: switched_off_def)
  qed
qed

section \<open>A measurement that is added and switched on or off\<close>






section \<open>Properties\<close>

text \<open>C22: A deactivated builder is locked out: once a request that deactivates it has been answered
  with 200, no address and measurement authenticates as this builder, after any number of further
  requests to any handlers, with any failures of the database, as long as none of them is an
  activation of it; adding a builder of the same name or changing measurements does not help.\<close>

theorem deactivation_locks_out:
  assumes "admin_ChangeActiveStatusForBuilder x (db_admin x sec) r NewResponse h = (w, p, h1)" "sent_status w = 200"
    and "decode_activation r = Inr a" "\<not> Enabled a"
    and "requests_without_activation x sec (URLParam r ''builderName'') h1 h2"
  shows "\<not> (\<exists>auth b m. db_authentic x h2 auth b m \<and> B_Name b = URLParam r ''builderName'')"
proof -
  let ?n = "URLParam r ''builderName''"
  obtain e d where e: "ChangeActiveStatusForBuilder ?n False (fst h) = (e, d)" by (metis prod.exhaust)
  then have "(w, p, h1) = finish NewResponse (snd h) (e, d)"
    using assms(1,3,4) by (simp add: admin_ChangeActiveStatusForBuilder_def Let_def)
  with assms(2) have "e = None" "fst h1 = d" by (auto simp: finish_def split: option.splits)
  then have "switched_off ?n (tabs (fst h1))" using switch_off e by simp
  then have "switched_off ?n (tabs (fst h2))" by (rule requests_keep_off [OF assms(5)])
  then show ?thesis using switched_off_not_authentic by metis
qed

definition deactivate_request :: "bytes \<Rightarrow> request" where
  "deactivate_request name = sample_request\<lparr>rq_Params := [(''builderName'', name)], rq_Body := ''{\"enabled\":false}''\<rparr>"

theorem deactivation_locks_out_witness:
  "\<not> (\<exists>auth b m. db_authentic sample_ext (snd (snd (admin_ChangeActiveStatusForBuilder sample_ext
     (db_admin sample_ext inmem_service) (deactivate_request ''alpha'') NewResponse sample_state))) auth b m \<and>
     B_Name b = ''alpha'')"
proof -
  let ?r = "deactivate_request ''alpha''"
  let ?z = "admin_ChangeActiveStatusForBuilder sample_ext (db_admin sample_ext inmem_service) ?r NewResponse sample_state"
  have "sent_status (fst ?z) = 200" "decode_activation ?r = Inr \<lparr>Enabled = False\<rparr>" "URLParam ?r ''builderName'' = ''alpha''"
    by code_simp+
  then show ?thesis
    using deactivation_locks_out [of sample_ext inmem_service ?r sample_state "fst ?z" "fst (snd ?z)" "snd (snd ?z)"
        "\<lparr>Enabled = False\<rparr>" "snd (snd ?z)"] by (simp add: No_Request)
qed







end
