(* ===== verification/Hub_Responses.thy ===== *)
theory Hub_Responses
  imports Hub_Lifecycle Decoded_Text
begin

text \<open>
  What clients receive: the form of every response, the lists of allowed measurements and of
  builders as documents that are read back, that a registration shows up in the next listing,
  and that no failure of the database hides behind a status 200.
\<close>

section \<open>Documents followed by white space\<close>

lemma lex_ws: "list_all is_ws w \<Longrightarrow> lex w = ([], True)"
  by (subst lex.simps) (simp add: list_all_iff dropWhile_eq_Nil_conv)

text \<open>Documents without numbers, like the ones the handlers write.\<close>

lemma lex_print_ws:
  assumes "list_all tok_ok ts" "\<forall>n. TNum n \<notin> set ts" "list_all is_ws w"
  shows "lex (concat (map tok_text ts) @ w) = (map (Pair []) ts, True)"
  using assms(1,2)
proof (induction ts)
  case Nil
  then show ?case by (simp add: lex_ws assms(3))
next
  case (Cons t ts)
  let ?r = "concat (map tok_text ts) @ w"
  have "lex_token (tok_text t @ ?r) = Some (t, ?r)"
    using Cons.prems by (intro lex_token_text) auto
  then have "lex (tok_text t @ ?r) = (([], t) # fst (lex ?r), snd (lex ?r))"
    using Cons.prems tok_text_no_ws [of t ?r] by (intro lex_step) auto
  with Cons show ?case by simp
qed

lemma str_lit_badRequest [simp]: "str_lit ''message''" "str_lit ''error''"
  by code_simp+

lemma badRequest_valid: "json_Valid (json_print (enc_badRequest p) @ [CHR 0x0A])"
proof -
  let ?v = "enc_badRequest p"
  have wf: "json_wf ?v" by (simp add: json_wf_def enc_badRequest_def maxNestingDepth_def)
  have toks: "list_all tok_ok (toks_of ?v)" "\<forall>n. TNum n \<notin> set (toks_of ?v)"
    by (simp_all add: enc_badRequest_def enc_string_def)
  have "lex (json_print ?v @ [CHR 0x0A]) = (map (Pair []) (toks_of ?v), True)"
    unfolding json_print_def by (rule lex_print_ws [OF toks]) (simp add: is_ws_def)
  moreover have "parse_toks (toks_of ?v) (PValue []) = Some (?v, [])"
    using reads_all [of ?v, unfolded reads_def, rule_format, of "[]" "[]"] wf
    by (simp add: json_wf_def)
  ultimately show ?thesis by (simp add: json_Valid_def json_parse_def comp_def)
qed

section \<open>The form of the responses\<close>

definition reply_ok :: "response \<Rightarrow> bool" where
  "reply_ok w \<longleftrightarrow> sent_status w \<in> {200, 400, 403, 404, 500} \<and> (sent_status w \<in> {403, 404, 500} \<longrightarrow> rs_Body w = []) \<and>
     (sent_status w = 400 \<longrightarrow> json_Valid (rs_Body w))"

lemma BadRequest_body: "rs_Body (BadRequest x NewResponse m es) = json_print (enc_badRequest
    \<lparr>BR_Message = m, BR_Error = (case es of [] \<Rightarrow> [] | e # _ \<Rightarrow> error_Error x e)\<rparr>) @ [CHR 0x0A]"
  by (simp add: BadRequest_def Encode_def Let_def split: list.split)

lemma reply_ok_simps [simp]:
  "reply_ok NewResponse" "c \<in> {200, 403, 404, 500} \<Longrightarrow> reply_ok (WriteHeader c NewResponse)"
  "reply_ok (Write b NewResponse)" "reply_ok (BadRequest x NewResponse m es)"
  by (auto simp: reply_ok_def BadRequest_body badRequest_valid)

definition replies_ok :: "'st Handler \<Rightarrow> bool" where
  "replies_ok H \<longleftrightarrow> (\<forall>r h w p h'. H r NewResponse h = (w, p, h') \<longrightarrow> reply_ok w \<and> (p \<noteq> None \<longrightarrow> w = NewResponse))"

lemma replies_ok_finish: "finish NewResponse s e = (w, p, h') \<Longrightarrow> reply_ok w \<and> p = None"
  by (auto simp: finish_def split: prod.splits option.splits)

lemma replies_ok_hub:
  "replies_ok (h_GetAllowedMeasurements bhs)" "replies_ok (h_GetActiveBuilders x bhs)"
  "replies_ok (h_GetActiveBuildersNoAuth x bhs)" "replies_ok (h_GetActiveBuildersNoAuthNetworked x bhs)"
  "replies_ok (h_GetConfigSecrets bhs)" "replies_ok (h_RegisterCredentials x bhs)"
  unfolding replies_ok_def
  by (auto simp: h_GetAllowedMeasurements_def h_GetActiveBuilders_def h_GetActiveBuildersNoAuth_def
      h_GetActiveBuildersNoAuthNetworked_def h_GetConfigSecrets_def h_RegisterCredentials_def write_builders_def
      register_body_def Let_def split: sum.splits prod.splits option.splits outcome.splits if_splits)

lemma replies_ok_admin:
  "replies_ok (admin_GetActiveConfigForBuilder a)" "replies_ok (admin_GetFullConfigForBuilder a)"
  "replies_ok (admin_AddMeasurement x a)" "replies_ok (admin_AddBuilder x a)"
  "replies_ok (admin_ChangeActiveStatusForBuilder x a)" "replies_ok (admin_ChangeActiveStatusForMeasurement x a)"
  "replies_ok (admin_AddBuilderConfig x a)" "replies_ok (admin_SetSecrets a)"
  unfolding replies_ok_def
  by (auto simp: admin_GetActiveConfigForBuilder_def admin_GetFullConfigForBuilder_def admin_AddMeasurement_def
      admin_AddBuilder_def admin_ChangeActiveStatusForBuilder_def admin_ChangeActiveStatusForMeasurement_def
      admin_AddBuilderConfig_def admin_SetSecrets_def Let_def dest!: replies_ok_finish
      split: sum.splits prod.splits option.splits outcome.splits if_splits)

lemma system_replies_ok: "H \<in> set (system_handlers x sec) \<Longrightarrow> replies_ok H"
  by (auto simp: system_handlers_def Let_def replies_ok_hub replies_ok_admin)

section \<open>Documents of the listings\<close>

lemma json_wf_list:
  assumes "\<forall>v\<in>set vs. lits_ok v \<and> depth v \<le> n" "Suc n \<le> maxNestingDepth"
  shows "json_wf (JArr vs)"
proof -
  have "fold max (map depth vs) 0 \<le> n" using assms(1) by (auto simp: fold_max_le)
  with assms show ?thesis by (auto simp: json_wf_def)
qed

lemma enc_builder_depth: "lits_ok (enc_builder x k b) \<and> depth (enc_builder x k b) \<le> 2"
proof -
  have v: "\<forall>(n, v)\<in>set (members x k b). lits_ok v \<and> depth v \<le> 1"
    using creds_map_values [of x k b] by (simp add: members_def)
  then have "fold max (map (\<lambda>(k, v). depth v) (map (\<lambda>(n, v). (quote_body n, v)) (members x k b))) 0 \<le> 1"
    by (auto simp: fold_max_le)
  with v show ?thesis by (auto simp: enc_builder_members)
qed

lemma listings_valid:
  "json_parse (json_print (JArr (map (enc_builder x k) bs))) = Some (JArr (map (enc_builder x k) bs))"
  "json_parse (json_print (JArr (map enc_measurement ms))) = Some (JArr (map enc_measurement ms))"
proof -
  show "json_parse (json_print (JArr (map (enc_builder x k) bs))) = Some (JArr (map (enc_builder x k) bs))"
    by (rule json_parse_print [OF json_wf_list [of _ 2]]) (use enc_builder_depth in \<open>auto simp: maxNestingDepth_def\<close>)
  show "json_parse (json_print (JArr (map enc_measurement ms))) = Some (JArr (map enc_measurement ms))"
    by (rule json_parse_print [OF json_wf_list [of _ 4]]) (use enc_measurement_depth in \<open>auto simp: maxNestingDepth_def\<close>)
qed

section \<open>A status 200 and the round trips to the database\<close>

text \<open>The server has answered every round trip between two states.\<close>

definition answered :: "db \<Rightarrow> db \<Rightarrow> bool" where
  "answered d d' \<longleftrightarrow> (\<exists>fs. db_faults d = fs @ db_faults d' \<and> set fs \<subseteq> {NoFault})"

lemma answered_same: "db_faults d' = db_faults d \<Longrightarrow> answered d d'"
  by (simp add: answered_def)

lemma answered_trans: "answered d d1 \<Longrightarrow> answered d1 d2 \<Longrightarrow> answered d d2"
  by (auto simp: answered_def)

lemma answered_next: "next_fault d = (NoFault, d') \<Longrightarrow> answered d d'"
  by (auto simp: answered_def next_fault_def split: list.splits)

lemma answered_query: "query ps f d = (Inr v, d') \<Longrightarrow> answered d d'"
  by (auto simp: query_def split: prod.splits fault.splits if_splits intro: answered_next)

text \<open>A statement leaves the failures to come alone.\<close>

definition silent :: "stmt \<Rightarrow> bool" where
  "silent s \<longleftrightarrow> (\<forall>d e d'. s d = (e, d') \<longrightarrow> db_faults d' = db_faults d)"

lemma answered_exec: "silent s \<Longrightarrow> exec s d = (None, d') \<Longrightarrow> answered d d'"
  unfolding exec_def silent_def
  by (auto split: prod.splits fault.splits intro: answered_trans [OF answered_next answered_same])

lemma answered_transaction2:
  assumes "silent s1" "silent s2" "transaction2 s1 s2 w1 w2 wc d = (None, d')"
  shows "answered d d'"
proof -
  obtain d0 d1 d2 where "begin_tx d = (None, d0)" "exec s1 d0 = (None, d1)" "exec s2 d1 = (None, d2)" "commit d0 d2 = (None, d')"
    using assms(3) by (auto simp: transaction2_def wrap_err_None split: prod.splits option.splits)
  then have "answered d d0" "answered d0 d1" "answered d1 d2" "answered d2 d'"
    using answered_exec assms(1,2)
    by (auto simp: begin_tx_def commit_def split: prod.splits fault.splits intro: answered_next)
  then show ?thesis by (blast intro: answered_trans)
qed

lemma silent_checked [intro]: "silent s \<Longrightarrow> silent (checked ps s)"
  by (auto simp: silent_def checked_def)

lemma upd_tabs_faults [simp]: "db_faults (upd_tabs f d) = db_faults d"
  by (simp add: upd_tabs_def)

lemma silent_statements [intro]:
  "silent (insert_measurement x n ty bts en)" "silent (insert_builder n ip ac nw dns)"
  "silent (update_builder_active ac n)" "silent (update_measurement_active ac n)"
  "silent (deprecate_credentials n s)" "silent (insert_credentials n s c pk mn ty reg)"
  "silent (deactivate_configs n)" "silent (insert_config x n cfg)" "silent (insert_event ev n m)"
  by (auto simp: silent_def insert_measurement_def insert_builder_def update_builder_active_def
      update_measurement_active_def deprecate_credentials_def insert_credentials_def deactivate_configs_def
      insert_config_def insert_event_def Let_def split: option.splits sum.splits if_splits)

lemma first_row_Inr: "first_row r = (Inr y, d) \<Longrightarrow> \<exists>ys. r = (Inr ys, d)"
  by (auto simp: first_row_def split: prod.splits sum.splits list.splits)

lemma answered_reads:
  "GetActiveMeasurements d = (Inr ms, d') \<Longrightarrow> answered d d'"
  "GetActiveMeasurementsByType ty d = (Inr ms, d') \<Longrightarrow> answered d d'"
  "GetBuilderByIP x ip d = (Inr b, d') \<Longrightarrow> answered d d'"
  "GetActiveConfigForBuilder n d = (Inr c, d') \<Longrightarrow> answered d d'"
  "GetActiveBuildersWithServiceCredentials x nw d = (Inr bs, d') \<Longrightarrow> answered d d'"
  unfolding GetActiveMeasurements_def GetActiveMeasurementsByType_def GetBuilderByIP_def GetActiveConfigForBuilder_def
    GetActiveBuildersWithServiceCredentials_def
  by (auto split: prod.splits sum.splits dest: answered_query first_row_Inr)

lemma answered_writes:
  "RegisterCredentialsForBuilder n s c pk mn ty reg d = (None, d') \<Longrightarrow> answered d d'"
  "LogEvent ev n m d = (None, d') \<Longrightarrow> answered d d'"
  "AddMeasurement x dm en d = (None, d') \<Longrightarrow> answered d d'"
  "AddBuilder x b d = (None, d') \<Longrightarrow> answered d d'"
  "ChangeActiveStatusForBuilder n a d = (None, d') \<Longrightarrow> answered d d'"
  "ChangeActiveStatusForMeasurement n a d = (None, d') \<Longrightarrow> answered d d'"
  "AddBuilderConfig x n cfg d = (None, d') \<Longrightarrow> answered d d'"
  unfolding RegisterCredentialsForBuilder_def LogEvent_def AddMeasurement_def AddBuilder_def
    ChangeActiveStatusForBuilder_def ChangeActiveStatusForMeasurement_def AddBuilderConfig_def
  by (auto simp: wrap_err_None split: sum.splits elim!: answered_exec [rotated] answered_transaction2 [rotated 2])

text \<open>A client of operations that report their failures: each one that succeeds was answered, in a
  sense that composes. A handler that answers 200 was then answered on its whole way.\<close>

definition honest :: "('h \<Rightarrow> 'h \<Rightarrow> bool) \<Rightarrow> 'h Handler \<Rightarrow> bool" where
  "honest R H \<longleftrightarrow> (\<forall>r h w h'. H r NewResponse h = (w, None, h') \<longrightarrow> sent_status w = 200 \<longrightarrow> R h h')"

locale composing =
  fixes R :: "'h \<Rightarrow> 'h \<Rightarrow> bool"
  assumes same: "R h h" and trans: "R h h1 \<Longrightarrow> R h1 h2 \<Longrightarrow> R h h2"

locale reporting_service = composing R for R :: "'h \<Rightarrow> 'h \<Rightarrow> bool" +
  fixes svc :: "'h BuilderHubService"
  assumes measurements: "bh_GetAllowedMeasurements svc h = (Inr ms, h') \<Longrightarrow> R h h'"
    and builders: "bh_GetActiveBuilders svc nw h = (Inr bs, h') \<Longrightarrow> R h h'"
    and verified: "bh_VerifyIPAndMeasurements svc k ip m ty h = (Inr v, h') \<Longrightarrow> R h h'"
    and config: "bh_GetConfigWithSecrets svc n h = (Ret (Inr bts), h') \<Longrightarrow> R h h'"
    and registered: "bh_RegisterCredentialsForBuilder svc n s c pk mn ty reg h = (None, h') \<Longrightarrow> R h h'"
    and logged: "bh_LogEvent svc ev n mn h = (None, h') \<Longrightarrow> R h h'"
begin

lemma write_builders_honest:
  assumes [simp]: "builderHubService bhs = svc"
  shows "write_builders x bhs nw r NewResponse h = (w, p, h') \<Longrightarrow> sent_status w = 200 \<Longrightarrow> R h h'"
  by (auto simp: write_builders_def Let_def split: prod.splits sum.splits dest: builders)

lemma register_body_honest:
  assumes [simp]: "builderHubService bhs = svc"
  shows "register_body x bhs auth b n r NewResponse h = (w, p, h') \<Longrightarrow> sent_status w = 200 \<Longrightarrow> R h h'"
  by (auto simp: register_body_def Let_def split: prod.splits sum.splits option.splits if_splits dest: registered)

lemma handlers_honest:
  assumes [simp]: "builderHubService bhs = svc"
  shows "honest R (h_GetAllowedMeasurements bhs)" "honest R (h_GetActiveBuilders x bhs)"
    "honest R (h_GetActiveBuildersNoAuth x bhs)" "honest R (h_GetActiveBuildersNoAuthNetworked x bhs)"
    "honest R (h_GetConfigSecrets bhs)" "honest R (h_RegisterCredentials x bhs)"
  by (auto simp: honest_def h_GetAllowedMeasurements_def h_GetActiveBuilders_def h_GetActiveBuildersNoAuth_def
      h_GetActiveBuildersNoAuthNetworked_def h_GetConfigSecrets_def h_RegisterCredentials_def Let_def
      split: sum.splits prod.splits outcome.splits option.splits if_splits
      dest!: measurements verified config logged write_builders_honest [OF assms] register_body_honest [OF assms] intro: same trans)

end

locale reporting_admin = composing R for R :: "'d \<Rightarrow> 'd \<Rightarrow> bool" +
  fixes ab :: "'d AdminBuilderService"
  assumes config: "ab_GetActiveConfigForBuilder ab n d = (Inr c, d') \<Longrightarrow> R d d'"
    and measurement_added: "ab_AddMeasurement ab m en d = (None, d') \<Longrightarrow> R d d'"
    and builder_added: "ab_AddBuilder ab b d = (None, d') \<Longrightarrow> R d d'"
    and builder_changed: "ab_ChangeActiveStatusForBuilder ab n en d = (None, d') \<Longrightarrow> R d d'"
    and measurement_changed: "ab_ChangeActiveStatusForMeasurement ab n en d = (None, d') \<Longrightarrow> R d d'"
    and config_added: "ab_AddBuilderConfig ab n cfg d = (None, d') \<Longrightarrow> R d d'"
begin

lemma finish_honest:
  "finish NewResponse s z = (w, p, h') \<Longrightarrow> sent_status w = 200 \<Longrightarrow> z = (None, fst h')"
  by (auto simp: finish_def split: prod.splits option.splits)

lemma handlers_honest:
  assumes [simp]: "builderService a = ab"
  shows "honest (\<lambda>h h'. R (fst h) (fst h')) (admin_GetActiveConfigForBuilder a)"
    "honest (\<lambda>h h'. R (fst h) (fst h')) (admin_GetFullConfigForBuilder a)"
    "honest (\<lambda>h h'. R (fst h) (fst h')) (admin_AddMeasurement x a)"
    "honest (\<lambda>h h'. R (fst h) (fst h')) (admin_AddBuilder x a)"
    "honest (\<lambda>h h'. R (fst h) (fst h')) (admin_ChangeActiveStatusForBuilder x a)"
    "honest (\<lambda>h h'. R (fst h) (fst h')) (admin_ChangeActiveStatusForMeasurement x a)"
    "honest (\<lambda>h h'. R (fst h) (fst h')) (admin_AddBuilderConfig x a)"
    "honest (\<lambda>h h'. R (fst h) (fst h')) (admin_SetSecrets a)"
  by (auto simp: honest_def admin_GetActiveConfigForBuilder_def admin_GetFullConfigForBuilder_def admin_AddMeasurement_def
      admin_AddBuilder_def admin_ChangeActiveStatusForBuilder_def admin_ChangeActiveStatusForMeasurement_def
      admin_AddBuilderConfig_def admin_SetSecrets_def Let_def
      split: sum.splits prod.splits outcome.splits option.splits if_splits dest!: finish_honest
      dest!: config measurement_added builder_added builder_changed measurement_changed config_added intro: same trans)

end

text \<open>The hub and the admin service on the database.\<close>

lemma database_accessor_simps [simp]:
  "da_GetActiveMeasurements (database_accessor x) = GetActiveMeasurements"
  "da_GetActiveBuildersWithServiceCredentials (database_accessor x) = GetActiveBuildersWithServiceCredentials x"
  "da_GetActiveMeasurementsByType (database_accessor x) = GetActiveMeasurementsByType"
  "da_GetBuilderByIP (database_accessor x) = GetBuilderByIP x"
  "da_GetActiveConfigForBuilder (database_accessor x) = GetActiveConfigForBuilder"
  "da_RegisterCredentialsForBuilder (database_accessor x) = RegisterCredentialsForBuilder"
  "da_LogEvent (database_accessor x) = LogEvent"
  by (simp_all add: database_accessor_def)

lemma answered_Verify:
  "VerifyIPAndMeasurements (NewBuilderHub (database_accessor x) sa) k ip m ty d = (Inr v, d') \<Longrightarrow> answered d d'"
  by (auto simp: VerifyIPAndMeasurements_def
      split: prod.splits sum.splits dest!: answered_reads intro: answered_trans)

lemma answered_GetConfigWithSecrets:
  "GetConfigWithSecrets (NewBuilderHub (database_accessor x) sa) n h = (Ret (Inr v), h') \<Longrightarrow> answered (fst h) (fst h')"
  by (auto simp: GetConfigWithSecrets_def
      split: prod.splits sum.splits outcome.splits dest!: answered_reads)

interpretation db_reports: reporting_service "\<lambda>h h'. answered (fst h) (fst h')"
  "hub_service (NewBuilderHub (database_accessor x) sa)" for x sa
  by unfold_locales
    (auto simp: on_data_eq GetAllowedMeasurements_def GetActiveBuilders_def hub_RegisterCredentialsForBuilder_def
      hub_LogEvent_def answered_same
      dest: answered_reads answered_writes answered_Verify answered_GetConfigWithSecrets intro: answered_trans)

interpretation admin_reports: reporting_admin answered "database_admin x" for x
  by unfold_locales
    (auto simp: database_admin_def answered_same dest: answered_reads answered_writes intro: answered_trans)

lemma system_handlers_honest:
  assumes "H \<in> set (system_handlers x sec)"
  shows "honest (\<lambda>h h'. answered (fst h) (fst h')) H"
  using assms by (auto simp: system_handlers_def Let_def db_reports.handlers_honest admin_reports.handlers_honest)

section \<open>Credentials in a listing\<close>

text \<open>Of the values with one key the last one stays; here they are all the same.\<close>

lemma map_of_fold_update_one:
  assumes "\<forall>v\<in>set l. key v = k \<longrightarrow> f v = c" "\<exists>v\<in>set l. key v = k"
  shows "map_of (fold (\<lambda>v m. AList.update (key v) (f v) m) l m) k = Some c"
  using assms
proof (induction l rule: rev_induct)
  case (snoc v l)
  then show ?case by (cases "\<exists>v\<in>set l. key v = k") (auto simp: update_conv')
qed simp

lemma service_listed:
  assumes ok: "tables_ok t" and shown: "shows_builder x t b w"
    and c: "c \<in> set (active_creds t)" "sr_BuilderName c = br_Name b"
  shows "map_of (BC_ServiceCreds (fromDomainBuilderWithServices w)) (sr_Service c) = Some (service_cred (service_of x c))"
proof -
  let ?own = "filter (\<lambda>c. sr_BuilderName c = br_Name b) (active_creds t)"
  have "mset (BWS_Services w) = mset (map (service_of x) ?own)" using shown by (simp add: shows_builder_def)
  then have own: "set (BWS_Services w) = service_of x ` set ?own" by (metis list.set_map mset_eq_setD)
  have one: "c' = c" if "c' \<in> set ?own" "sr_Service c' = sr_Service c" for c'
  proof -
    have "inj_on cred_key (set (active_creds t))" using tables_okD(8) [OF ok] by (simp add: distinct_map)
    moreover have "cred_key c' = cred_key c" using that c(2) by (simp add: cred_key_def)
    ultimately show ?thesis using that(1) c(1) by (auto dest: inj_onD)
  qed
  show ?thesis
    unfolding fromDomainBuilderWithServices_def BuilderWithServiceCreds.simps
    by (rule map_of_fold_update_one) (use own one c in \<open>auto simp: service_of_def\<close>)
qed

text \<open>A served listing of one network.\<close>

lemma networked_served:
  assumes "h_GetActiveBuildersNoAuthNetworked x (db_handler x sa) r NewResponse h = (w, p, h')" "sent_status w = 200"
  obtains ws where "GetActiveBuildersWithServiceCredentials x (URLParam r ''network'') (fst h) = (Inr ws, fst h')"
    "rs_Body w = json_print (JArr (map (enc_builder x (rq_Seed r)) (map fromDomainBuilderWithServices ws)))"
  using assms
  by (auto simp: h_GetActiveBuildersNoAuthNetworked_def write_builders_def Let_def on_data_eq GetActiveBuilders_def
      simp del: map_map split: if_splits prod.splits sum.splits)

text \<open>An active builder with an active credential, in a listing of any network.\<close>

lemma builder_listed:
  assumes ok: "tables_ok (tabs d)" and ws: "GetActiveBuildersWithServiceCredentials x nw d = (Inr ws, d')"
    and row: "row \<in> set (builders (tabs d))" "br_IsActive row"
    and c: "c \<in> set (active_creds (tabs d))" "sr_BuilderName c = br_Name row"
  defines "bs \<equiv> map fromDomainBuilderWithServices ws"
  shows "distinct (map BC_Name bs) \<and> (br_Name row \<in> set (map BC_Name bs) \<longleftrightarrow> br_Network row = nw) \<and>
    (\<forall>b\<in>set bs. BC_Name b = br_Name row \<longrightarrow> map_of (BC_ServiceCreds b) (sr_Service c) = Some (service_cred (service_of x c)))"
proof (intro conjI ballI impI)
  let ?rows = "filter (\<lambda>b. br_IsActive b \<and> br_Network b = nw) (builders (tabs d))"
  note list = GetActiveBuilders_ok [OF ok ws]
  have names: "map BC_Name bs = map (\<lambda>w. B_Name (BWS_Builder w)) ws" by (simp add: bs_def fromDomainBuilderWithServices_def)
  have d: "distinct (map br_Name (builders (tabs d)))" by (rule tables_okD(5) [OF ok])
  show "distinct (map BC_Name bs)"
    unfolding names using mset_eq_imp_distinct_iff [OF conjunct1 [OF list]] distinct_map_filter [OF d] by blast
  have "set (map BC_Name bs) = br_Name ` set ?rows" unfolding names using mset_eq_setD [OF conjunct1 [OF list]] by (simp only: set_map)
  then show "br_Name row \<in> set (map BC_Name bs) \<longleftrightarrow> br_Network row = nw"
    using row d by (auto simp: distinct_map dest: inj_onD)
  fix b assume b: "b \<in> set bs" "BC_Name b = br_Name row"
  then obtain v b' where v: "v \<in> set ws" "b = fromDomainBuilderWithServices v" "shows_builder x (tabs d) b' v"
    using list by (auto simp: bs_def)
  have "br_Name b' = br_Name row" using v b(2) by (simp add: shows_builder_def fromDomainBuilderWithServices_def)
  with service_listed [OF ok v(3) c(1)] c(2) v(2)
  show "map_of (BC_ServiceCreds b) (sr_Service c) = Some (service_cred (service_of x c))" by simp
qed

section \<open>Allowed measurements in a listing\<close>

text \<open>The names and attestation types of the rows are text that the database accepts.\<close>

definition text_rows :: "tables \<Rightarrow> bool" where
  "text_rows t \<longleftrightarrow> (\<forall>m\<in>set (measurements_whitelist t). pg_text (mr_Name m) \<and> pg_text (mr_AttestationType m))"

lemma text_rows_statements:
  "preserves text_rows (insert_event ev b n)" "preserves text_rows (insert_builder n ip a nw dns)"
  "preserves text_rows (update_builder_active a n)" "preserves text_rows (update_measurement_active a n)"
  "pg_text n \<Longrightarrow> pg_text ty \<Longrightarrow> preserves text_rows (insert_measurement x n ty bts en)"
  by (auto simp: preserves_def text_rows_def insert_event_def insert_builder_def update_builder_active_def
      update_measurement_active_def insert_measurement_def upd_tabs_def Let_def simp del: if_image_distrib
      split: option.splits sum.splits)

lemma text_rows_AddBuilder: "preserves text_rows (AddBuilder x b)"
proof (cases "inet_value x (B_IPAddress b)")
  case (Inr ip)
  then have "AddBuilder x b = exec (checked [B_Name b, B_Network b, B_DNSName b] (insert_builder (B_Name b) ip (B_IsActive b)
      (B_Network b) (if B_DNSName b \<noteq> [] then Some (B_DNSName b) else None)))"
    by (simp add: AddBuilder_def fun_eq_iff)
  then show ?thesis by (simp only:) (intro preserves_intros text_rows_statements)
qed (simp add: preserves_def AddBuilder_def)

lemma text_rows_transactions:
  "preserves text_rows (RegisterCredentialsForBuilder b s cert pk mn ty reg)" "preserves text_rows (AddBuilderConfig x b cfg)"
proof -
  have "measurements_whitelist (tabs (snd (RegisterCredentialsForBuilder b s cert pk mn ty reg d))) = measurements_whitelist (tabs d)"
    for d
  proof -
    obtain e d' where r: "RegisterCredentialsForBuilder b s cert pk mn ty reg d = (e, d')" by fastforce
    show ?thesis by (cases rule: RegisterCredentialsForBuilder_cases [OF r]) (simp_all add: r, simp add: replace_creds_def)
  qed
  then show "preserves text_rows (RegisterCredentialsForBuilder b s cert pk mn ty reg)"
    by (simp add: preserves_def text_rows_def)
  have "measurements_whitelist (tabs (snd (AddBuilderConfig x b cfg d))) = measurements_whitelist (tabs d)" for d
  proof -
    obtain e d' where r: "AddBuilderConfig x b cfg d = (e, d')" by fastforce
    show ?thesis by (cases rule: AddBuilderConfig_cases [OF r]) (simp_all add: r, simp add: replace_config_def)
  qed
  then show "preserves text_rows (AddBuilderConfig x b cfg)" by (simp add: preserves_def text_rows_def)
qed

lemma text_rows_ops:
  "preserves text_rows (LogEvent ev b n)" "preserves text_rows (AddMeasurement x m en)"
  "preserves text_rows (ChangeActiveStatusForBuilder n a)" "preserves text_rows (ChangeActiveStatusForMeasurement n a)"
  unfolding LogEvent_def AddMeasurement_def ChangeActiveStatusForBuilder_def ChangeActiveStatusForMeasurement_def
  by (intro preserves_intros text_rows_statements; simp)+

lemma step_text: "db_step x d d' \<Longrightarrow> text_rows (tabs d) \<Longrightarrow> text_rows (tabs d')"
  by (erule db_stepE) (simp_all add: text_rows_ops [THEN preservesD] text_rows_transactions [THEN preservesD]
      text_rows_AddBuilder [THEN preservesD])

lemma text_rows_empty: "text_rows empty_tables"
  by (simp add: text_rows_def empty_tables_def)

lemma reachable_text: "db_reachable x d \<Longrightarrow> text_rows (tabs d)"
  by (induction rule: db_reachable.induct) (simp_all add: text_rows_empty step_text)

text \<open>What \<open>convert_all\<close> returns is the converted rows, all of them.\<close>

lemma convert_all_map: "convert_all rows = Inr ms \<Longrightarrow> map convertMeasurementToDomain rows = map Inr ms"
  by (induction rows arbitrary: ms) (auto split: sum.splits)

lemma GetActiveMeasurements_rows:
  assumes "GetActiveMeasurements d = (Inr ms, d')"
  shows "mset (map Inr ms) = mset (map convertMeasurementToDomain (filter mr_IsActive (measurements_whitelist (tabs d))))"
proof (cases rule: query_cases [of "[]" "select_measurements mr_IsActive" d])
  case (rows fs)
  with assms have "convert_all (permute (db_seed d) (filter mr_IsActive (measurements_whitelist (tabs d)))) = Inr ms"
    by (simp add: GetActiveMeasurements_def select_measurements_def)
  from arg_cong [OF convert_all_map [OF this], of mset] show ?thesis by simp
qed (use assms in \<open>auto simp: GetActiveMeasurements_def\<close>)

text \<open>The document of an allowed measurement as its reader sees it.\<close>

definition read_measurement :: "json \<Rightarrow> pMeasurement option" where
  "read_measurement v = dec_struct measurement_fields v zero_measurement"

lemma read_listed:
  assumes "text_rows t" "r \<in> set (measurements_whitelist t)" "convertMeasurementToDomain r = Inr m"
  shows "read_measurement (enc_measurement (fromDomainMeasurement m)) = Some \<lparr>PM_Name = mr_Name r,
    PM_AttestationType = mr_AttestationType r, PM_Measurements = in_key_order (M_Measurement m)\<rparr>"
proof -
  have n: "M_Name m = mr_Name r" "M_AttestationType m = mr_AttestationType r"
    using assms(3) by (auto simp: convertMeasurementToDomain_def split: sum.splits)
  have "utf8_valid (mr_Name r)" "utf8_valid (mr_AttestationType r)" using assms(1,2) by (auto simp: text_rows_def pg_text_def)
  then show ?thesis
    using dec_measurement_enc [of "fromDomainMeasurement m"] converted_template [OF assms(3)] n
    by (simp add: read_measurement_def fromDomainMeasurement_def)
qed

section \<open>Properties\<close>

text \<open>C19: Every response has one of five forms, whatever the request, the state and the failures
  of the database or the secret store: status 200, 400, 403, 404 or 500; the last three without a
  body, 400 with a body that is a JSON document. A handler that panics has not written anything.\<close>

theorem responses_typed:
  assumes "H \<in> set (system_handlers x sec)" "H r NewResponse h = (w, p, h')"
  shows "reply_ok w \<and> (p \<noteq> None \<longrightarrow> w = NewResponse)"
  using system_replies_ok [OF assms(1)] assms(2) unfolding replies_ok_def by blast

lemma truncate_inmem: "SecretAccessor.truncate inmem_service = inmem_accessor"
  by (simp add: inmem_service_def inmem_accessor_def SecretAccessor.truncate_def)

theorem responses_typed_witness:
  "reply_ok (fst (h_GetConfigSecrets (db_handler sample_ext inmem_accessor)
     (sample_request\<lparr>rq_Header := [(AttestationTypeHeader, [[CHR 0x00]]), (MeasurementHeader, [''{}'']),
        (ForwardedHeader, [''10.0.0.7''])]\<rparr>) NewResponse sample_state))"
proof -
  let ?r = "sample_request\<lparr>rq_Header := [(AttestationTypeHeader, [[CHR 0x00]]), (MeasurementHeader, [''{}'']),
    (ForwardedHeader, [''10.0.0.7''])]\<rparr>"
  let ?H = "h_GetConfigSecrets (db_handler sample_ext inmem_accessor)"
  have "?H \<in> set (system_handlers sample_ext inmem_service)" by (simp add: system_handlers_def Let_def truncate_inmem)
  from responses_typed [OF this, of ?r sample_state "fst (?H ?r NewResponse sample_state)"] show ?thesis
    by (metis prod.collapse)
qed

text \<open>C18: A status 200 hides no failure of the database: when a handler answers with it, the
  server has answered every round trip that the handler made, including the commit of a
  transaction; a query or a statement that failed, or whose reply was lost, is never answered
  with 200.\<close>

theorem success_means_answered:
  assumes "H \<in> set (system_handlers x sec)" "H r NewResponse h = (w, None, h')" "sent_status w = 200"
  shows "\<exists>n. db_faults (fst h') = drop n (db_faults (fst h)) \<and>
    (\<forall>f\<in>set (take n (db_faults (fst h))). f = NoFault)"
proof -
  obtain fs where fs: "db_faults (fst h) = fs @ db_faults (fst h')" "set fs \<subseteq> {NoFault}"
    using system_handlers_honest [OF assms(1)] assms(2,3) unfolding honest_def answered_def by blast
  then have "db_faults (fst h') = drop (length fs) (db_faults (fst h)) \<and>
      (\<forall>f\<in>set (take (length fs) (db_faults (fst h))). f = NoFault)"
    by (auto simp: fs(1))
  then show ?thesis by blast
qed

theorem success_means_answered_witness:
  "\<exists>n. db_faults (fst (snd (snd (h_GetAllowedMeasurements (db_handler sample_ext inmem_accessor) sample_request NewResponse
       (sample_db\<lparr>db_faults := [NoFault, FailAfter]\<rparr>, snd sample_state))))) = drop n [NoFault, FailAfter] \<and>
     set (take n [NoFault, FailAfter]) \<subseteq> {NoFault}"
proof -
  let ?h = "(sample_db\<lparr>db_faults := [NoFault, FailAfter]\<rparr>, snd sample_state)"
  let ?z = "h_GetAllowedMeasurements (db_handler sample_ext inmem_accessor) sample_request NewResponse ?h"
  have ok: "sent_status (fst ?z) = 200" "fst (snd ?z) = None" by code_simp+
  then have z: "?z = (fst ?z, None, snd (snd ?z))" by (intro reply_collapse) simp_all
  have H: "h_GetAllowedMeasurements (db_handler sample_ext inmem_accessor) \<in> set (system_handlers sample_ext inmem_service)"
    by (simp add: system_handlers_def Let_def truncate_inmem)
  have f: "db_faults (fst ?h) = [NoFault, FailAfter]" by simp
  from success_means_answered [OF H z ok(1)] show ?thesis unfolding f by blast
qed

text \<open>C20: The list of allowed measurements is exactly the active measurements of the database: in
  every reachable state, a request for it that is answered with 200 gets a JSON array whose
  elements, each read by the type that wrote it, are the active rows, each once, with the name
  and attestation type of the row and its template, keys in order.\<close>

theorem measurements_listed:
  assumes "db_reachable x (fst h)" "h_GetAllowedMeasurements (db_handler x sa) r NewResponse h = (w, p, h')"
    and "sent_status w = 200"
  shows "\<exists>ms vs. mset (map Inr ms) = mset (map convertMeasurementToDomain
      (filter mr_IsActive (measurements_whitelist (tabs (fst h))))) \<and> json_parse (rs_Body w) = Some (JArr vs) \<and>
    map read_measurement vs = map (\<lambda>m. Some \<lparr>PM_Name = M_Name m, PM_AttestationType = M_AttestationType m,
      PM_Measurements = in_key_order (M_Measurement m)\<rparr>) ms"
proof -
  obtain ms where g: "GetActiveMeasurements (fst h) = (Inr ms, fst h')"
    and body: "rs_Body w = json_print (JArr (map enc_measurement (map fromDomainMeasurement ms)))"
    using assms(2,3)
    by (auto simp: h_GetAllowedMeasurements_def on_data_eq GetAllowedMeasurements_def Let_def simp del: map_map
        split: sum.splits prod.splits)
  note rows = GetActiveMeasurements_rows [OF g]
  have "read_measurement (enc_measurement (fromDomainMeasurement m)) = Some \<lparr>PM_Name = M_Name m,
      PM_AttestationType = M_AttestationType m, PM_Measurements = in_key_order (M_Measurement m)\<rparr>" if "m \<in> set ms" for m
  proof -
    have "Inr m \<in> set (map convertMeasurementToDomain (filter mr_IsActive (measurements_whitelist (tabs (fst h)))))"
      using mset_eq_setD [OF rows] that by auto
    then obtain r where r: "r \<in> set (measurements_whitelist (tabs (fst h)))" "convertMeasurementToDomain r = Inr m" by auto
    then have "M_Name m = mr_Name r" "M_AttestationType m = mr_AttestationType r"
      by (auto simp: convertMeasurementToDomain_def split: sum.splits)
    then show ?thesis using read_listed [OF reachable_text [OF assms(1)] r] by simp
  qed
  then have "map read_measurement (map enc_measurement (map fromDomainMeasurement ms)) = map (\<lambda>m. Some \<lparr>PM_Name = M_Name m,
      PM_AttestationType = M_AttestationType m, PM_Measurements = in_key_order (M_Measurement m)\<rparr>) ms" by simp
  moreover have "json_parse (rs_Body w) = Some (JArr (map enc_measurement (map fromDomainMeasurement ms)))"
    unfolding body by (rule listings_valid)
  ultimately show ?thesis using rows by blast
qed

theorem measurements_listed_witness:
  "\<exists>v. json_parse (rs_Body (fst (h_GetAllowedMeasurements (db_handler sample_ext inmem_accessor) sample_request NewResponse
     sample_state))) = Some (JArr [v]) \<and> map_option PM_Name (read_measurement v) = Some ''m1''"
proof -
  let ?z = "h_GetAllowedMeasurements (db_handler sample_ext inmem_accessor) sample_request NewResponse sample_state"
  have ok: "sent_status (fst ?z) = 200" "fst (snd ?z) = None" by code_simp+
  then have z: "?z = (fst ?z, None, snd (snd ?z))" by (intro reply_collapse) simp_all
  have "db_reachable sample_ext (fst sample_state)" by (simp add: sample_state_def sample_db_reachable)
  from measurements_listed [OF this z ok(1)] obtain ms vs where
    l: "mset (map Inr ms) = mset (map convertMeasurementToDomain (filter mr_IsActive (measurements_whitelist (tabs (fst sample_state)))))"
      "json_parse (rs_Body (fst ?z)) = Some (JArr vs)"
      "map read_measurement vs = map (\<lambda>m. Some \<lparr>PM_Name = M_Name m, PM_AttestationType = M_AttestationType m,
        PM_Measurements = in_key_order (M_Measurement m)\<rparr>) ms" by blast
  have rows: "map (\<lambda>r. map_sum (\<lambda>e. ()) M_Name (convertMeasurementToDomain r))
      (filter mr_IsActive (measurements_whitelist (tabs (fst sample_state)))) = [Inr ''m1'' :: unit + bytes]" by code_simp
  have "mset (map (\<lambda>m. Inr (M_Name m) :: unit + bytes) ms) = image_mset (map_sum (\<lambda>e. ()) M_Name) (mset (map Inr ms :: Measurement result list))"
    by (simp add: image_mset.compositionality comp_def)
  also have "\<dots> = mset [Inr ''m1'' :: unit + bytes]" unfolding l(1) rows [symmetric] by (simp add: image_mset.compositionality comp_def)
  finally have "map (\<lambda>m. Inr (M_Name m) :: unit + bytes) ms = [Inr ''m1'']" by (simp only: mset.simps mset_single_iff)
  then obtain m where m: "ms = [m]" "M_Name m = ''m1''" by (cases ms) auto
  with l(3) obtain v where v: "vs = [v]" "map_option PM_Name (read_measurement v) = Some ''m1''" by (cases vs) auto
  show ?thesis using l(2) v by blast
qed

text \<open>C17: A registered credential is published: after a registration that is answered with 200,
  the next listing of a network that is answered with 200 is a JSON array of builders, each name
  once, that has the builder at the registering address exactly when it is of that network, and
  then with the certificate, key and region of the registration under the registered service.\<close>

theorem registration_listed:
  assumes "db_reachable x (fst h)" "h_RegisterCredentials x (db_handler x sa) r NewResponse h = (w, p, h1)" "sent_status w = 200"
    and "h_GetActiveBuildersNoAuthNetworked x (db_handler x sa) r2 NewResponse h1 = (w2, p2, h2)" "sent_status w2 = 200"
  shows "\<exists>auth row sc bs. getAuthData r = Inr auth \<and> row \<in> set (builders (tabs (fst h))) \<and> br_IsActive row \<and>
    inet_value x (AD_IP auth) = Inr (Some (br_IPAddress row)) \<and> Unmarshal (dec_cred x) (rq_Body r) zero_cred = Inr sc \<and>
    json_parse (rs_Body w2) = Some (JArr (map (enc_builder x (rq_Seed r2)) bs)) \<and> distinct (map BC_Name bs) \<and>
    (br_Name row \<in> set (map BC_Name bs) \<longleftrightarrow> br_Network row = URLParam r2 ''network'') \<and>
    (\<forall>b\<in>set bs. BC_Name b = br_Name row \<longrightarrow> map_of (BC_ServiceCreds b) (URLParam r ''service'') =
      Some \<lparr>C_TLSCert = C_TLSCert sc, C_ECDSAPubkey = Bytes2Address x (case C_ECDSAPubkey sc of None \<Rightarrow> [] | Some a \<Rightarrow> a),
            C_Region = C_Region sc\<rparr>)"
proof (cases rule: hc.RegisterCredentials_effect [OF reachable_ok [OF assms(1)] db_handler_service rs_Status_simps(7) assms(2)])
  case 1
  with assms(3) RegisterCredentials_closed [OF assms(2)] show ?thesis by auto
next
  case reg: (2 auth bld n h0 sc e)
  let ?s = "URLParam r ''service''" and ?nw = "URLParam r2 ''network''"
  obtain row where row: "row \<in> set (builders (tabs (fst h)))" "br_IsActive row"
      "inet_value x (AD_IP auth) = Inr (Some (br_IPAddress row))" "br_Name row = B_Name bld"
    using db_authentic_rows [OF reg(2)] by metis
  have "e = None" using reg(10) assms(3) by (auto split: if_splits)
  then have call: "RegisterCredentialsForBuilder (B_Name bld) ?s (C_TLSCert sc) (case C_ECDSAPubkey sc of None \<Rightarrow> [] | Some a \<Rightarrow> a)
      n (AD_AttestationType auth) (C_Region sc) (fst h0) = (None, fst h1)"
    using reg(8) by (simp add: on_data_eq hub_RegisterCredentialsForBuilder_def)
  from call obtain c where c: "tabs (fst h1) = replace_creds (B_Name bld) ?s (db_now (fst h0)) c (tabs (fst h0))"
      "sr_IsActive c" "cred_key c = (B_Name bld, ?s)" "cred_of c = \<lparr>cred_TLSCert = if C_TLSCert sc \<noteq> [] then Some (C_TLSCert sc) else None,
        cred_ECDSAPubKey = (case C_ECDSAPubkey sc of None \<Rightarrow> [] | Some a \<Rightarrow> a), cred_Region = C_Region sc\<rparr>"
    by (cases rule: RegisterCredentialsForBuilder_cases) auto
  have ok0: "tables_ok (tabs (fst h0))" using reachable_ok [OF assms(1)] reg(3) by simp
  have ok: "tables_ok (tabs (fst h1))"
    using keepsD [OF keeps_Register ok0] call by (metis snd_conv)
  have same: "row \<in> set (builders (tabs (fst h1)))" using c(1) reg(3) row(1) by (simp add: replace_creds_def)
  have active: "c \<in> set (active_creds (tabs (fst h1)))" using c by (simp add: active_creds_replace)
  have key: "sr_BuilderName c = br_Name row" "sr_Service c = ?s" using c(3) row(4) by (simp_all add: cred_key_def)
  have cred: "service_cred (service_of x c) = \<lparr>C_TLSCert = C_TLSCert sc, C_ECDSAPubkey =
      Bytes2Address x (case C_ECDSAPubkey sc of None \<Rightarrow> [] | Some a \<Rightarrow> a), C_Region = C_Region sc\<rparr>"
    using c(4) by (auto simp: service_cred_def service_of_def cred_of_def NullString_def)
  obtain ws where ws: "GetActiveBuildersWithServiceCredentials x ?nw (fst h1) = (Inr ws, fst h2)"
      "rs_Body w2 = json_print (JArr (map (enc_builder x (rq_Seed r2)) (map fromDomainBuilderWithServices ws)))"
    by (rule networked_served [OF assms(4,5)])
  let ?bs = "map fromDomainBuilderWithServices ws"
  have "json_parse (rs_Body w2) = Some (JArr (map (enc_builder x (rq_Seed r2)) ?bs))" unfolding ws(2) by (rule listings_valid)
  with builder_listed [OF ok ws(1) same row(2) active key(1)] reg(1,4) row(1,2,3) show ?thesis
    unfolding key(2) cred by blast
qed

theorem registration_listed_witness:
  "\<exists>bs. json_parse (rs_Body (fst (h_GetActiveBuildersNoAuthNetworked sample_ext (db_handler sample_ext inmem_accessor)
       (sample_request\<lparr>rq_Params := [(''network'', ''production'')]\<rparr>) NewResponse
       (snd (snd (h_RegisterCredentials sample_ext (db_handler sample_ext inmem_accessor) sample_request NewResponse sample_state))))))
     = Some (JArr (map (enc_builder sample_ext 5) bs)) \<and>
     (\<exists>b\<in>set bs. \<exists>c. map_of (BC_ServiceCreds b) ''relay'' = Some c \<and> C_TLSCert c = ''new'' \<and> C_Region c = ''us'')"
proof -
  let ?r2 = "sample_request\<lparr>rq_Params := [(''network'', ''production'')]\<rparr>"
  let ?z = "h_RegisterCredentials sample_ext (db_handler sample_ext inmem_accessor) sample_request NewResponse sample_state"
  let ?z2 = "h_GetActiveBuildersNoAuthNetworked sample_ext (db_handler sample_ext inmem_accessor) ?r2 NewResponse (snd (snd ?z))"
  have z: "?z = (fst ?z, fst (snd ?z), snd (snd ?z))" and z2: "?z2 = (fst ?z2, fst (snd ?z2), snd (snd ?z2))" by simp_all
  have ok: "sent_status (fst ?z) = 200" "sent_status (fst ?z2) = 200" by code_simp+
  have reach: "db_reachable sample_ext (fst sample_state)" by (simp add: sample_state_def sample_db_reachable)
  from registration_listed [OF reach z ok(1) z2 ok(2)] obtain row sc bs where
    l: "row \<in> set (builders (tabs (fst sample_state)))" "br_IsActive row"
      "Unmarshal (dec_cred sample_ext) (rq_Body sample_request) zero_cred = Inr sc"
      "json_parse (rs_Body (fst ?z2)) = Some (JArr (map (enc_builder sample_ext (rq_Seed ?r2)) bs))"
      "br_Name row \<in> set (map BC_Name bs) \<longleftrightarrow> br_Network row = URLParam ?r2 ''network''"
      "\<forall>b\<in>set bs. BC_Name b = br_Name row \<longrightarrow> map_of (BC_ServiceCreds b) (URLParam sample_request ''service'') =
        Some \<lparr>C_TLSCert = C_TLSCert sc, C_ECDSAPubkey = Bytes2Address sample_ext (case C_ECDSAPubkey sc of None \<Rightarrow> [] | Some a \<Rightarrow> a),
              C_Region = C_Region sc\<rparr>" by blast
  have sc: "Unmarshal (dec_cred sample_ext) (rq_Body sample_request) zero_cred =
      Inr \<lparr>C_TLSCert = ''new'', C_ECDSAPubkey = None, C_Region = ''us''\<rparr>" by code_simp
  have "list_all (\<lambda>r. br_IsActive r \<longrightarrow> br_Network r = URLParam ?r2 ''network'') (builders (tabs (fst sample_state)))" by code_simp
  then have "br_Network row = URLParam ?r2 ''network''" using l(1,2) by (simp add: list_all_iff)
  then obtain b where b: "b \<in> set bs" "BC_Name b = br_Name row" using l(5) by auto
  have "sc = \<lparr>C_TLSCert = ''new'', C_ECDSAPubkey = None, C_Region = ''us''\<rparr>" using sc l(3) by simp
  moreover have s: "URLParam sample_request ''service'' = ''relay''" "rq_Seed ?r2 = 5" by code_simp+
  ultimately have "map_of (BC_ServiceCreds b) ''relay'' = Some \<lparr>C_TLSCert = ''new'', C_ECDSAPubkey = Bytes2Address sample_ext [],
      C_Region = ''us''\<rparr>" using l(6) b by auto
  with b l(4) s(2) show ?thesis by (intro exI [of _ bs] conjI bexI [of _ b]) simp_all
qed

end
