(* ===== verification/Net_IP6.thy ===== *)
theory Net_IP6
  imports Net_IP
begin

text \<open>
  Printing an IP address with \<open>net.IP.String\<close> and reading it with \<open>net.ParseIP\<close> gives the same
  address for every 16-byte address, IPv6 included: the hexadecimal groups, the run of zero
  groups replaced by \<open>::\<close> at either end or in the middle, and the mapped IPv4 form. The
  listings of the hub print addresses and the administrators' documents are read by \<open>ParseIP\<close>;
  these lemmas connect the two.
\<close>

abbreviation text6 :: "nat list \<Rightarrow> bytes" where
  "text6 gs \<equiv> join_with (CHR '':'') (map lowhex gs)"

definition of_group :: "nat \<Rightarrow> bytes" where
  "of_group g = [char_of (g div 256), char_of (g mod 256)]"

abbreviation of_groups :: "nat list \<Rightarrow> bytes" where
  "of_groups gs \<equiv> concat (map of_group gs)"

abbreviation word_groups :: "nat list \<Rightarrow> bool" where
  "word_groups gs \<equiv> \<forall>g\<in>set gs. g < 65536"

section \<open>Hexadecimal groups\<close>

lemma hexval_low: "d < 10 \<Longrightarrow> hexval (char_of (48 + d :: nat)) = Some d"
  by (auto simp: hexval_def in_range_def)

lemma hexval_high:
  assumes "10 \<le> d" "d < 16"
  shows "hexval (char_of (87 + d :: nat)) = Some d"
proof -
  have "d \<in> {10, 11, 12, 13, 14, 15}" using assms by auto
  then show ?thesis
    unfolding insert_iff empty_iff by (elim disjE) (simp_all add: hexval_def in_range_def)
qed

lemmas hexval_digit = hexval_low hexval_high

lemma hex_value_snoc: "hex_value (s @ [c]) = 16 * hex_value s + the (hexval c)"
  by (simp add: hex_value_def)

lemma hex_value_lowhex [simp]: "hex_value (lowhex n) = n"
proof (induction n rule: lowhex.induct)
  case (1 n)
  show ?case
  proof (cases "n < 16")
    case True
    then show ?thesis
      by (subst lowhex.simps) (simp add: hex_value_def Let_def hexval_digit not_less)
  next
    case False
    then show ?thesis
      using 1 by (subst lowhex.simps) (simp add: hex_value_snoc Let_def hexval_digit not_less)
  qed
qed

lemma lowhex_is_hex: "c \<in> set (lowhex n) \<Longrightarrow> is_hex c"
proof (induction n rule: lowhex.induct)
  case (1 n)
  then show ?case
    by (subst (asm) (2) lowhex.simps) (auto simp: Let_def is_hex_def hexval_digit not_less split: if_splits)
qed

lemma lowhex_neq_Nil [simp]: "lowhex n \<noteq> []"
  by (subst lowhex.simps) (simp add: Let_def)

lemma lowhex_length_le: "n < 16 ^ Suc k \<Longrightarrow> length (lowhex n) \<le> Suc k"
proof (induction k arbitrary: n)
  case 0
  then show ?case by (subst lowhex.simps) (simp add: Let_def)
next
  case (Suc k)
  then have "n div 16 < 16 ^ Suc k" by (simp add: less_mult_imp_div_less mult.commute)
  then show ?case using Suc.IH [of "n div 16"] by (subst lowhex.simps) (simp add: Let_def)
qed

lemma lowhex_short [simp]: "n < 65536 \<Longrightarrow> \<not> 4 < length (lowhex n)"
  using lowhex_length_le [of n 3] by simp

lemma colon_not_hex [simp]: "\<not> is_hex (CHR '':'')" "\<not> is_hex (CHR ''.'')" "\<not> is_hex (CHR ''%'')"
  by (simp_all add: is_hex_def hexval_def in_range_def)

lemma take_hex [simp]: "takeWhile is_hex (lowhex g) = lowhex g"
    "takeWhile is_hex (lowhex g @ CHR '':'' # r) = lowhex g"
  by (simp_all add: takeWhile_append2 lowhex_is_hex)

lemma drop_hex [simp]: "dropWhile is_hex (lowhex g) = []"
    "dropWhile is_hex (lowhex g @ CHR '':'' # r) = CHR '':'' # r"
  by (simp_all add: dropWhile_append2 lowhex_is_hex)

lemma join_Cons: "ws \<noteq> [] \<Longrightarrow> join_with sep (w # ws) = w @ sep # join_with sep ws"
  by (cases ws) simp_all

lemma hd_lowhex: "hd (lowhex g @ r) \<noteq> CHR '':''"
  using lowhex_is_hex [of "hd (lowhex g)" g] by auto

lemma text6_hd: "gs \<noteq> [] \<Longrightarrow> \<exists>d s. text6 gs = d # s \<and> d \<noteq> CHR '':''"
proof (cases gs rule: remdups_adj.cases)
  case (2 g)
  then show ?thesis using hd_lowhex [of g "[]"] by (cases "lowhex g") auto
next
  case (3 g h hs)
  then show ?thesis using hd_lowhex [of g "CHR '':'' # text6 (h # hs)"] by (cases "lowhex g") auto
qed simp

lemma text6_chars: "c \<in> set (text6 gs) \<Longrightarrow> is_hex c \<or> c = CHR '':''"
  by (induction gs rule: remdups_adj.induct) (auto simp: lowhex_is_hex)

section \<open>The loop of the parser on printed groups\<close>

lemma parse6_last:
  "g < 65536 \<Longrightarrow> parse6_loop (Suc n) (lowhex g) ip ell = Some (ip @ of_group g, ell)"
  by (simp add: Let_def of_group_def not_less)

lemma parse6_colon:
  "g < 65536 \<Longrightarrow> d \<noteq> CHR '':'' \<Longrightarrow>
   parse6_loop (Suc n) (lowhex g @ CHR '':'' # d # s) ip ell = parse6_loop n (d # s) (ip @ of_group g) ell"
  by (simp add: Let_def of_group_def not_less)

lemma parse6_ellipsis:
  "g < 65536 \<Longrightarrow>
   parse6_loop (Suc n) (lowhex g @ CHR '':'' # CHR '':'' # s) ip None =
     (let ip' = ip @ of_group g in
      if s = [] then Some (ip', Some (length ip')) else parse6_loop n s ip' (Some (length ip')))"
  by (simp add: Let_def of_group_def not_less)

lemma parse6_text6:
  "gs \<noteq> [] \<Longrightarrow> word_groups gs \<Longrightarrow> length gs \<le> n \<Longrightarrow>
   parse6_loop n (text6 gs) ip ell = Some (ip @ of_groups gs, ell)"
proof (induction gs arbitrary: n ip rule: list_nonempty_induct)
  case (single g)
  then obtain m where "n = Suc m" by (cases n) auto
  with single show ?case by (simp add: parse6_last del: parse6_loop.simps)
next
  case (cons g gs)
  then obtain m where n: "n = Suc m" by (cases n) auto
  obtain d s where "text6 gs = d # s" "d \<noteq> CHR '':''" using text6_hd [OF cons.hyps(1)] by blast
  then show ?case
    using cons n parse6_colon [of g d m s ip ell] by (simp add: join_Cons del: parse6_loop.simps)
qed

lemma parse6_text6_ellipsis:
  "gs \<noteq> [] \<Longrightarrow> word_groups gs \<Longrightarrow> length gs \<le> n \<Longrightarrow>
   parse6_loop n (text6 gs @ CHR '':'' # CHR '':'' # s) ip None =
     (let ip' = ip @ of_groups gs in
      if s = [] then Some (ip', Some (length ip'))
      else parse6_loop (n - length gs) s ip' (Some (length ip')))"
proof (induction gs arbitrary: n ip rule: list_nonempty_induct)
  case (single g)
  then obtain m where "n = Suc m" by (cases n) auto
  with single show ?case by (simp add: parse6_ellipsis Let_def del: parse6_loop.simps)
next
  case (cons g gs)
  then obtain m where n: "n = Suc m" by (cases n) auto
  obtain d t where "text6 gs = d # t" "d \<noteq> CHR '':''" using text6_hd [OF cons.hyps(1)] by blast
  then show ?case
    using cons n parse6_colon [of g d m "t @ CHR '':'' # CHR '':'' # s" ip None]
    by (simp add: join_Cons Let_def del: parse6_loop.simps)
qed

section \<open>The omitted run\<close>

lemma best_run_spec:
  assumes "gs = drop i all" "l = 0 \<or> 2 \<le> l \<and> z + l \<le> length all \<and> take l (drop z all) = replicate l 0"
    "best_run i gs (z, l) = (z', l')"
  shows "l' = 0 \<or> 2 \<le> l' \<and> z' + l' \<le> length all \<and> take l' (drop z' all) = replicate l' 0"
  using assms
proof (induction gs arbitrary: i z l)
  case (Cons g gs)
  let ?r = "length (takeWhile (\<lambda>x. x = 0) (g # gs))"
  have len: "i + ?r \<le> length all"
    using Cons.prems(1) length_takeWhile_le [of "\<lambda>x. x = 0" "g # gs"]
    by (metis add_leD2 add.commute drop_eq_Nil le_diff_conv2 length_drop linorder_le_cases list.distinct(1))
  have run: "take ?r (drop i all) = replicate ?r 0"
    using Cons.prems(1) by (metis (mono_tags, lifting) takeWhile_eq_take replicate_length_same set_takeWhileD)
  show ?case
  proof (rule Cons.IH)
    show "gs = drop (Suc i) all" using Cons.prems(1) by (metis drop_Suc list.sel(3) tl_drop)
    show "best_run (Suc i) gs (if 2 \<le> ?r \<and> l < ?r then i else z, if 2 \<le> ?r \<and> l < ?r then ?r else l) = (z', l')"
      using Cons.prems(3) by (simp only: best_run.simps Let_def) (auto split: if_splits)
    show "(if 2 \<le> ?r \<and> l < ?r then ?r else l) = 0 \<or> 2 \<le> (if 2 \<le> ?r \<and> l < ?r then ?r else l)
      \<and> (if 2 \<le> ?r \<and> l < ?r then i else z) + (if 2 \<le> ?r \<and> l < ?r then ?r else l) \<le> length all
      \<and> take (if 2 \<le> ?r \<and> l < ?r then ?r else l) (drop (if 2 \<le> ?r \<and> l < ?r then i else z) all)
        = replicate (if 2 \<le> ?r \<and> l < ?r then ?r else l) 0"
      using Cons.prems(2) len run by presburger
  qed
qed simp

lemma best_run_decomposes:
  assumes "best_run 0 gs (0, 0) = (z, l)" "l \<noteq> 0"
  shows "gs = take z gs @ replicate l 0 @ drop (z + l) gs" "z + l \<le> length gs" "2 \<le> l"
proof -
  have *: "2 \<le> l" "z + l \<le> length gs" "take l (drop z gs) = replicate l 0"
    using best_run_spec [OF _ _ assms(1), of gs] assms(2) by auto
  then show "gs = take z gs @ replicate l 0 @ drop (z + l) gs"
    by (metis append_take_drop_id drop_drop add.commute)
  show "z + l \<le> length gs" "2 \<le> l" using * by simp_all
qed

section \<open>Bytes and groups\<close>

lemma of_groups_groups: "even (length ip) \<Longrightarrow> of_groups (groups ip) = ip"
  by (induction ip rule: groups.induct) (auto simp: of_group_def)

lemma groups_word: "g \<in> set (groups ip) \<Longrightarrow> g < 65536"
proof (induction ip rule: groups.induct)
  case (1 a b r)
  moreover have "256 * byte a + byte b < 65536"
    using byte_lt_256 [of a] byte_lt_256 [of b] by linarith
  ultimately show ?case by auto
qed auto

lemma length_groups: "length (groups ip) = length ip div 2"
  by (induction ip rule: groups.induct) auto

lemma length_of_groups [simp]: "length (of_groups gs) = 2 * length gs"
  by (induction gs) (auto simp: of_group_def)

lemma of_groups_zeros: "of_groups (replicate l 0) = zeros (2 * l)"
  by (induction l) (simp_all add: of_group_def zeros_def)

section \<open>The round trip\<close>

lemma string6_chars: "c \<in> set (string6 ip) \<Longrightarrow> is_hex c \<or> c = CHR '':''"
  by (auto simp: string6_def Let_def split: prod.splits if_splits dest!: text6_chars)

lemma string6_colon:
  assumes "length ip = 16"
  shows "CHR '':'' \<in> set (string6 ip)"
proof -
  obtain g h gs where "groups ip = g # h # gs"
    using assms length_groups [of ip] by (cases "groups ip" rule: remdups_adj.cases) auto
  then show ?thesis
    by (cases "best_run 0 (groups ip) (0, 0)") (auto simp: string6_def Let_def simp del: best_run.simps)
qed

lemma parseIPv6_string6:
  assumes "length ip = 16"
  shows "parseIPv6 (string6 ip) = Some ip"
proof -
  let ?gs = "groups ip"
  obtain z l where br: "best_run 0 ?gs (0, 0) = (z, l)" by fastforce
  have percent: "CHR ''%'' \<notin> set (string6 ip)" using string6_chars [of "CHR ''%''" ip] by auto
  have wg: "word_groups ?gs" "word_groups (take z ?gs)" "word_groups (drop (z + l) ?gs)"
    using groups_word [of _ ip] in_set_takeD in_set_dropD by fastforce+
  have len: "length ?gs = 8" using assms by (simp add: length_groups)
  have id: "of_groups ?gs = ip" using assms by (simp add: of_groups_groups)
  show ?thesis
  proof (cases "l = 0")
    case True
    then have s: "string6 ip = text6 ?gs" by (simp add: string6_def br)
    have ne: "?gs \<noteq> []" using len by auto
    obtain d t where "text6 ?gs = d # t" "d \<noteq> CHR '':''" using text6_hd [OF ne] by blast
    then show ?thesis
      using percent parse6_text6 [OF ne wg(1), of 8 "[]" None] len id assms
      by (auto simp: parseIPv6_def s expand_ellipsis_def)
  next
    case False
    note dec = best_run_decomposes [OF br False]
    let ?pre = "take z ?gs" and ?post = "drop (z + l) ?gs"
    have s: "string6 ip = text6 ?pre @ CHR '':'' # CHR '':'' # text6 ?post"
      using False by (simp add: string6_def br Let_def)
    have pre: "length (of_groups ?pre) = 2 * z" using dec(2) len by simp
    have post: "length (of_groups ?post) = 16 - 2 * (z + l)" using len by simp
    have split: "ip = of_groups ?pre @ zeros (2 * l) @ of_groups ?post"
      by (metis dec(1) id concat_append map_append of_groups_zeros)
    have ell: "expand_ellipsis (of_groups ?pre @ of_groups ?post) (Some (2 * z)) = Some ip"
      using pre post dec len by (subst split) (simp add: expand_ellipsis_def)
    have Nil_iff: "text6 ?post = [] \<longleftrightarrow> ?post = []" using text6_hd [of ?post] by force
    show ?thesis
    proof (cases "z = 0")
      case True
      then show ?thesis
        using percent ell Nil_iff parse6_text6 [of ?post 8 "[]" "Some 0"] wg len
        by (cases "?post = []") (auto simp: parseIPv6_def s expand_ellipsis_def split: if_splits)
    next
      case False
      then have ne: "?pre \<noteq> []" using len by auto
      obtain d t where hd: "text6 ?pre = d # t" "d \<noteq> CHR '':''" using text6_hd [OF ne] by blast
      have "parse6_loop 8 (string6 ip) [] None = Some (of_groups ?pre @ of_groups ?post, Some (2 * z))"
      proof (cases "?post = []")
        case True
        then show ?thesis
          using parse6_text6_ellipsis [OF ne wg(2), of 8 "[]" "[]"] pre len by (simp add: s Let_def)
      next
        case False
        have "length ?post \<le> 8 - length ?pre" using dec(2) len by simp
        then show ?thesis
          using parse6_text6_ellipsis [OF ne wg(2), of 8 "text6 ?post" "[]"]
            parse6_text6 [OF False wg(3)] pre len False Nil_iff
          by (simp add: s Let_def)
      qed
      then show ?thesis using percent hd ell by (simp add: parseIPv6_def s)
    qed
  qed
qed

lemma parse_addr_colon:
  "\<forall>c\<in>set t. is_hex c \<or> c = CHR '':'' \<Longrightarrow> CHR '':'' \<in> set t \<Longrightarrow> parse_addr s t = parseIPv6 s"
  by (induction t) (auto simp: is_hex_def hexval_def in_range_def)

lemma length_v4InV6Prefix [simp]: "length v4InV6Prefix = 12"
  by (simp add: v4InV6Prefix_def zeros_def)

lemma ParseIP_String_16:
  assumes "length ip = 16"
  shows "ParseIP (IP_String ip) = Some ip"
proof (cases "To4 ip")
  case None
  then have "IP_String ip = string6 ip" using assms by (auto simp: IP_String_def)
  then show ?thesis
    using parse_addr_colon [of "string6 ip" "string6 ip"] string6_chars [of _ ip]
      string6_colon [OF assms] parseIPv6_string6 [OF assms]
    by (auto simp: ParseIP_def)
next
  case (Some q)
  then have q: "q = drop 12 ip" "take 12 ip = v4InV6Prefix" using assms by (auto simp: To4_def split: if_splits)
  then have "length q = 4" "IP_String ip = IP_String q"
    using assms Some by (auto simp: IP_String_def To4_def)
  then show ?thesis using ParseIP_String_v4 [of q] q by (metis append_take_drop_id)
qed

text \<open>The printed form read back is the address in its 16-byte form.\<close>

definition To16 :: "bytes \<Rightarrow> bytes option" where
  "To16 ip = (if length ip = 4 then Some (v4InV6Prefix @ ip) else if length ip = 16 then Some ip else None)"

lemma ParseIP_String: "length ip = 4 \<or> length ip = 16 \<Longrightarrow> ParseIP (IP_String ip) = To16 ip"
  using ParseIP_String_16 [of ip] ParseIP_String_v4 [of ip] by (auto simp: To16_def)

end
