(* ===== verification/Hub_Published.thy ===== *)
theory Hub_Published
  imports Hub_Spec Hub_Responses Net_IP6
begin

text \<open>
  From the administrator's document to the clients: the builder that a request adds is, after any
  further requests, the one that authenticates from the document's address and the one that the
  listings show, with the address, DNS name and network of the document and no other.
\<close>

section \<open>The row of an added builder\<close>

lemma AddBuilder_row:
  assumes "AddBuilder x b d = (None, d')"
  obtains row a where "row \<in> set (builders (tabs d'))" "br_Name row = B_Name b" "inet_value x (B_IPAddress b) = Inr (Some a)"
    "identity_of row = \<lparr>id_IPAddress = a, id_Network = B_Network b,
       id_DNSName = (if B_DNSName b \<noteq> [] then Some (B_DNSName b) else None)\<rparr>"
proof (cases "inet_value x (B_IPAddress b)")
  case (Inr ip)
  let ?dns = "if B_DNSName b \<noteq> [] then Some (B_DNSName b) else None"
  obtain fs where "checked [B_Name b, B_Network b, B_DNSName b] (insert_builder (B_Name b) ip (B_IsActive b) (B_Network b) ?dns)
      (d\<lparr>db_faults := fs\<rparr>) = (None, d')"
    using assms Inr unfolding AddBuilder_def by (auto elim: exec_None)
  then have ins: "insert_builder (B_Name b) ip (B_IsActive b) (B_Network b) ?dns (d\<lparr>db_faults := fs\<rparr>) = (None, d')"
    by (simp add: checked_None)
  then obtain a where a: "ip = Some a" by (cases ip) (auto simp: insert_builder_def)
  let ?row = "\<lparr>br_Name = B_Name b, br_IPAddress = a, br_IsActive = B_IsActive b, br_Network = B_Network b, br_DNSName = ?dns,
    br_CreatedAt = db_now d, br_UpdatedAt = db_now d, br_DeprecatedAt = None\<rparr>"
  have "builders (tabs d') = builders (tabs d) @ [?row]"
    using ins a by (auto simp: insert_builder_def upd_tabs_def simp del: if_image_distrib split: if_splits)
  then show ?thesis using that [of ?row a] Inr a by (simp add: identity_of_def)
qed (use assms in \<open>simp add: AddBuilder_def\<close>)

text \<open>What an administrator's request that is answered with 200 has added.\<close>

lemma admin_AddBuilder_added:
  assumes "admin_AddBuilder x (db_admin x sec) r NewResponse h = (w, p, h1)" "sent_status w = 200"
  obtains pb ip row a where "Unmarshal (dec_struct builder_fields) (rq_Body r) zero_builder = Inr pb" "PB_Network pb \<noteq> []"
    "ParseIP (PB_IPAddress pb) = Some ip" "inet_value x ip = Inr (Some a)"
    "row \<in> set (builders (tabs (fst h1)))" "br_Name row = PB_Name pb"
    "identity_of row = \<lparr>id_IPAddress = a, id_Network = PB_Network pb,
       id_DNSName = (if PB_DNSName pb \<noteq> [] then Some (PB_DNSName pb) else None)\<rparr>"
proof -
  obtain pb b where pb: "Unmarshal (dec_struct builder_fields) (rq_Body r) zero_builder = Inr pb" "PB_Network pb \<noteq> []"
      "toDomainBuilder pb False = Inr b" "finish NewResponse (snd h) (AddBuilder x b (fst h)) = (w, p, h1)"
    using assms
    by (auto simp: admin_AddBuilder_def ReadAll_def BadRequest_status split: sum.splits if_splits)
  obtain e d' where e: "AddBuilder x b (fst h) = (e, d')" by fastforce
  with pb(4) assms(2) have *: "AddBuilder x b (fst h) = (None, fst h1)" by (auto simp: finish_def split: option.splits)
  obtain ip where ip: "ParseIP (PB_IPAddress pb) = Some ip" "b = \<lparr>B_Name = PB_Name pb, B_IPAddress = ip,
      B_IsActive = False, B_Network = PB_Network pb, B_DNSName = PB_DNSName pb\<rparr>"
    using pb(3) by (auto simp: toDomainBuilder_def split: option.splits)
  show ?thesis by (rule AddBuilder_row [OF *]) (auto intro: that [OF pb(1,2) ip(1)] simp: ip(2))
qed

text \<open>An address that the driver stores and gives back is printed as a text of the address.\<close>

lemma printed_address:
  assumes "\<forall>ip a ip'. inet_value x ip = Inr (Some a) \<longrightarrow> inet_scan x a = Some ip' \<longrightarrow> To16 ip' = To16 ip"
    and "inet_value x ip = Inr (Some a)" "ParseIP s = Some ip" "inet_scan x a = Some ip'"
  shows "ParseIP (IP_String ip') = Some ip"
proof -
  have "To16 ip' = Some ip" using assms(1) [rule_format, OF assms(2,4)] ParseIP_length [OF assms(3)] by (simp add: To16_def)
  then show ?thesis using ParseIP_String [of ip'] by (auto simp: To16_def split: if_splits)
qed

text \<open>The names in a listing.\<close>

lemma listed_names:
  assumes "tables_ok (tabs d)" "GetActiveBuildersWithServiceCredentials x nw d = (Inr ws, d')"
  shows "set (map BC_Name (map fromDomainBuilderWithServices ws)) =
    br_Name ` set (filter (\<lambda>b. br_IsActive b \<and> br_Network b = nw) (builders (tabs d)))"
proof -
  have "map BC_Name (map fromDomainBuilderWithServices ws) = map (\<lambda>w. B_Name (BWS_Builder w)) ws"
    by (simp add: fromDomainBuilderWithServices_def)
  then show ?thesis using mset_eq_setD [OF conjunct1 [OF GetActiveBuilders_ok [OF assms]]] by (simp only: set_map)
qed

text \<open>It is still the row of that name after any requests.\<close>

lemma added_row_unique:
  assumes "op_reachable x (fst h1, P)" "(request_step x sec)\<^sup>*\<^sup>* h1 h2"
    and "row \<in> set (builders (tabs (fst h1)))" "row' \<in> set (builders (tabs (fst h2)))" "br_Name row' = br_Name row"
  shows "identity_of row' = identity_of row"
proof (rule identity_kept [OF assms(1-3)])
  fix row2 assume row2: "row2 \<in> set (builders (tabs (fst h2)))" "br_Name row2 = br_Name row" "identity_of row2 = identity_of row"
  have "distinct (builder_names (tabs (fst h2)))" by (rule tables_okD(5) [OF requests_extend(2) [OF assms(1,2)]])
  then have "row' = row2" using assms(4,5) row2(1,2) by (metis distinct_map inj_onD)
  with row2(3) show ?thesis by simp
qed

lemma request_reachable:
  assumes "op_reachable x (fst h, P)" "H \<in> set (system_handlers x sec)" "H r NewResponse h = (w, p, h')"
  obtains P' where "op_reachable x (fst h', P')"
  using requests_extend(3) [OF assms(1) r_into_rtranclp [of "request_step x sec", OF Request [OF assms(2,3)]]] by blast

lemma AddBuilder_handler: "admin_AddBuilder x (db_admin x sec) \<in> set (system_handlers x sec)"
  by (simp add: system_handlers_def Let_def)

section \<open>A builder with an IPv6 address\<close>

definition publish_request :: request where
  "publish_request = sample_request\<lparr>
     rq_Body := ''{\"name\":\"beta\",\"ip_address\":\"1:2:0:0:0:0:0:3\",\"network\":\"rbuilder\"}''\<rparr>"

definition configure_request :: request where
  "configure_request = sample_request\<lparr>rq_Params := [(''builderName'', ''beta'')], rq_Body := ''{}''\<rparr>"

abbreviation sample_admin :: "(db, InmemorySecretService) AdminHandler" where
  "sample_admin \<equiv> db_admin sample_ext inmem_service"

definition added_state :: "db \<times> InmemorySecretService" where
  "added_state = snd (snd (admin_AddBuilder sample_ext sample_admin publish_request NewResponse sample_state))"

definition activated_state :: "db \<times> InmemorySecretService" where
  "activated_state = snd (snd (admin_ChangeActiveStatusForBuilder sample_ext sample_admin (activate_request ''beta'') NewResponse
     (snd (snd (admin_AddBuilderConfig sample_ext sample_admin configure_request NewResponse added_state)))))"

lemma one_request: "H \<in> set (system_handlers x sec) \<Longrightarrow> request_step x sec h (snd (snd (H r NewResponse h)))"
  by (cases "H r NewResponse h") (auto intro: Request)

lemma activated_requests: "(request_step sample_ext inmem_service)\<^sup>*\<^sup>* added_state activated_state"
proof -
  let ?c = "snd (snd (admin_AddBuilderConfig sample_ext sample_admin configure_request NewResponse added_state))"
  have "request_step sample_ext inmem_service added_state ?c"
    by (rule one_request) (simp add: system_handlers_def Let_def)
  moreover have "request_step sample_ext inmem_service ?c activated_state"
    unfolding activated_state_def by (rule one_request) (simp add: system_handlers_def Let_def)
  ultimately show ?thesis by (rule converse_rtranclp_into_rtranclp [OF _ r_into_rtranclp])
qed

definition beta_ip :: bytes where
  "beta_ip = [CHR 0x00, CHR 0x01, CHR 0x00, CHR 0x02] @ zeros 11 @ [CHR 0x03]"

lemma added_request:
  "admin_AddBuilder sample_ext sample_admin publish_request NewResponse sample_state = (NewResponse, None, added_state)"
proof -
  have "fst (admin_AddBuilder sample_ext sample_admin publish_request NewResponse sample_state) = NewResponse"
    "fst (snd (admin_AddBuilder sample_ext sample_admin publish_request NewResponse sample_state)) = None" by code_simp+
  then show ?thesis unfolding added_state_def by (rule reply_collapse)
qed

lemma publish_document:
  "Unmarshal (dec_struct builder_fields) (rq_Body publish_request) zero_builder =
     Inr \<lparr>PB_Name = ''beta'', PB_DNSName = [], PB_IPAddress = ''1:2:0:0:0:0:0:3'', PB_Network = ''rbuilder''\<rparr>"
  "ParseIP ''1:2:0:0:0:0:0:3'' = Some beta_ip"
  by code_simp+

section \<open>Properties\<close>

text \<open>C12: A builder is bound to its address: after a request that adds a builder is answered with
  200, whatever requests follow, whoever authenticates under its name comes from the address that
  the document names, and acts in the network that the document names.\<close>

theorem builder_bound_to_address:
  assumes "op_reachable x (fst h, P)"
    and "admin_AddBuilder x (db_admin x sec) r NewResponse h = (w, p, h1)" "sent_status w = 200"
    and "(request_step x sec)\<^sup>*\<^sup>* h1 h2" "db_authentic x h2 auth b m"
    and "Unmarshal (dec_struct builder_fields) (rq_Body r) zero_builder = Inr pb" "B_Name b = PB_Name pb"
  shows "\<exists>ip. ParseIP (PB_IPAddress pb) = Some ip \<and> inet_value x (AD_IP auth) = inet_value x ip \<and> B_Network b = PB_Network pb"
proof (rule admin_AddBuilder_added [OF assms(2,3)])
  fix pb' ip row a
  assume added: "Unmarshal (dec_struct builder_fields) (rq_Body r) zero_builder = Inr pb'"
    "ParseIP (PB_IPAddress pb') = Some ip" "inet_value x ip = Inr (Some a)"
    "row \<in> set (builders (tabs (fst h1)))" "br_Name row = PB_Name pb'"
    "identity_of row = \<lparr>id_IPAddress = a, id_Network = PB_Network pb',
       id_DNSName = (if PB_DNSName pb' \<noteq> [] then Some (PB_DNSName pb') else None)\<rparr>"
  obtain P' where P': "op_reachable x (fst h1, P')" by (rule request_reachable [OF assms(1) AddBuilder_handler assms(2)])
  obtain row' where row': "row' \<in> set (builders (tabs (fst h2)))" "inet_value x (AD_IP auth) = Inr (Some (br_IPAddress row'))"
      "br_Name row' = B_Name b" "br_Network row' = B_Network b"
    using db_authentic_rows [OF assms(5)] by metis
  have pb: "pb' = pb" using added(1) assms(6) by simp
  have "identity_of row' = identity_of row"
    by (rule added_row_unique [OF P' assms(4) added(4) row'(1)]) (simp add: row'(3) assms(7) added(5) pb)
  then have "br_IPAddress row' = a" "br_Network row' = PB_Network pb"
    using added(6) pb by (simp_all add: identity_of_def)
  with row' added(2,3) pb show ?thesis by auto
qed

theorem builder_bound_to_address_witness:
  "\<exists>auth b m. db_authentic sample_ext activated_state auth b m \<and> B_Name b = ''beta'' \<and>
     inet_value sample_ext (AD_IP auth) = inet_value sample_ext beta_ip \<and> B_Network b = ''rbuilder''"
proof -
  let ?auth = "\<lparr>AD_AttestationType = ''azure-tdx'', AD_MeasurementData = [(''4'', ''ab'')], AD_IP = beta_ip\<rparr>"
  let ?b = "\<lparr>B_Name = ''beta'', B_IPAddress = beta_ip, B_IsActive = True, B_Network = ''rbuilder'', B_DNSName = []\<rparr>"
  have "db_builder_at sample_ext (fst activated_state) beta_ip ?b" by code_simp
  moreover have "db_allowed (fst activated_state) ''azure-tdx'' sample_measurement" "satisfies [(''4'', ''ab'')] sample_measurement"
    by code_simp+
  ultimately have auth: "db_authentic sample_ext activated_state ?auth ?b (M_Name sample_measurement)"
    by (auto simp: db_authentic_def)
  have "op_reachable sample_ext (fst sample_state, {''alpha''})" "sent_status NewResponse = 200"
    by (simp_all add: sample_state_def sample_db_op_reachable)
  from builder_bound_to_address [OF this(1) added_request this(2) activated_requests auth publish_document(1)]
  have "inet_value sample_ext (AD_IP ?auth) = inet_value sample_ext beta_ip \<and> B_Network ?b = ''rbuilder''"
    by (simp add: publish_document(2))
  with auth show ?thesis by (intro exI [of _ ?auth] exI [of _ ?b] exI [of _ "M_Name sample_measurement"]) simp
qed

text \<open>C13: What is added is what is published: after a request that adds a builder is answered with 200,
  whatever requests follow, a listing that is answered with 200 has the builder exactly when it is
  active and the listing is of the document's network, with the document's DNS name and an address
  text that reads as the document's address, for IPv4 and IPv6; the driver's \<open>inet\<close> values have to
  come back as the address they were made from, in 4 or 16 bytes.\<close>

theorem added_builder_published:
  assumes "op_reachable x (fst h, P)"
    and "admin_AddBuilder x (db_admin x sec) r NewResponse h = (w, p, h1)" "sent_status w = 200"
    and "(request_step x sec)\<^sup>*\<^sup>* h1 h2"
    and "h_GetActiveBuildersNoAuthNetworked x (db_handler x sa) r2 NewResponse h2 = (w2, p2, h3)" "sent_status w2 = 200"
    and "Unmarshal (dec_struct builder_fields) (rq_Body r) zero_builder = Inr pb"
    and "\<forall>ip a ip'. inet_value x ip = Inr (Some a) \<longrightarrow> inet_scan x a = Some ip' \<longrightarrow> To16 ip' = To16 ip"
  shows "\<exists>bs. json_parse (rs_Body w2) = Some (JArr (map (enc_builder x (rq_Seed r2)) bs)) \<and>
    (PB_Name pb \<in> set (map BC_Name bs) \<longleftrightarrow> PB_Network pb = URLParam r2 ''network'' \<and>
      (\<exists>row\<in>set (builders (tabs (fst h2))). br_IsActive row \<and> br_Name row = PB_Name pb)) \<and>
    (\<forall>b\<in>set bs. BC_Name b = PB_Name pb \<longrightarrow> BC_DNSName b = PB_DNSName pb \<and>
      (\<exists>ip. ParseIP (PB_IPAddress pb) = Some ip \<and> ParseIP (BC_IP b) = Some ip))"
proof (rule admin_AddBuilder_added [OF assms(2,3)])
  fix pb' ip row a
  assume added: "Unmarshal (dec_struct builder_fields) (rq_Body r) zero_builder = Inr pb'"
    "ParseIP (PB_IPAddress pb') = Some ip" "inet_value x ip = Inr (Some a)"
    "row \<in> set (builders (tabs (fst h1)))" "br_Name row = PB_Name pb'"
    "identity_of row = \<lparr>id_IPAddress = a, id_Network = PB_Network pb',
       id_DNSName = (if PB_DNSName pb' \<noteq> [] then Some (PB_DNSName pb') else None)\<rparr>"
  obtain P' where P': "op_reachable x (fst h1, P')" by (rule request_reachable [OF assms(1) AddBuilder_handler assms(2)])
  have pb: "pb' = pb" using added(1) assms(7) by simp
  have same: "identity_of row' = identity_of row" if "row' \<in> set (builders (tabs (fst h2)))" "br_Name row' = PB_Name pb" for row'
    by (rule added_row_unique [OF P' assms(4) added(4) that(1)]) (simp add: that(2) added(5) pb)
  have ok: "tables_ok (tabs (fst h2))" by (rule requests_extend(2) [OF P' assms(4)])
  obtain ws where ws: "GetActiveBuildersWithServiceCredentials x (URLParam r2 ''network'') (fst h2) = (Inr ws, fst h3)"
      "rs_Body w2 = json_print (JArr (map (enc_builder x (rq_Seed r2)) (map fromDomainBuilderWithServices ws)))"
    by (rule networked_served [OF assms(5,6)])
  let ?bs = "map fromDomainBuilderWithServices ws"
  let ?rows = "filter (\<lambda>b. br_IsActive b \<and> br_Network b = URLParam r2 ''network'') (builders (tabs (fst h2)))"
  note list = GetActiveBuilders_ok [OF ok ws(1)]
  have names: "set (map BC_Name ?bs) = br_Name ` set ?rows" by (rule listed_names [OF ok ws(1)])
  have network: "br_Network row' = PB_Network pb" if "row' \<in> set (builders (tabs (fst h2)))" "br_Name row' = PB_Name pb" for row'
    using same [OF that] added(6) pb by (simp add: identity_of_def)
  have "PB_Name pb \<in> set (map BC_Name ?bs) \<longleftrightarrow> PB_Network pb = URLParam r2 ''network'' \<and>
      (\<exists>row\<in>set (builders (tabs (fst h2))). br_IsActive row \<and> br_Name row = PB_Name pb)"
    unfolding names using network by (auto simp: image_iff)
  moreover have "BC_DNSName b = PB_DNSName pb \<and> (\<exists>ip. ParseIP (PB_IPAddress pb) = Some ip \<and> ParseIP (BC_IP b) = Some ip)"
    if b: "b \<in> set ?bs" "BC_Name b = PB_Name pb" for b
  proof -
    obtain v row' where v: "b = fromDomainBuilderWithServices v" "row' \<in> set (builders (tabs (fst h2)))"
        "shows_builder x (tabs (fst h2)) row' v"
      using b(1) list by auto
    then have "br_Name row' = PB_Name pb" using b(2) by (simp add: shows_builder_def fromDomainBuilderWithServices_def)
    from same [OF v(2) this] added(6) pb have row': "br_IPAddress row' = a" "NullString (br_DNSName row') = PB_DNSName pb"
      by (auto simp: identity_of_def NullString_def)
    then have "inet_scan x a = Some (B_IPAddress (BWS_Builder v))" using v(3) by (simp add: shows_builder_def)
    from printed_address [OF assms(8) added(3,2) this] show ?thesis
      using v(1,3) row'(2) added(2) pb by (simp add: fromDomainBuilderWithServices_def shows_builder_def)
  qed
  ultimately show ?thesis using listings_valid unfolding ws(2) by (intro exI [of _ ?bs]) blast
qed

lemma sample_inet_law:
  "\<forall>ip a ip'. inet_value sample_ext ip = Inr (Some a) \<longrightarrow> inet_scan sample_ext a = Some ip' \<longrightarrow> To16 ip' = To16 ip"
proof (intro allI impI)
  fix ip a ip' assume assms: "inet_value sample_ext ip = Inr (Some a)" "inet_scan sample_ext a = Some ip'"
  have prefix: "replicate 10 (CHR 0x00) @ [CHR 0xFF, CHR 0xFF] = v4InV6Prefix" by code_simp
  have "ip' = a" using assms(2) by (simp add: sample_ext_def)
  moreover have "ip = v4InV6Prefix @ drop 12 ip" if "take 12 ip = v4InV6Prefix" using that by (metis append_take_drop_id)
  ultimately show "To16 ip' = To16 ip"
    using assms(1) by (auto simp: sample_ext_def prefix To16_def split: if_splits)
qed

theorem added_builder_published_witness:
  "\<exists>bs. json_parse (rs_Body (fst (h_GetActiveBuildersNoAuthNetworked sample_ext (db_handler sample_ext inmem_accessor)
       (sample_request\<lparr>rq_Params := [(''network'', ''rbuilder'')]\<rparr>) NewResponse activated_state))) =
     Some (JArr (map (enc_builder sample_ext 5) bs)) \<and>
     (\<exists>b\<in>set bs. BC_Name b = ''beta'' \<and> ParseIP (BC_IP b) = Some beta_ip)"
proof -
  let ?r2 = "sample_request\<lparr>rq_Params := [(''network'', ''rbuilder'')]\<rparr>"
  let ?z = "h_GetActiveBuildersNoAuthNetworked sample_ext (db_handler sample_ext inmem_accessor) ?r2 NewResponse activated_state"
  have z: "?z = (fst ?z, fst (snd ?z), snd (snd ?z))" by simp
  have reach: "op_reachable sample_ext (fst sample_state, {''alpha''})" and sent: "sent_status NewResponse = 200"
    by (simp_all add: sample_state_def sample_db_op_reachable)
  have "sent_status (fst ?z) = 200" by code_simp
  from added_builder_published [OF reach added_request sent activated_requests z this publish_document(1) sample_inet_law]
  obtain bs where bs: "json_parse (rs_Body (fst ?z)) = Some (JArr (map (enc_builder sample_ext (rq_Seed ?r2)) bs))"
    "''beta'' \<in> set (map BC_Name bs) \<longleftrightarrow> ''rbuilder'' = URLParam ?r2 ''network'' \<and>
      (\<exists>row\<in>set (builders (tabs (fst activated_state))). br_IsActive row \<and> br_Name row = ''beta'')"
    "\<forall>b\<in>set bs. BC_Name b = ''beta'' \<longrightarrow> ParseIP (BC_IP b) = Some beta_ip"
    by (auto simp: publish_document(2))
  have "list_ex (\<lambda>row. br_IsActive row \<and> br_Name row = ''beta'') (builders (tabs (fst activated_state)))"
    "URLParam ?r2 ''network'' = ''rbuilder''" "rq_Seed ?r2 = 5" by code_simp+
  then obtain b where "b \<in> set bs" "BC_Name b = ''beta''" using bs(2) by (auto simp: list_ex_iff)
  with bs(1,3) \<open>rq_Seed ?r2 = 5\<close> show ?thesis by (intro exI [of _ bs] conjI bexI [of _ b]) simp_all
qed

end
