(* ===== verification/Hub_Onboarding.thy ===== *)
theory Hub_Onboarding
  imports Hub_Published
begin

text \<open>
  Bringing a builder online: on a database that answers, the three requests of an administrator
  that add a builder, configure it and activate it succeed, and a caller at the address of its
  document, when no other active builder has that address, is then taken for this builder with
  every accepted measurement and gets its secrets.
\<close>

section \<open>The three operations on a database that answers\<close>

definition new_builder :: "pBuilder \<Rightarrow> bytes \<Rightarrow> db \<Rightarrow> dbBuilder" where
  "new_builder pb a d = \<lparr>br_Name = PB_Name pb, br_IPAddress = a, br_IsActive = False, br_Network = PB_Network pb,
     br_DNSName = (if PB_DNSName pb \<noteq> [] then Some (PB_DNSName pb) else None), br_CreatedAt = db_now d,
     br_UpdatedAt = db_now d, br_DeprecatedAt = None\<rparr>"

lemma add_succeeds:
  assumes "db_faults (fst h) = []" "\<not> rq_ReadFails r"
    and "Unmarshal (dec_struct builder_fields) (rq_Body r) zero_builder = Inr pb" "PB_Network pb \<noteq> []"
    and "ParseIP (PB_IPAddress pb) = Some ip" "inet_value x ip = Inr (Some a)"
    and "list_all pg_text [PB_Name pb, PB_Network pb, PB_DNSName pb]" "varchar255 (PB_Name pb)"
    and "PB_Name pb \<notin> set (builder_names (tabs (fst h)))"
  shows "admin_AddBuilder x (db_admin x sec) r NewResponse h = (NewResponse, None,
    (fst h)\<lparr>tabs := (tabs (fst h))\<lparr>builders := builders (tabs (fst h)) @ [new_builder pb a (fst h)]\<rparr>\<rparr>, snd h)"
  using assms
  by (simp add: admin_AddBuilder_def ReadAll_def toDomainBuilder_def AddBuilder_def exec_no_fault checked_def
      insert_builder_def upd_tabs_def new_builder_def finish_def)

lemma configure_succeeds:
  assumes "tables_ok (tabs (fst h))" "db_faults (fst h) = []" "\<not> rq_ReadFails r" "json_Valid (rq_Body r)"
    and "pg_jsonb x (rq_Body r) = Some j" "pg_text n" "URLParam r ''builderName'' = n"
    and "n \<in> set (builder_names (tabs (fst h)))"
  obtains d where "admin_AddBuilderConfig x (db_admin x sec) r NewResponse h = (NewResponse, None, d, snd h)"
    "db_faults d = []" "builders (tabs d) = builders (tabs (fst h))"
    "measurements_whitelist (tabs d) = measurements_whitelist (tabs (fst h))" "configured (tabs d) n = Some j" "tables_ok (tabs d)"
proof -
  obtain d where d: "AddBuilderConfig x n (rq_Body r) (fst h) = (None, d)" "db_faults d = []"
    using AddBuilderConfig_succeeds [OF assms(1,2,8,6,5)] by blast
  have ok: "tables_ok (tabs d)" using keepsD [OF keeps_AddBuilderConfig assms(1)] d(1) by (metis snd_conv)
  show ?thesis
  proof (cases rule: AddBuilderConfig_cases [OF d(1)])
    case (2 row)
    have "configured (tabs d) n = Some j" using configured_replace [OF 2(2,3)] 2(1,4) assms(5) by simp
    moreover have "builders (tabs d) = builders (tabs (fst h))"
      "measurements_whitelist (tabs d) = measurements_whitelist (tabs (fst h))" by (simp_all add: 2(1) replace_config_def)
    ultimately show ?thesis
      using that d ok assms(3,4,7) by (simp add: admin_AddBuilderConfig_def ReadAll_def finish_def)
  qed simp
qed

lemma activate_succeeds:
  assumes "tables_ok (tabs (fst h))" "db_faults (fst h) = []" "decode_activation r = Inr act" "Enabled act"
    and "pg_text n" "URLParam r ''builderName'' = n" "configured (tabs (fst h)) n = Some j"
    and "row \<in> set (builders (tabs (fst h)))" "br_Name row = n" "br_DeprecatedAt row = None"
  obtains d where "admin_ChangeActiveStatusForBuilder x (db_admin x sec) r NewResponse h = (NewResponse, None, d, snd h)"
    "db_faults d = []" "builders (tabs d) = map (\<lambda>b. if br_Name b = n
       then b\<lparr>br_IsActive := True, br_UpdatedAt := db_now (fst h)\<rparr> else b) (builders (tabs (fst h)))"
    "measurements_whitelist (tabs d) = measurements_whitelist (tabs (fst h))"
proof -
  have only: "b = row" if "b \<in> set (builders (tabs (fst h)))" "br_Name b = n" for b
    using that assms(8,9) tables_okD(5) [OF assms(1)] by (metis distinct_map inj_onD)
  have cfg: "GetActiveConfigForBuilder n (fst h) = (Inr j, fst h)"
    using GetActiveConfigForBuilder_configured [OF assms(1,2,5)] assms(7) by simp
  have upd: "update_builder_active True n (fst h) = (None, upd_tabs (\<lambda>t. t\<lparr>builders := map (\<lambda>b. if br_Name b = n
      then b\<lparr>br_IsActive := True, br_UpdatedAt := db_now (fst h)\<rparr> else b) (builders t)\<rparr>) (fst h))" (is "_ = (None, ?d)")
    unfolding update_builder_active_def using only assms(10) by auto
  have reply: "admin_ChangeActiveStatusForBuilder x (db_admin x sec) r NewResponse h = (NewResponse, None, ?d, snd h)"
    using assms(3,4,6) cfg upd ChangeBuilder_no_fault [OF assms(2,5), of True]
    by (simp add: admin_ChangeActiveStatusForBuilder_def Let_def finish_def)
  show ?thesis by (rule that [OF reply]) (simp_all add: upd_tabs_def assms(2) del: if_image_distrib)
qed

section \<open>The caller at the address of one active builder\<close>

text \<open>When one active row has the address, the hub can return no other builder, and the request for
  the configuration is answered with the secrets of this builder.\<close>

lemma only_builder_authenticated:
  assumes "db_healthy x d" "pg_text (AD_AttestationType auth)" "inet_value x (AD_IP auth) = Inr (Some a)"
    and "db_allowed d (AD_AttestationType auth) t" "satisfies (AD_MeasurementData auth) t"
    and "row \<in> set (builders (tabs d))" "br_IsActive row" "br_IPAddress row = a" "convertBuilderToDomain x row = Inr b"
    and only: "\<And>r. r \<in> set (builders (tabs d)) \<Longrightarrow> br_IsActive r \<Longrightarrow> br_IPAddress r = a \<Longrightarrow> r = row"
  obtains n where "VerifyIPAndMeasurements (NewBuilderHub (database_accessor x) sa) k (AD_IP auth) (AD_MeasurementData auth)
    (AD_AttestationType auth) d = (Inr (b, n), d)"
proof -
  let ?v = "VerifyIPAndMeasurements (NewBuilderHub (database_accessor x) sa) k (AD_IP auth) (AD_MeasurementData auth)
    (AD_AttestationType auth) d"
  have ok: "tables_ok (tabs d)" and nf: "db_faults d = []" using assms(1) by (simp_all add: db_healthy_def)
  have at: "db_builder_at x d (AD_IP auth) b"
    unfolding db_builder_at_def using assms(3,6-9) by (intro bexI [of _ row]) simp_all
  have "\<exists>b' n. fst ?v = Inr (b', n)"
    by (rule dbh.Verify_complete [OF assms(1) _ assms(2) _ assms(4,5) at]) (simp_all add: assms(3))
  then obtain b' n d' where v: "?v = (Inr (b', n), d')" by (metis fst_conv surj_pair)
  have "db_builder_at x d (AD_IP auth) b'" using dbd.Verify_sound [OF ok _ v] by auto
  then obtain r where r: "r \<in> set (builders (tabs d))" "br_IsActive r" "br_IPAddress r = a" "convertBuilderToDomain x r = Inr b'"
    using assms(3) by (auto simp: db_builder_at_def)
  from only [OF r(1-3)] r(4) assms(9) have "b' = b" by simp
  with v Verify_no_faults [OF v nf] that show ?thesis by simp
qed

lemma only_builder_served:
  assumes "op_reachable x (fst h, P)" "db_healthy x (fst h)"
    and "getAuthData r = Inr auth" "pg_text (AD_AttestationType auth)" "inet_value x (AD_IP auth) = Inr (Some a)"
    and "db_authentic x h auth b n" "\<forall>b. \<exists>v s'. sa_GetSecretValues sa b (snd h) = (Ret (Inr v), s')"
    and only: "\<And>r. r \<in> set (builders (tabs (fst h))) \<Longrightarrow> br_IsActive r \<Longrightarrow> br_IPAddress r = a \<Longrightarrow> r = row"
  obtains w h' where "h_GetConfigSecrets (db_handler x sa) r NewResponse h = (w, None, h')" "sent_status w = 200"
    "fst (sa_GetSecretValues sa (br_Name row) (snd h)) = Ret (Inr (rs_Body w))"
proof -
  have "served P (tabs (fst h))" using op_reachable_inv [OF assms(1)] by simp
  from healthy_served [OF assms(2) this assms(3-6), of sa NewResponse] assms(7)
  obtain w h' where w: "h_GetConfigSecrets (db_handler x sa) r NewResponse h = (w, None, h')" "sent_status w = 200"
    by fastforce
  obtain auth' row' where row': "getAuthData r = Inr auth'" "row' \<in> set (builders (tabs (fst h)))" "br_IsActive row'"
      "inet_value x (AD_IP auth') = Inr (Some (br_IPAddress row'))"
      "sa_GetSecretValues sa (br_Name row') (snd h) = (Ret (Inr (rs_Body w)), snd h')"
    using GetConfigSecrets_served_rows [OF _ w] op_reachable_inv [OF assms(1)] by auto
  then have "row' = row" using assms(3,5) by (intro only) simp_all
  with row'(5) w that show ?thesis by simp
qed

section \<open>The three requests\<close>

definition active_row :: "pBuilder \<Rightarrow> bytes \<Rightarrow> db \<Rightarrow> nat \<Rightarrow> dbBuilder" where
  "active_row pb a d now = (new_builder pb a d)\<lparr>br_IsActive := True, br_UpdatedAt := now\<rparr>"

lemma active_row_sel:
  "br_IsActive (active_row pb a d now)" "br_IPAddress (active_row pb a d now) = a" "br_Name (active_row pb a d now) = PB_Name pb"
  by (simp_all add: active_row_def new_builder_def)

lemma active_row_domain:
  "inet_scan x a = Some ip' \<Longrightarrow> convertBuilderToDomain x (active_row pb a d now) =
     Inr \<lparr>B_Name = PB_Name pb, B_IPAddress = ip', B_IsActive = True, B_Network = PB_Network pb, B_DNSName = PB_DNSName pb\<rparr>"
  by (simp add: active_row_def new_builder_def convertBuilderToDomain_def NullString_def)

lemma onboarding_handlers:
  "admin_AddBuilderConfig x (db_admin x sec) \<in> set (system_handlers x sec)"
  "admin_ChangeActiveStatusForBuilder x (db_admin x sec) \<in> set (system_handlers x sec)"
  by (simp_all add: system_handlers_def Let_def)

text \<open>After the requests the new row is active, it is the only active one at its address, and
  everything can be read as before.\<close>

lemma onboarding:
  assumes "op_reachable x (fst h, P)" "db_healthy x (fst h)"
    and "\<not> rq_ReadFails r1" "Unmarshal (dec_struct builder_fields) (rq_Body r1) zero_builder = Inr pb" "PB_Network pb \<noteq> []"
    and "ParseIP (PB_IPAddress pb) = Some ip" "inet_value x ip = Inr (Some a)" "inet_scan x a = Some ip'"
    and "list_all pg_text [PB_Name pb, PB_Network pb, PB_DNSName pb]" "varchar255 (PB_Name pb)"
    and "PB_Name pb \<notin> set (builder_names (tabs (fst h)))"
    and "\<forall>row\<in>set (builders (tabs (fst h))). br_IsActive row \<longrightarrow> br_IPAddress row \<noteq> a"
    and "\<not> rq_ReadFails r2" "json_Valid (rq_Body r2)" "pg_jsonb x (rq_Body r2) = Some j" "URLParam r2 ''builderName'' = PB_Name pb"
    and "decode_activation r3 = Inr act" "Enabled act" "URLParam r3 ''builderName'' = PB_Name pb"
    and "admin_AddBuilder x (db_admin x sec) r1 NewResponse h = (w1, p1, h1)"
    and "admin_AddBuilderConfig x (db_admin x sec) r2 NewResponse h1 = (w2, p2, h2)"
    and "admin_ChangeActiveStatusForBuilder x (db_admin x sec) r3 NewResponse h2 = (w3, p3, h3)"
  obtains now P3 where "w1 = NewResponse" "w2 = NewResponse" "w3 = NewResponse" "op_reachable x (fst h3, P3)"
    "db_healthy x (fst h3)" "db_allowed (fst h3) = db_allowed (fst h)"
    "active_row pb a (fst h) now \<in> set (builders (tabs (fst h3)))"
    "\<And>r. r \<in> set (builders (tabs (fst h3))) \<Longrightarrow> br_IsActive r \<Longrightarrow> br_IPAddress r = a \<Longrightarrow> r = active_row pb a (fst h) now"
proof -
  let ?row = "new_builder pb a (fst h)" and ?n = "PB_Name pb"
  have nf: "db_faults (fst h) = []" using assms(2) by (simp add: db_healthy_def)
  note add = add_succeeds [OF nf assms(3-7,9-11), of sec]
  have h1: "w1 = NewResponse" "fst h1 = (fst h)\<lparr>tabs := (tabs (fst h))\<lparr>builders := builders (tabs (fst h)) @ [?row]\<rparr>\<rparr>"
    using add assms(20) by auto
  obtain P1 where r1: "op_reachable x (fst h1, P1)" by (rule request_reachable [OF assms(1) AddBuilder_handler assms(20)])
  then have ok1: "tables_ok (tabs (fst h1))" using op_reachable_inv by fastforce
  have t1: "db_faults (fst h1) = []" "builders (tabs (fst h1)) = builders (tabs (fst h)) @ [?row]"
      "measurements_whitelist (tabs (fst h1)) = measurements_whitelist (tabs (fst h))"
    using nf by (simp_all add: h1(2))
  then have n1: "?n \<in> set (builder_names (tabs (fst h1)))" by (simp add: new_builder_def)
  have pg: "pg_text ?n" using assms(9) by simp
  obtain d2 where d2: "admin_AddBuilderConfig x (db_admin x sec) r2 NewResponse h1 = (NewResponse, None, d2, snd h1)"
    "db_faults d2 = []" "builders (tabs d2) = builders (tabs (fst h1))"
    "measurements_whitelist (tabs d2) = measurements_whitelist (tabs (fst h1))"
    "configured (tabs d2) ?n = Some j" "tables_ok (tabs d2)"
    by (rule configure_succeeds [OF ok1 t1(1) assms(13-15) pg assms(16) n1])
  have h2: "w2 = NewResponse" "h2 = (d2, snd h1)" using d2(1) assms(21) by simp_all
  obtain P2 where r2: "op_reachable x (fst h2, P2)" by (rule request_reachable [OF r1 onboarding_handlers(1) assms(21)])
  have row: "br_Name ?row = ?n" "br_DeprecatedAt ?row = None" "?row \<in> set (builders (tabs d2))"
    using t1(2) d2(3) by (simp_all add: new_builder_def)
  obtain d3 where d3: "admin_ChangeActiveStatusForBuilder x (db_admin x sec) r3 NewResponse h2 = (NewResponse, None, d3, snd h2)"
    "db_faults d3 = []" "builders (tabs d3) = map (\<lambda>b. if br_Name b = ?n
       then b\<lparr>br_IsActive := True, br_UpdatedAt := db_now d2\<rparr> else b) (builders (tabs d2))"
    "measurements_whitelist (tabs d3) = measurements_whitelist (tabs d2)"
    by (rule activate_succeeds [of h2 r3 act ?n j ?row x sec])
      (use d2 row assms(17-19) pg in \<open>simp_all add: h2(2) del: if_image_distrib\<close>)
  have h3: "w3 = NewResponse" "fst h3 = d3" using d3(1) assms(22) by auto
  obtain P3 where r3: "op_reachable x (fst h3, P3)"
    by (rule request_reachable [OF r2 onboarding_handlers(2) assms(22)])
  let ?act = "active_row pb a (fst h) (db_now d2)"
  have old: "br_Name b \<noteq> ?n" if "b \<in> set (builders (tabs (fst h)))" for b
    using assms(11) that by (metis image_eqI list.set_map)
  have rows: "r = ?act \<or> r \<in> set (builders (tabs (fst h)))" if r: "r \<in> set (builders (tabs d3))" for r
  proof -
    obtain b where "b \<in> set (builders (tabs (fst h)) @ [?row])"
        "r = (if br_Name b = ?n then b\<lparr>br_IsActive := True, br_UpdatedAt := db_now d2\<rparr> else b)"
      using r unfolding d3(3) d2(3) t1(2) set_map by blast
    then show ?thesis using old row(1) by (auto simp: active_row_def)
  qed
  have act: "?act \<in> set (builders (tabs d3))"
    unfolding d3(3) set_map active_row_def by (rule image_eqI [OF _ row(3)]) (simp add: row(1))
  have wl: "measurements_whitelist (tabs d3) = measurements_whitelist (tabs (fst h))" by (simp add: d3(4) d2(4) t1(3))
  have "\<not> isl (convertBuilderToDomain x r)" if "r \<in> set (builders (tabs d3))" for r
    using rows [OF that] assms(2) active_row_domain [OF assms(8)] by (auto simp: db_healthy_def)
  moreover have "tables_ok (tabs d3)" using op_reachable_inv [OF r3] h3(2) by simp
  ultimately have "db_healthy x d3" using assms(2) d3(2) by (simp add: db_healthy_def wl)
  moreover have "db_allowed d3 = db_allowed (fst h)" by (simp add: db_allowed_def fun_eq_iff wl)
  moreover have "r = ?act" if "r \<in> set (builders (tabs d3))" "br_IsActive r" "br_IPAddress r = a" for r
    using rows [OF that(1)] that(2,3) assms(12) by blast
  ultimately show ?thesis
    using act by (intro that [of P3 "db_now d2"]) (simp_all add: h1(1) h2(1) h3 r3 [unfolded h3(2)])
qed

section \<open>Properties\<close>

text \<open>C14: A builder can be brought online: on a database that answers and whose rows can be read, adding
  a builder under a new name with a network and an IP address that no active builder has,
  configuring it with a JSON document and activating it are each answered with 200. Afterwards
  the hub takes every caller at that address with an accepted measurement, whatever order its
  maps have, for this builder and no other; and when the secret store answers, the request of
  such a caller for its configuration is answered with 200 and the secrets of this builder. (The
  address has to be free because the schema does not make it unique: of several active builders at
  one address the hub takes whichever row comes first.)\<close>

theorem builder_onboarded:
  assumes "op_reachable x (fst h, P)" "db_healthy x (fst h)"
    and "\<not> rq_ReadFails r1" "Unmarshal (dec_struct builder_fields) (rq_Body r1) zero_builder = Inr pb" "PB_Network pb \<noteq> []"
    and "ParseIP (PB_IPAddress pb) = Some ip" "inet_value x ip = Inr (Some a)" "inet_scan x a = Some ip'"
    and "list_all pg_text [PB_Name pb, PB_Network pb, PB_DNSName pb]" "varchar255 (PB_Name pb)"
    and "PB_Name pb \<notin> set (builder_names (tabs (fst h)))"
    and "\<forall>row\<in>set (builders (tabs (fst h))). br_IsActive row \<longrightarrow> br_IPAddress row \<noteq> a"
    and "\<not> rq_ReadFails r2" "json_Valid (rq_Body r2)" "pg_jsonb x (rq_Body r2) = Some j" "URLParam r2 ''builderName'' = PB_Name pb"
    and "decode_activation r3 = Inr act" "Enabled act" "URLParam r3 ''builderName'' = PB_Name pb"
    and "admin_AddBuilder x (db_admin x sec) r1 NewResponse h = (w1, p1, h1)"
    and "admin_AddBuilderConfig x (db_admin x sec) r2 NewResponse h1 = (w2, p2, h2)"
    and "admin_ChangeActiveStatusForBuilder x (db_admin x sec) r3 NewResponse h2 = (w3, p3, h3)"
  shows "sent_status w1 = 200 \<and> sent_status w2 = 200 \<and> sent_status w3 = 200 \<and>
    (\<forall>auth t. inet_value x (AD_IP auth) = Inr (Some a) \<longrightarrow> pg_text (AD_AttestationType auth) \<longrightarrow>
      db_allowed (fst h) (AD_AttestationType auth) t \<longrightarrow> satisfies (AD_MeasurementData auth) t \<longrightarrow>
      (\<forall>sa k. \<exists>n. VerifyIPAndMeasurements (NewBuilderHub (database_accessor x) sa) k (AD_IP auth) (AD_MeasurementData auth)
        (AD_AttestationType auth) (fst h3) = (Inr (\<lparr>B_Name = PB_Name pb, B_IPAddress = ip', B_IsActive = True,
          B_Network = PB_Network pb, B_DNSName = PB_DNSName pb\<rparr>, n), fst h3)) \<and>
      (\<forall>sa r. getAuthData r = Inr auth \<longrightarrow> (\<forall>b. \<exists>v s'. sa_GetSecretValues sa b (snd h3) = (Ret (Inr v), s')) \<longrightarrow>
        (\<exists>w h'. h_GetConfigSecrets (db_handler x sa) r NewResponse h3 = (w, None, h') \<and> sent_status w = 200 \<and>
          fst (sa_GetSecretValues sa (PB_Name pb) (snd h3)) = Ret (Inr (rs_Body w)))))"
proof -
  obtain now P3 where on: "w1 = NewResponse" "w2 = NewResponse" "w3 = NewResponse" "op_reachable x (fst h3, P3)"
    "db_healthy x (fst h3)" "db_allowed (fst h3) = db_allowed (fst h)"
    "active_row pb a (fst h) now \<in> set (builders (tabs (fst h3)))"
    "\<And>r. r \<in> set (builders (tabs (fst h3))) \<Longrightarrow> br_IsActive r \<Longrightarrow> br_IPAddress r = a \<Longrightarrow> r = active_row pb a (fst h) now"
    by (rule onboarding [OF assms]) blast
  let ?row = "active_row pb a (fst h) now"
  let ?b = "\<lparr>B_Name = PB_Name pb, B_IPAddress = ip', B_IsActive = True, B_Network = PB_Network pb, B_DNSName = PB_DNSName pb\<rparr>"
  note row = active_row_sel [of pb a "fst h" now] active_row_domain [OF assms(8), of pb "fst h" now]
  have v: "\<exists>n. VerifyIPAndMeasurements (NewBuilderHub (database_accessor x) sa) k (AD_IP auth) (AD_MeasurementData auth)
      (AD_AttestationType auth) (fst h3) = (Inr (?b, n), fst h3)"
    if "inet_value x (AD_IP auth) = Inr (Some a)" "pg_text (AD_AttestationType auth)"
      "db_allowed (fst h) (AD_AttestationType auth) t" "satisfies (AD_MeasurementData auth) t" for auth t sa k
    by (rule only_builder_authenticated [OF on(5) that(2,1) that(3) [folded on(6)] that(4) on(7) row(1,2,4) on(8)]) blast+
  have c: "\<exists>w h'. h_GetConfigSecrets (db_handler x sa) r NewResponse h3 = (w, None, h') \<and> sent_status w = 200 \<and>
      fst (sa_GetSecretValues sa (PB_Name pb) (snd h3)) = Ret (Inr (rs_Body w))"
    if a: "inet_value x (AD_IP auth) = Inr (Some a)" "pg_text (AD_AttestationType auth)"
      "db_allowed (fst h) (AD_AttestationType auth) t" "satisfies (AD_MeasurementData auth) t"
      "getAuthData r = Inr auth" "\<forall>b. \<exists>v s'. sa_GetSecretValues sa b (snd h3) = (Ret (Inr v), s')" for auth t sa r
  proof -
    have "db_builder_at x (fst h3) (AD_IP auth) ?b"
      unfolding db_builder_at_def by (rule bexI [OF _ on(7)]) (simp add: row a(1))
    then have auth: "db_authentic x h3 auth ?b (M_Name t)"
      unfolding db_authentic_def using a(3,4) on(6) by auto
    show ?thesis
      by (rule only_builder_served [where row = ?row, OF on(4,5) a(5,2,1) auth a(6) on(8)]) (auto simp: row(3))
  qed
  show ?thesis using v c on(1-3) by simp blast
qed

text \<open>The request of the new builder.\<close>

definition beta_request :: request where
  "beta_request = sample_request\<lparr>rq_Header := [(AttestationTypeHeader, [''azure-tdx'']),
     (MeasurementHeader, [''{\"4\":\"ab\"}'']), (ForwardedHeader, [''1:2:0:0:0:0:0:3''])]\<rparr>"

theorem builder_onboarded_witness:
  "(\<exists>n. VerifyIPAndMeasurements (NewBuilderHub (database_accessor sample_ext) inmem_accessor) 0 beta_ip [(''4'', ''ab'')]
     ''azure-tdx'' (fst activated_state) = (Inr (\<lparr>B_Name = ''beta'', B_IPAddress = beta_ip, B_IsActive = True,
       B_Network = ''rbuilder'', B_DNSName = []\<rparr>, n), fst activated_state)) \<and>
   (\<exists>w h'. h_GetConfigSecrets (db_handler sample_ext inmem_accessor) beta_request NewResponse activated_state = (w, None, h') \<and>
     sent_status w = 200)"
proof -
  let ?c = "admin_AddBuilderConfig sample_ext sample_admin configure_request NewResponse added_state"
  let ?z = "admin_ChangeActiveStatusForBuilder sample_ext sample_admin (activate_request ''beta'') NewResponse (snd (snd ?c))"
  let ?auth = "\<lparr>AD_AttestationType = ''azure-tdx'', AD_MeasurementData = [(''4'', ''ab'')], AD_IP = beta_ip\<rparr>"
  have reach: "op_reachable sample_ext (fst sample_state, {''alpha''})" by (simp add: sample_state_def sample_db_op_reachable)
  have start: "db_healthy sample_ext (fst sample_state)" "\<not> rq_ReadFails publish_request" by code_simp+
  let ?pb = "\<lparr>PB_Name = ''beta'', PB_DNSName = [], PB_IPAddress = ''1:2:0:0:0:0:0:3'', PB_Network = ''rbuilder''\<rparr>"
  have doc: "PB_Network ?pb \<noteq> []" "ParseIP (PB_IPAddress ?pb) = Some beta_ip" using publish_document(2) by simp_all
  have inet: "inet_value sample_ext beta_ip = Inr (Some beta_ip)" "inet_scan sample_ext beta_ip = Some beta_ip" by code_simp+
  have fresh: "list_all pg_text [PB_Name ?pb, PB_Network ?pb, PB_DNSName ?pb]" "varchar255 (PB_Name ?pb)"
    "PB_Name ?pb \<notin> set (builder_names (tabs (fst sample_state)))"
    "\<forall>row\<in>set (builders (tabs (fst sample_state))). br_IsActive row \<longrightarrow> br_IPAddress row \<noteq> beta_ip" by code_simp+
  have conf: "\<not> rq_ReadFails configure_request" "json_Valid (rq_Body configure_request)"
    "pg_jsonb sample_ext (rq_Body configure_request) = Some ''{}''" "URLParam configure_request ''builderName'' = PB_Name ?pb" by code_simp+
  have act: "decode_activation (activate_request ''beta'') = Inr \<lparr>Enabled = True\<rparr>" "Enabled \<lparr>Enabled = True\<rparr>"
    "URLParam (activate_request ''beta'') ''builderName'' = PB_Name ?pb" by code_simp+
  have c: "?c = (fst ?c, fst (snd ?c), snd (snd ?c))" and z: "?z = (fst ?z, fst (snd ?z), activated_state)"
    by (simp_all add: activated_state_def)
  have allowed: "db_allowed (fst sample_state) (AD_AttestationType ?auth) sample_measurement"
    "satisfies (AD_MeasurementData ?auth) sample_measurement" "pg_text (AD_AttestationType ?auth)"
    "inet_value sample_ext (AD_IP ?auth) = Inr (Some beta_ip)" by code_simp+
  have auth: "getAuthData beta_request = Inr ?auth" by code_simp
  have secrets: "\<forall>b. \<exists>v s'. sa_GetSecretValues inmem_accessor b (snd activated_state) = (Ret (Inr v), s')"
    by (simp add: inmem_accessor_def inmem_GetSecretValues_def)
  note onboarded = builder_onboarded [OF reach start publish_document(1) doc inet fresh conf act
      added_request c z,
      THEN conjunct2, THEN conjunct2, THEN conjunct2, THEN spec, THEN spec, THEN mp, THEN mp, THEN mp, THEN mp,
      OF allowed(4,3,1,2)]
  note hub = onboarded [THEN conjunct1, THEN spec, THEN spec, of inmem_accessor 0]
  note served = onboarded [THEN conjunct2, THEN spec, THEN spec, THEN mp, THEN mp, OF auth secrets]
  from hub show ?thesis
    using served by (intro conjI; simp) blast
qed

end
