(* ===== verification/Schema_Migrations.thy ===== *)
theory Schema_Migrations
  imports Database_Inv
begin

text \<open>
  The directory \<open>schema\<close>: the tables as \<open>000_init.sql\<close> creates them and the migrations
  \<open>001\<close> to \<open>004\<close> that lead to the tables the service works on. The rows before the migrations
  lack the columns that are added later. The columns that name a builder are nullable in the
  schema and never null in what the service writes; rows with a null there are not modelled.
\<close>

section \<open>The tables of 000_init.sql\<close>

record builder_000 =
  b0_name :: bytes
  b0_ip_address :: bytes
  b0_is_active :: bool
  b0_created_at :: nat
  b0_updated_at :: nat
  b0_deprecated_at :: "nat option"

record registration_000 =
  r0_id :: nat
  r0_builder_name :: bytes
  r0_service :: bytes
  r0_tls_cert :: "bytes option"
  r0_ecdsa_pubkey :: bytes
  r0_is_active :: bool
  r0_created_at :: nat
  r0_deprecated_at :: "nat option"
  r0_measurement_id :: "nat option"

record ('b, 'r) tables_at =
  at_builders :: "'b list"
  at_measurements :: "dbMeasurement list"
  at_registrations :: "'r list"
  at_configs :: "BuilderConfig list"
  at_events :: "event_row list"

text \<open>The constraints: keys, the unique name and type of a measurement, one active registration and
  configuration, references, and that deprecated rows are not active.\<close>

definition reference_ok :: "dbMeasurement list \<Rightarrow> nat option \<Rightarrow> bool" where
  "reference_ok ms r = (case r of None \<Rightarrow> True | Some i \<Rightarrow> i \<in> set (map mr_ID ms))"

definition schema_000 :: "(builder_000, registration_000) tables_at \<Rightarrow> bool" where
  "schema_000 t \<longleftrightarrow>
     (let names = map b0_name (at_builders t); ms = at_measurements t in
      distinct names \<and> (\<forall>n\<in>set names. varchar255 n) \<and>
      distinct (map (\<lambda>m. (mr_Name m, mr_AttestationType m)) ms) \<and>
      distinct (map (\<lambda>r. (r0_builder_name r, r0_service r)) (filter r0_is_active (at_registrations t))) \<and>
      distinct (map cr_BuilderName (filter cr_IsActive (at_configs t))) \<and>
      (\<forall>r\<in>set (at_registrations t). r0_builder_name r \<in> set names \<and> reference_ok ms (r0_measurement_id r)) \<and>
      (\<forall>c\<in>set (at_configs t). cr_BuilderName c \<in> set names) \<and>
      (\<forall>e\<in>set (at_events t). er_BuilderName e \<in> set names \<and> reference_ok ms (er_MeasurementID e)) \<and>
      (\<forall>b\<in>set (at_builders t). b0_is_active b \<longrightarrow> b0_deprecated_at b = None) \<and>
      (\<forall>m\<in>set ms. mr_IsActive m \<longrightarrow> mr_DeprecatedAt m = None) \<and>
      (\<forall>r\<in>set (at_registrations t). r0_is_active r \<longrightarrow> r0_deprecated_at r = None))"

definition init_000 :: "(builder_000, registration_000) tables_at" where
  "init_000 = \<lparr>at_builders = [], at_measurements = [], at_registrations = [], at_configs = [], at_events = []\<rparr>"

section \<open>The migrations\<close>

text \<open>\<open>001\<close> makes the name of a measurement unique; adding the constraint fails on duplicates.\<close>

definition migration_001 :: "('b, 'r) tables_at \<Rightarrow> ('b, 'r) tables_at option" where
  "migration_001 t = (if distinct (map mr_Name (at_measurements t)) then Some t else None)"

text \<open>\<open>002\<close>, \<open>003\<close> and \<open>004\<close> add a column, with its default in the rows that exist.\<close>

record builder_002 = builder_000 +
  b2_network :: bytes

record builder_003 = builder_002 +
  b3_dns_name :: "bytes option"

record registration_004 = registration_000 +
  r4_region :: bytes

definition on_builders :: "('b \<Rightarrow> 'c) \<Rightarrow> ('b, 'r) tables_at \<Rightarrow> ('c, 'r) tables_at" where
  "on_builders f t = \<lparr>at_builders = map f (at_builders t), at_measurements = at_measurements t,
     at_registrations = at_registrations t, at_configs = at_configs t, at_events = at_events t\<rparr>"

definition on_registrations :: "('r \<Rightarrow> 'q) \<Rightarrow> ('b, 'r) tables_at \<Rightarrow> ('b, 'q) tables_at" where
  "on_registrations f t = \<lparr>at_builders = at_builders t, at_measurements = at_measurements t,
     at_registrations = map f (at_registrations t), at_configs = at_configs t, at_events = at_events t\<rparr>"

definition migration_002 :: "(builder_000, 'r) tables_at \<Rightarrow> (builder_002, 'r) tables_at" where
  "migration_002 = on_builders (\<lambda>b. builder_000.extend b (builder_002.fields ''production''))"

definition migration_003 :: "(builder_002, 'r) tables_at \<Rightarrow> (builder_003, 'r) tables_at" where
  "migration_003 = on_builders (\<lambda>b. builder_002.extend (builder_002.truncate b) (builder_003.fields None))"

definition migration_004 :: "('b, registration_000) tables_at \<Rightarrow> ('b, registration_004) tables_at" where
  "migration_004 = on_registrations (\<lambda>r. registration_000.extend r (registration_004.fields []))"

text \<open>The rows as the service reads them.\<close>

definition to_builder :: "builder_003 \<Rightarrow> dbBuilder" where
  "to_builder b = \<lparr>br_Name = b0_name b, br_IPAddress = b0_ip_address b, br_IsActive = b0_is_active b,
     br_Network = b2_network b, br_DNSName = b3_dns_name b, br_CreatedAt = b0_created_at b,
     br_UpdatedAt = b0_updated_at b, br_DeprecatedAt = b0_deprecated_at b\<rparr>"

definition to_registration :: "registration_004 \<Rightarrow> ServiceCredentialRegistration" where
  "to_registration r = \<lparr>sr_ID = r0_id r, sr_BuilderName = r0_builder_name r, sr_Service = r0_service r,
     sr_TLSCert = r0_tls_cert r, sr_ECDSAPubKey = r0_ecdsa_pubkey r, sr_IsActive = r0_is_active r,
     sr_CreatedAt = r0_created_at r, sr_DeprecatedAt = r0_deprecated_at r,
     sr_MeasurementID = r0_measurement_id r, sr_Region = r4_region r\<rparr>"

definition to_tables :: "(builder_003, registration_004) tables_at \<Rightarrow> tables" where
  "to_tables t = \<lparr>builders = map to_builder (at_builders t), measurements_whitelist = at_measurements t,
     service_credential_registrations = map to_registration (at_registrations t),
     builder_configs = at_configs t, event_log = at_events t\<rparr>"

definition migrate :: "(builder_000, registration_000) tables_at \<Rightarrow> tables option" where
  "migrate t = map_option (\<lambda>t. to_tables (migration_004 (migration_003 (migration_002 t)))) (migration_001 t)"

section \<open>What the migrations do\<close>

lemmas migration_defs = migration_002_def migration_003_def migration_004_def on_builders_def on_registrations_def
  to_tables_def

text \<open>The rows of a builder and of a registration after all migrations.\<close>

definition migrated_builder :: "builder_000 \<Rightarrow> dbBuilder" where
  "migrated_builder b = \<lparr>br_Name = b0_name b, br_IPAddress = b0_ip_address b, br_IsActive = b0_is_active b,
     br_Network = ProductionNetwork, br_DNSName = None, br_CreatedAt = b0_created_at b,
     br_UpdatedAt = b0_updated_at b, br_DeprecatedAt = b0_deprecated_at b\<rparr>"

definition migrated_registration :: "registration_000 \<Rightarrow> ServiceCredentialRegistration" where
  "migrated_registration r = \<lparr>sr_ID = r0_id r, sr_BuilderName = r0_builder_name r, sr_Service = r0_service r,
     sr_TLSCert = r0_tls_cert r, sr_ECDSAPubKey = r0_ecdsa_pubkey r, sr_IsActive = r0_is_active r,
     sr_CreatedAt = r0_created_at r, sr_DeprecatedAt = r0_deprecated_at r,
     sr_MeasurementID = r0_measurement_id r, sr_Region = []\<rparr>"

lemma migrated_sel [simp]:
  "br_Name (migrated_builder b) = b0_name b" "br_IsActive (migrated_builder b) = b0_is_active b"
  "br_Network (migrated_builder b) = ProductionNetwork" "br_DNSName (migrated_builder b) = None"
  "br_DeprecatedAt (migrated_builder b) = b0_deprecated_at b"
  "cred_key (migrated_registration r) = (r0_builder_name r, r0_service r)"
  "sr_BuilderName (migrated_registration r) = r0_builder_name r" "sr_IsActive (migrated_registration r) = r0_is_active r"
  "sr_DeprecatedAt (migrated_registration r) = r0_deprecated_at r"
  "sr_MeasurementID (migrated_registration r) = r0_measurement_id r" "sr_Region (migrated_registration r) = []"
  by (simp_all add: migrated_builder_def migrated_registration_def cred_key_def)

lemma migrate_Some:
  assumes "migrate t = Some t'"
  shows "distinct (map mr_Name (at_measurements t))"
    "t' = \<lparr>builders = map migrated_builder (at_builders t), measurements_whitelist = at_measurements t,
       service_credential_registrations = map migrated_registration (at_registrations t),
       builder_configs = at_configs t, event_log = at_events t\<rparr>"
  using assms
  by (auto simp: migrate_def migration_001_def migration_defs comp_def to_builder_def to_registration_def
      migrated_builder_def migrated_registration_def ProductionNetwork_def builder_000.defs builder_002.defs
      builder_003.defs registration_000.defs registration_004.defs split: if_splits)

lemma active_migrated: "filter sr_IsActive (map migrated_registration rs) = map migrated_registration (filter r0_is_active rs)"
  by (induction rs) auto

lemma migrate_schema_ok:
  assumes "schema_000 t" "migrate t = Some t'"
  shows "schema_ok t'"
proof -
  have ref: "known_measurement t' r = reference_ok (at_measurements t) r" for r
    by (simp add: known_measurement_def reference_ok_def migrate_Some(2) [OF assms(2)] split: option.split)
  show ?thesis
    using assms(1) migrate_Some(1) [OF assms(2)] ref
    by (simp add: schema_000_def schema_ok_def Let_def active_creds_def active_configs_def active_migrated comp_def
        migrate_Some(2) [OF assms(2)])
qed

text \<open>Whatever was registered or configured has an active row, before and after.\<close>

definition covered_000 :: "(builder_000, registration_000) tables_at \<Rightarrow> bool" where
  "covered_000 t \<longleftrightarrow>
     (\<forall>r\<in>set (at_registrations t). \<exists>a\<in>set (at_registrations t). r0_is_active a \<and>
        r0_builder_name a = r0_builder_name r \<and> r0_service a = r0_service r) \<and>
     (\<forall>c\<in>set (at_configs t). \<exists>a\<in>set (at_configs t). cr_IsActive a \<and> cr_BuilderName a = cr_BuilderName c)"

lemma migrate_covered:
  assumes "covered_000 t" "migrate t = Some t'"
  shows "covered t'"
proof -
  note eq = migrate_Some(2) [OF assms(2)]
  have creds: "active_creds t' = map migrated_registration (filter r0_is_active (at_registrations t))"
    "active_configs t' = filter cr_IsActive (at_configs t)"
    by (simp_all add: active_creds_def active_configs_def eq active_migrated)
  have "cred_key (migrated_registration r) \<in> set (map cred_key (active_creds t'))" if r: "r \<in> set (at_registrations t)" for r
  proof -
    obtain a where "a \<in> set (at_registrations t)" "r0_is_active a" "r0_builder_name a = r0_builder_name r" "r0_service a = r0_service r"
      using assms(1) r unfolding covered_000_def by blast
    then show ?thesis unfolding creds by (simp add: image_iff) metis
  qed
  moreover have "cr_BuilderName c \<in> set (map cr_BuilderName (active_configs t'))" if c: "c \<in> set (at_configs t)" for c
  proof -
    obtain a where "a \<in> set (at_configs t)" "cr_IsActive a" "cr_BuilderName a = cr_BuilderName c"
      using assms(1) c unfolding covered_000_def by blast
    then show ?thesis unfolding creds by (simp add: image_iff) metis
  qed
  ultimately show ?thesis by (simp add: covered_def eq)
qed

lemma unordered_pair:
  "(\<exists>i<n. \<exists>j<n. i \<noteq> j \<and> f i = f j) \<longleftrightarrow> (\<exists>i<(n :: nat). \<exists>j<i. f i = f j)"
proof
  assume "\<exists>i<n. \<exists>j<n. i \<noteq> j \<and> f i = f j"
  then obtain i j where ij: "i < n" "j < n" "i \<noteq> j" "f i = f j" by blast
  show "\<exists>i<n. \<exists>j<i. f i = f j"
  proof (cases "j < i")
    case True
    with ij show ?thesis by blast
  next
    case False
    with ij have "i < j" "f j = f i" by simp_all
    with ij(2) show ?thesis by blast
  qed
next
  assume "\<exists>i<n. \<exists>j<i. f i = f j"
  then obtain i j where "i < n" "j < i" "f i = f j" by blast
  then have "j < n" "i \<noteq> j" by simp_all
  with \<open>i < n\<close> \<open>f i = f j\<close> show "\<exists>i<n. \<exists>j<n. i \<noteq> j \<and> f i = f j" by blast
qed

text \<open>Measurements of one name have different types before the migrations, and stop them.\<close>

lemma migrate_None:
  assumes "schema_000 t"
  shows "migrate t = None \<longleftrightarrow> (\<exists>i<length (at_measurements t). \<exists>j<i.
      mr_Name (at_measurements t ! i) = mr_Name (at_measurements t ! j) \<and>
      mr_AttestationType (at_measurements t ! i) \<noteq> mr_AttestationType (at_measurements t ! j))"
proof -
  let ?ms = "at_measurements t"
  have types: "mr_AttestationType (?ms ! i) \<noteq> mr_AttestationType (?ms ! j)"
    if "i < length ?ms" "j < i" "mr_Name (?ms ! i) = mr_Name (?ms ! j)" for i j
  proof -
    have "distinct (map (\<lambda>m. (mr_Name m, mr_AttestationType m)) ?ms)" using assms by (simp add: schema_000_def Let_def)
    from nth_eq_iff_index_eq [OF this, of i j] that show ?thesis by auto
  qed
  have "migrate t = None \<longleftrightarrow> \<not> distinct (map mr_Name ?ms)" by (simp add: migrate_def migration_001_def)
  also have "\<dots> \<longleftrightarrow> (\<exists>i<length ?ms. \<exists>j<length ?ms. i \<noteq> j \<and> mr_Name (?ms ! i) = mr_Name (?ms ! j))"
    by (auto simp: distinct_conv_nth)
  also have "\<dots> \<longleftrightarrow> (\<exists>i<length ?ms. \<exists>j<i. mr_Name (?ms ! i) = mr_Name (?ms ! j))"
    by (rule unordered_pair)
  also have "\<dots> \<longleftrightarrow> (\<exists>i<length ?ms. \<exists>j<i. mr_Name (?ms ! i) = mr_Name (?ms ! j) \<and>
      mr_AttestationType (?ms ! i) \<noteq> mr_AttestationType (?ms ! j))"
    using types by blast
  finally show ?thesis .
qed

text \<open>All columns of all tables after the migrations.\<close>

lemma migrate_rows:
  assumes "migrate t = Some t'"
  shows "t' = \<lparr>builders = map (\<lambda>b. \<lparr>br_Name = b0_name b, br_IPAddress = b0_ip_address b, br_IsActive = b0_is_active b,
            br_Network = ''production'', br_DNSName = None, br_CreatedAt = b0_created_at b,
            br_UpdatedAt = b0_updated_at b, br_DeprecatedAt = b0_deprecated_at b\<rparr>) (at_builders t),
          measurements_whitelist = at_measurements t,
          service_credential_registrations = map (\<lambda>r. \<lparr>sr_ID = r0_id r, sr_BuilderName = r0_builder_name r,
            sr_Service = r0_service r, sr_TLSCert = r0_tls_cert r, sr_ECDSAPubKey = r0_ecdsa_pubkey r,
            sr_IsActive = r0_is_active r, sr_CreatedAt = r0_created_at r, sr_DeprecatedAt = r0_deprecated_at r,
            sr_MeasurementID = r0_measurement_id r, sr_Region = []\<rparr>) (at_registrations t),
          builder_configs = at_configs t, event_log = at_events t\<rparr>"
  by (simp add: migrate_Some(2) [OF assms] migrated_builder_def migrated_registration_def ProductionNetwork_def)

section \<open>Properties\<close>

text \<open>C30: The migrations: on tables that satisfy the first schema they fail exactly when two
  measurements share a name (with different attestation types); otherwise the tables satisfy the
  constraints that the service relies on, every builder is in the production network and without
  a DNS name, every registration without a region, and every other column of every row and the
  other three tables are as before; a database whose
  registrations and configurations have active rows keeps the whole invariant of the service, and
  an empty one becomes the empty database that the service starts from.\<close>

theorem migrations_establish_schema:
  assumes "schema_000 t"
  shows "(migrate t = None \<longleftrightarrow> (\<exists>i<length (at_measurements t). \<exists>j<i.
      mr_Name (at_measurements t ! i) = mr_Name (at_measurements t ! j) \<and>
      mr_AttestationType (at_measurements t ! i) \<noteq> mr_AttestationType (at_measurements t ! j))) \<and>
    (\<forall>t'. migrate t = Some t' \<longrightarrow> schema_ok t' \<and> (covered_000 t \<longrightarrow> tables_ok t') \<and>
      t' = \<lparr>builders = map (\<lambda>b. \<lparr>br_Name = b0_name b, br_IPAddress = b0_ip_address b, br_IsActive = b0_is_active b,
            br_Network = ''production'', br_DNSName = None, br_CreatedAt = b0_created_at b,
            br_UpdatedAt = b0_updated_at b, br_DeprecatedAt = b0_deprecated_at b\<rparr>) (at_builders t),
          measurements_whitelist = at_measurements t,
          service_credential_registrations = map (\<lambda>r. \<lparr>sr_ID = r0_id r, sr_BuilderName = r0_builder_name r,
            sr_Service = r0_service r, sr_TLSCert = r0_tls_cert r, sr_ECDSAPubKey = r0_ecdsa_pubkey r,
            sr_IsActive = r0_is_active r, sr_CreatedAt = r0_created_at r, sr_DeprecatedAt = r0_deprecated_at r,
            sr_MeasurementID = r0_measurement_id r, sr_Region = []\<rparr>) (at_registrations t),
          builder_configs = at_configs t, event_log = at_events t\<rparr>) \<and>
    migrate init_000 = Some empty_tables"
proof (intro conjI allI impI)
  show "migrate t = None \<longleftrightarrow> (\<exists>i<length (at_measurements t). \<exists>j<i.
      mr_Name (at_measurements t ! i) = mr_Name (at_measurements t ! j) \<and>
      mr_AttestationType (at_measurements t ! i) \<noteq> mr_AttestationType (at_measurements t ! j))"
    by (rule migrate_None [OF assms])
  show "schema_ok t'" if "migrate t = Some t'" for t' by (rule migrate_schema_ok [OF assms that])
  show "tables_ok t'" if "migrate t = Some t'" "covered_000 t" for t'
    using migrate_schema_ok [OF assms that(1)] migrate_covered [OF that(2,1)] by (simp add: tables_ok_def)
  show "migrate init_000 = Some empty_tables"
    by (simp add: migrate_def migration_001_def init_000_def migration_defs empty_tables_def)
qed (erule migrate_rows)

text \<open>A database of the first version with one builder and the same measurement for two types.\<close>

definition sample_000 :: "bytes \<Rightarrow> (builder_000, registration_000) tables_at" where
  "sample_000 n = \<lparr>at_builders = [\<lparr>b0_name = ''alpha'', b0_ip_address = [], b0_is_active = True, b0_created_at = 1,
       b0_updated_at = 1, b0_deprecated_at = None\<rparr>],
     at_measurements = [\<lparr>mr_ID = 1, mr_Name = ''m1'', mr_AttestationType = ''azure-tdx'', mr_Measurement = ''{}'', mr_IsActive = True,
         mr_CreatedAt = 1, mr_UpdatedAt = 1, mr_DeprecatedAt = None\<rparr>,
       \<lparr>mr_ID = 2, mr_Name = n, mr_AttestationType = ''gcp-tdx'', mr_Measurement = ''{}'', mr_IsActive = True,
         mr_CreatedAt = 1, mr_UpdatedAt = 1, mr_DeprecatedAt = None\<rparr>],
     at_registrations = [\<lparr>r0_id = 1, r0_builder_name = ''alpha'', r0_service = ''proxy'', r0_tls_cert = None, r0_ecdsa_pubkey = [],
       r0_is_active = True, r0_created_at = 1, r0_deprecated_at = None, r0_measurement_id = Some 1\<rparr>],
     at_configs = [], at_events = []\<rparr>"

theorem migrations_establish_schema_witness:
  "migrate (sample_000 ''m1'') = None \<and> (\<exists>t'. migrate (sample_000 ''m2'') = Some t' \<and> tables_ok t' \<and>
     map sr_Region (service_credential_registrations t') = [[]])"
proof -
  have v: "varchar255 ''alpha''" by code_simp
  have s: "schema_000 (sample_000 n)" for n by (simp add: schema_000_def sample_000_def reference_ok_def Let_def v)
  have c: "covered_000 (sample_000 n)" for n by (simp add: covered_000_def sample_000_def)
  have "\<exists>i<length (at_measurements (sample_000 ''m1'')). \<exists>j<i. mr_Name (at_measurements (sample_000 ''m1'') ! i) =
      mr_Name (at_measurements (sample_000 ''m1'') ! j) \<and> mr_AttestationType (at_measurements (sample_000 ''m1'') ! i) \<noteq>
      mr_AttestationType (at_measurements (sample_000 ''m1'') ! j)"
    by (intro exI [of _ 1] conjI exI [of _ 0]) (simp_all add: sample_000_def)
  then have "migrate (sample_000 ''m1'') = None"
    by (rule migrations_establish_schema [OF s [of "''m1''"], THEN conjunct1, THEN iffD2])
  moreover obtain t' where t': "migrate (sample_000 ''m2'') = Some t'"
    by (simp add: migrate_def migration_001_def sample_000_def)
  moreover have "tables_ok t'"
    by (rule migrations_establish_schema [OF s [of "''m2''"], THEN conjunct2, THEN conjunct1, rule_format, OF t',
          THEN conjunct2, THEN conjunct1, rule_format, OF c])
  moreover have "map sr_Region (service_credential_registrations t') = [[]]"
    by (simp add: migrate_Some(2) [OF t'] sample_000_def)
  ultimately show ?thesis by (intro conjI exI [of _ t'])
qed

end
