(* ===== verification/Spec2Isabelle.thy ===== *)
theory Spec2Isabelle
  imports Main_Cli Metrics_Router Hub_Onboarding Schema_Migrations
begin

text \<open>
  BuilderHub: the registry that gives block builders, identified by their address and by the
  measurement of the image they run, their configuration and secrets, and that records the
  credentials they register. This library models the Go code under \<open>src/\<close> and proves what
  makes it correct.

  \<^bold>\<open>The program.\<close> A builder's request comes through a proxy that attests it and adds the headers
  for the attestation type, the measurements and the forwarded address. The router
  (\<open>httpserver\<close>) passes it to a handler of \<open>ports/http_handler.go\<close>, which reads these headers
  and asks the hub (\<open>application/service.go\<close>) to verify them against the tables of the
  database (\<open>adapters/database\<close>, \<open>schema\<close>). A verified builder gets its secrets from the secret
  backend (\<open>adapters/secrets\<close> or the in-memory store of \<open>domain\<close>), the list of active
  builders of its network, or registers credentials. Administrators use a router of their own
  with Basic authentication and the handlers of \<open>ports/admin_handler.go\<close> to add, configure and
  activate builders and measurements and to set secrets. \<open>cmd/httpserver/main.go\<close> reads the
  flags, chooses the backend, connects the parts, and runs and stops the servers.

  \<^bold>\<open>Theories\<close>, in the order of their imports:

  \<^item> \<open>Prelude\<close>: byte strings, errors with wrapping, results, maps with an unspecified iteration
    order (\<open>permute\<close>), the record \<open>ext\<close> of the external functions, shared list lemmas.
  \<^item> \<open>Go_Strings\<close>, \<open>Json_Lex\<close>, \<open>Json_Syntax\<close>, \<open>Json_Values\<close>, \<open>Json_Raw\<close>: what the code uses of
    \<open>strings\<close>, \<open>strconv\<close>, \<open>unicode/utf8\<close> and \<open>encoding/json\<close> (scanner with the nesting limit
    10000, decoding into structs with case folding, HTML escaping, raw members). A printed
    document is read back (\<open>json_parse_print\<close>), a quoted string is unquoted (\<open>unquote_quote\<close>),
    and a map of raw members survives (\<open>raw_map_roundtrip\<close>).
  \<^item> \<open>Net_IP\<close>: \<open>net.ParseIP\<close> and \<open>IP.String\<close>; a printed IPv4 address is parsed back. \<open>Net_IP6\<close>: so is
    every IPv6 address, with the longest run of zero groups printed as \<open>::\<close>.
  \<^item> \<open>Domain\<close>: \<open>domain/types.go\<close> and \<open>domain/inmemory_secret.go\<close>.
  \<^item> \<open>Database\<close>: the tables with their constraints, the SQL statements as functions on the
    tables, transactions, and the operations of \<open>adapters/database/service.go\<close>.
    \<open>Database_Inv\<close>: the invariant \<open>tables_ok\<close> and one preservation lemma per statement, the
    abstract registry (\<open>registry\<close>, \<open>configured\<close>). \<open>Database_Ops\<close>: reachability by operations
    under any failures, atomicity and refinement of the registry. \<open>Database_List\<close>: the query
    with its join and the loop over its rows against the set of active builders.
    \<open>Schema_Migrations\<close>: the tables of \<open>schema/000_init.sql\<close> before the migrations, and the
    migrations, which establish the constraints that \<open>tables_ok\<close> starts from.
  \<^item> \<open>Config_Utils\<close>: \<open>application/config_utils.go\<close>; flattening against the leaves of the
    document.
  \<^item> \<open>Builder_Hub\<close>: \<open>application/service.go\<close> with the locales \<open>builder_data\<close> and
    \<open>healthy_builder_data\<close> for the hub's data accessor, interpreted on the database service.
  \<^item> \<open>Secrets\<close>: \<open>adapters/secrets\<close> with the locale \<open>secret_store\<close>, interpreted on the in-memory
    store; AWS and Vault fulfil it when their services answer as documented
    (\<open>aws_contract\<close>, \<open>vault_contract\<close>, each with an instance).
  \<^item> \<open>Ports_Types\<close>: \<open>ports/types.go\<close>, struct tags and the custom JSON form of a builder with its
    credentials. \<open>Http\<close>: requests, responses, handlers as state transformers with a possible
    panic, \<open>ports/handler.go\<close>. \<open>Decoded_Text\<close>: decoded text is UTF-8, so a measurement that was
    accepted is read back from its own document.
  \<^item> \<open>Hub_Handler\<close>: \<open>ports/http_handler.go\<close> with the locale \<open>hub_contract\<close>; \<open>Hub_Auth\<close>: its
    interpretation on the hub over the database, and what callers must be and can do.
  \<^item> \<open>Admin_Handler\<close>: \<open>ports/admin_handler.go\<close>. \<open>Hub_System\<close>: every handler as a sequence of
    database operations, the step relation \<open>op_step\<close> and its invariant. \<open>Hub_Flows\<close> and
    \<open>Hub_Lifecycle\<close>: claims across admin and hub handlers, and across sequences of requests.
    \<open>Hub_Responses\<close>: the form of the responses, the documents of the listings, what a status 200
    says about the database (locales \<open>reporting_service\<close>, \<open>reporting_admin\<close>, interpreted on
    the hub and the admin service over the database).
  \<^item> \<open>Database_Tx\<close>: transactions that replace the live row of a key, statement by statement, with
    the locale \<open>replacing\<close>. \<open>Tx_Interleaving\<close>: its interpretations on the registrations and the
    configurations, and the step relation \<open>hub_step\<close> of all statements against \<open>op_step\<close>.
  \<^item> \<open>Hub_Spec\<close>: the abstract machine \<open>spec_step\<close> over maps and sets, the abstraction \<open>hub_abs\<close> of the
    tables, and the locale \<open>refinement\<close>, interpreted on the operations (\<open>op_step\<close>), the requests
    (\<open>request_step\<close>) and the interleaved statements (\<open>hub_step\<close>). \<open>Hub_Published\<close>: what an added
    builder becomes for its own requests and in the listings, by the machine and \<open>Net_IP6\<close>.
    \<open>Hub_Onboarding\<close>: the three requests that bring a builder online succeed on a database that
    answers, and the hub then takes the callers at its address for it.
  \<^item> \<open>Http_Server\<close>: \<open>httpserver\<close> and \<open>metrics\<close>: routers, Basic authentication, readiness, start
    and shutdown. \<open>Metrics_Router\<close>: the metrics listener. \<open>Main_Cli\<close>: \<open>common\<close> and \<open>cmd/httpserver/main.go\<close>. This theory: the claims
    about the program as it is put together.

  \<^bold>\<open>State.\<close> A record \<open>db\<close> holds the five tables, the sequences of the serial columns, the clock
  and two oracles: \<open>db_faults\<close> says of each round trip to the server whether it fails before or
  after the statement was executed, \<open>db_seed\<close> selects the order in which rows come. Claims hold
  for every value of them unless they assume \<open>db_faults = []\<close>, a server that answers. The state
  behind the handlers is the pair of the database and the secret store; \<open>server_state\<close> adds the
  readiness flag and the recorded metrics. A handler takes a request, the response so far and
  the state, and gives the response, the panic if there is one, and the state.

  \<^bold>\<open>Concurrency.\<close> Two levels. Requests interleave the operations of the database service, each an
  atomic step: \<open>op_step\<close> has one rule per operation a handler issues, with the second component
  of its state remembering the builders whose active configuration some request has read,
  because \<open>ChangeActiveStatusForBuilder\<close> of the admin handler reads it in one operation and
  activates in a later one. \<open>handlers_refine_operations\<close> shows that a handler running alone is
  such a sequence; \<open>active_builders_configured\<close> holds for every interleaving. Below it, the two
  operations that are transactions of several statements run at Postgres' default level,
  READ COMMITTED: \<open>hub_step\<close> interleaves their statements, and the single row updates of the
  \<open>UPDATE\<close>, with one another and with all other operations, and
  \<open>interleaving_refines_operations\<close> shows that every committed state is one that whole
  operations reach. Of Postgres this takes what it documents: an \<open>UPDATE\<close> works on the rows
  committed at its start, waits for a row that another open transaction has updated and applies
  its condition again to what is left of it; a unique index makes an insertion wait for, or be
  refused because of, a row of the same key; a serial column gives new numbers; a failed
  transaction leaves nothing. An operation of one statement is atomic.

  \<^bold>\<open>Parameters\<close> are code outside the repository: the record \<open>ext\<close> (encoding of addresses by the
  database driver, JSON columns, collation, the Ethereum address type, bcrypt, the JSON path
  writer, text of floating point numbers, text of errors); the router library as the record
  \<open>chi\<close> with \<open>chi_contract\<close> (middleware wraps in order, a request goes to a registered route
  whose method and pattern match or is answered with 404 or 405, the recovery layer turns a panic into
  status 500 unless the request has \<open>Connection: Upgrade\<close>, when nothing is written, the request logger and the profiler leave the state alone); the clients of AWS and
  Vault; the values of the flags, reading files and connecting (\<open>cli_Context\<close>, \<open>world\<close>). Each
  contract has a concrete instance (\<open>sample_ext\<close>, \<open>sample_chi\<close>, \<open>sample_aws_contract\<close>,
  \<open>sample_vault_contract\<close>, \<open>sample_run\<close>), on which the witnesses evaluate.

  \<^bold>\<open>What is shown.\<close> Secrets and listings go to active builders with an accepted measurement only,
  with one event logged for a configuration, and a registration touches the caller's own row
  only (\<open>Hub_Auth\<close>); additions are not trusted before activation, an authentic builder is
  served, with the secrets set for it (\<open>Hub_Flows\<close>), a deactivated one is locked out, a
  measurement is accepted while it is enabled (\<open>Hub_Lifecycle\<close>); every response has one of five
  forms, a status 200 hides no failure of the database, a registration shows up in the next
  listing, and the list of allowed measurements is read back as the active rows
  (\<open>Hub_Responses\<close>); concurrent transactions behave like whole operations and no registration is
  overwritten unseen (\<open>Tx_Interleaving\<close>); all of it, interleaved, is a run of the abstract machine, in
  which builders and templates never change and the log only grows (\<open>Hub_Spec\<close>), so an added builder
  stays bound to the address and network of its document and is listed with them
  (\<open>Hub_Published\<close>), and can be brought online at an address that no active builder has
  (\<open>Hub_Onboarding\<close>); the migrations lead to the constraints all this rests on
  (\<open>Schema_Migrations\<close>); the admin API is closed without
  credentials, unless the flag disables authentication, and open with them, the public router cannot administrate, readiness follows the
  drain endpoints, shutdown stops what was started (\<open>Http_Server\<close>); the flags select the backend
  by precedence, the process ends with the status that its start and shutdown deserve, and the drain time is exact within the bounds of 64-bit nanoseconds (\<open>Main_Cli\<close>);
  the running program serves secrets and the admin API accordingly (below). Under these lie the
  invariants, refinements and round trips of the single components. Where the code does not do
  what it means to, the theorem states what it does: \<open>GetConfigSecrets_nil_builder\<close>,
  \<open>running_upgrade_panic\<close>, \<open>aws_null_secret_panics\<close>, \<open>BWSC_reserved_service\<close>,
  \<open>Shutdown_stops_started\<close>, \<open>drain_duration_exact\<close>.

  \<^bold>\<open>Bounds.\<close> Durations are 64-bit words, as \<open>time.Duration\<close> is; other integers of the code are
  small indices. Scanners recurse on the rest of their input with a measure; there is no fuel.
  The renewal watcher of a Vault token may wait for ever: it is modelled on the list of events
  it receives.

  \<^bold>\<open>Not modelled.\<close> Log lines and their formatting (the arguments are evaluated without effect);
  sockets, timeouts and the scheduling of the Go runtime, of which only the set of started and
  stopped servers is kept; the connection pool beyond its settings; the text in which the metrics
  library exports what was recorded; the size limit of an index entry of the database; the uniqueness of
  the serial primary keys, whose numbers the sequences give out once (\<open>schema_ok\<close> leaves it out);
  what a repeated array member of a JSON document finds in the capacity that an earlier one has
  left (\<open>dec_slice\<close>); the body of the profiler; the
  parsing of the command line, a library that \<open>main\<close> is modelled over; SQL text as text (each
  statement is translated to its effect); indexes that only make queries faster; rows of the tables
  with a null builder name, which the service never writes; the closing of the connection pool
  at the end; container files, CI, documentation and tests.
\<close>

section \<open>The running service\<close>

lemma served_configuration:
  assumes "chi_contract c" "build_server x c kv sm wd cCtx = Inr (sv, ready)" "srv sv = Some hs"
    and "\<not> cli_Bool cCtx ''pprof''" "rq_Method r = ''GET''" "rq_Path r = ''/api/l1-builder/v1/configuration''"
    and "\<forall>(meth, pat, H)\<in>set (mux_Routes (GetRouter x c sv)). chi_match c pat (rq_Path r) \<noteq> None \<longrightarrow> pat = rq_Path r"
    and "hs_Handler hs r NewResponse s = (w, p, s')" "sent_status w = 200" "db_reachable x (fst (backend s))"
  shows "\<exists>b ps p1. select_backend wd cCtx = Inr b \<and>
    h_GetConfigSecrets (db_handler x (SecretAccessor.truncate (backend_service x kv sm b)))
      (r\<lparr>rq_Params := ps\<rparr>) NewResponse (backend s) = (w, p1, backend s') \<and>
    (p1 \<noteq> None \<longrightarrow> Header_Get r ''Connection'' = ''Upgrade'' \<and> w = NewResponse)"
proof -
  obtain b where b: "select_backend wd cCtx = Inr b" "cfg sv = server_config cCtx"
      "appHandler sv = db_handler x (SecretAccessor.truncate (backend_service x kv sm b))"
      "hs_Handler hs = chi_ServeHTTP c (GetRouter x c sv)"
    by (rule build_server_wires [OF assms(2)]) (use assms(3) in auto)
  let ?rs = "mux_Routes (GetRouter x c sv)"
  let ?H = "h_GetConfigSecrets (db_handler x (SecretAccessor.truncate (backend_service x kv sm b)))"
  have no_pprof: "\<not> EnablePprof (cfg sv)" using b(2) assms(4) by (simp add: server_config_def)
  obtain w1 p1 s1 where in1: "routed c ?rs [] r NewResponse s = (w1, p1, s1)" by (metis prod.exhaust)
  have "hs_Handler hs r NewResponse s = (if p1 = None then w1 else recovered r w1, None,
      recordRequestDuration (chi_RoutePattern c r) (elapsed_ms c r) s1)"
    unfolding b(4) using serve_common [OF assms(1) in1 [unfolded routed_def]] no_pprof
    by (simp add: GetRouter_def)
  then have eq: "w = (if p1 = None then w1 else recovered r w1)" "backend s' = backend s1"
    using assms(8) by (auto simp: recordRequestDuration_def)
  have only: "H = on_backend ?H" if "(rq_Method r, pat, H) \<in> set ?rs" "chi_match c pat (rq_Path r) = Some ps" for pat H ps
  proof -
    have "pat = ''/api/l1-builder/v1/configuration''" using assms(6,7) that by force
    with that(1) show ?thesis by (simp add: GetRouter_def b(3))
  qed
  show ?thesis
  proof (cases "rs_Status w1 \<in> {Some 404, Some 405}")
    case True
    with eq(1) assms(9) show ?thesis by (auto simp: recovered_def split: if_splits)
  next
    case False
    have "\<exists>ps. on_backend ?H (r\<lparr>rq_Params := ps\<rparr>) NewResponse s = (w1, p1, s1)"
      by (rule serve_route [OF assms(1) in1]) (simp, use False in simp, rule only)
    then obtain ps where ps: "on_backend ?H (r\<lparr>rq_Params := ps\<rparr>) NewResponse s = (w1, p1, s1)" by blast
    then have H: "?H (r\<lparr>rq_Params := ps\<rparr>) NewResponse (backend s) = (w1, p1, backend s1)"
      by (auto simp: on_backend_def split: prod.splits)
    have panic: "Header_Get r ''Connection'' = ''Upgrade'' \<and> w1 = NewResponse \<and> w = w1" if p1: "p1 = Some q" for q
    proof -
      have w1: "w1 = NewResponse" using GetConfigSecrets_panic [OF H [unfolded p1]] by simp
      have "Header_Get r ''Connection'' = ''Upgrade''"
      proof (rule ccontr)
        assume "Header_Get r ''Connection'' \<noteq> ''Upgrade''"
        then have "w = WriteHeader 500 NewResponse" using eq(1) p1 w1 by (simp add: recovered_def)
        then show False using assms(9) by simp
      qed
      then show ?thesis using eq(1) p1 w1 by (simp add: recovered_def)
    qed
    show ?thesis
    proof (cases p1)
      case None
      then show ?thesis using H eq b(1) by auto
    next
      case (Some q)
      then show ?thesis using H eq(2) b(1) panic [OF Some] by auto
    qed
  qed
qed

section \<open>Properties\<close>

text \<open>C9: End to end: when the running program, with the profiler off and the path matched by its own
  pattern only, answers a request on the public listener for the configuration path with status
  200, then the forwarded address is that of an active builder, the measurement satisfies an
  active template of the attestation type, and the body is what the configured secret backend
  returns for that builder's name. There is one exception: when the handler panics on a request
  with \<open>Connection: Upgrade\<close>, the recovery writes no status, and the response is an empty 200 that
  carries no secret and has changed no table.\<close>

theorem running_configuration_authenticated:
  assumes "chi_contract c" "build_server x c kv sm wd cCtx = Inr (sv, ready)" "srv sv = Some hs"
    and "\<not> cli_Bool cCtx ''pprof''" "rq_Method r = ''GET''" "rq_Path r = ''/api/l1-builder/v1/configuration''"
    and "\<forall>(meth, pat, H)\<in>set (mux_Routes (GetRouter x c sv)). chi_match c pat (rq_Path r) \<noteq> None \<longrightarrow> pat = rq_Path r"
    and "hs_Handler hs r NewResponse s = (w, p, s')" "sent_status w = 200" "db_reachable x (fst (backend s))"
  shows "(\<exists>b auth row m t. select_backend wd cCtx = Inr b \<and> getAuthData r = Inr auth \<and>
      row \<in> set (builders (tabs (fst (backend s)))) \<and> br_IsActive row \<and>
      inet_value x (AD_IP auth) = Inr (Some (br_IPAddress row)) \<and>
      m \<in> set (measurements_whitelist (tabs (fst (backend s)))) \<and> mr_IsActive m \<and>
      mr_AttestationType m = AD_AttestationType auth \<and>
      convertMeasurementToDomain m = Inr t \<and> satisfies (AD_MeasurementData auth) t \<and>
      fst (sa_GetSecretValues (backend_service x kv sm b) (br_Name row) (snd (backend s))) = Ret (Inr (rs_Body w))) \<or>
    (Header_Get r ''Connection'' = ''Upgrade'' \<and> rs_Body w = [] \<and> tabs (fst (backend s')) = tabs (fst (backend s)) \<and>
      (\<exists>b ps q. select_backend wd cCtx = Inr b \<and>
        fst (snd (h_GetConfigSecrets (db_handler x (SecretAccessor.truncate (backend_service x kv sm b)))
          (r\<lparr>rq_Params := ps\<rparr>) NewResponse (backend s))) = Some q))"
proof -
  obtain b ps p1 where b: "select_backend wd cCtx = Inr b"
    and H: "h_GetConfigSecrets (db_handler x (SecretAccessor.truncate (backend_service x kv sm b)))
      (r\<lparr>rq_Params := ps\<rparr>) NewResponse (backend s) = (w, p1, backend s')"
    and panic: "p1 \<noteq> None \<Longrightarrow> Header_Get r ''Connection'' = ''Upgrade'' \<and> w = NewResponse"
    using served_configuration [OF assms] by blast
  show ?thesis
  proof (cases p1)
    case None
    have hd: "Header_Get (r\<lparr>rq_Params := ps\<rparr>) k = Header_Get r k" "Header_Values (r\<lparr>rq_Params := ps\<rparr>) k = Header_Values r k" for k
      by (simp_all add: Header_Get_def Header_Values_def)
    have "getAuthData (r\<lparr>rq_Params := ps\<rparr>) = getAuthData r"
      unfolding getAuthData_def hd ..
    with GetConfigSecrets_rows [OF assms(10) H [unfolded None] assms(9)] b show ?thesis
      by (intro disjI1) (simp add: SecretAccessor.truncate_def, metis fst_conv)
  next
    case (Some q)
    have "rs_Body w = []" using panic Some by simp
    moreover have "tabs (fst (backend s')) = tabs (fst (backend s))" using GetConfigSecrets_panic [OF H [unfolded Some]] by simp
    ultimately show ?thesis
      using panic Some b H by (intro disjI2 conjI exI [of _ b] exI [of _ ps] exI [of _ q]) simp_all
  qed
qed

definition mock_context :: cli_Context where
  "mock_context = default_context\<lparr>cli_Bool := \<lambda>n. n = ''mock-secrets''\<rparr>"

definition sample_run :: "(db, (((bytes \<times> bytes) \<times> (bytes, ival) gomap) list, (bytes \<times> bytes) list) secret_state) Server" where
  "sample_run = (case build_server sample_ext sample_chi sample_vault sample_aws sample_world mock_context of Inr (sv, r) \<Rightarrow> sv)"

lemma sample_run: "build_server sample_ext sample_chi sample_vault sample_aws sample_world mock_context = Inr (sample_run, True)"
  by (simp add: sample_run_def build_server_def NewDatabaseService_def select_backend_def sample_world_def mock_context_def
      NewHTTPServer_def Let_def)

definition sample_run_state :: "(db \<times> (((bytes \<times> bytes) \<times> (bytes, ival) gomap) list, (bytes \<times> bytes) list) secret_state) server_state" where
  "sample_run_state = \<lparr>isReady = True, slept = 0, summaries = [],
     backend = (sample_db, \<lparr>mock_state = \<lparr>st = [(''alpha'', ''{}'')]\<rparr>, vault_state = [], aws_state = []\<rparr>)\<rparr>"

theorem running_configuration_authenticated_witness:
  "\<exists>row\<in>set (builders (tabs sample_db)). br_IsActive row \<and> br_Name row = ''alpha''"
proof -
  obtain hs where hs: "srv sample_run = Some hs" "hs_Handler hs = chi_ServeHTTP sample_chi (GetRouter sample_ext sample_chi sample_run)"
    by (rule build_server_wires [OF sample_run]) auto
  let ?z = "hs_Handler hs sample_request NewResponse sample_run_state"
  have "sent_status (fst (chi_ServeHTTP sample_chi (GetRouter sample_ext sample_chi sample_run) sample_request NewResponse sample_run_state)) = 200"
    "rs_Body (fst (chi_ServeHTTP sample_chi (GetRouter sample_ext sample_chi sample_run) sample_request NewResponse sample_run_state)) = ''{}''"
    by code_simp+
  then have ok: "sent_status (fst ?z) = 200" "rs_Body (fst ?z) = ''{}''" by (simp_all add: hs(2))
  have z: "?z = (fst ?z, fst (snd ?z), snd (snd ?z))" by simp
  have r: "rq_Method sample_request = ''GET''" "rq_Path sample_request = ''/api/l1-builder/v1/configuration''"
    by (simp_all add: sample_request_def)
  have m: "\<forall>(meth, pat, H)\<in>set (mux_Routes (GetRouter sample_ext sample_chi sample_run)).
      chi_match sample_chi pat (rq_Path sample_request) \<noteq> None \<longrightarrow> pat = rq_Path sample_request" by code_simp
  have d: "db_reachable sample_ext (fst (backend sample_run_state))" by (simp add: sample_run_state_def sample_db_reachable)
  have np: "\<not> cli_Bool mock_context ''pprof''" by (simp add: mock_context_def)
  from running_configuration_authenticated [OF sample_chi_contract sample_run hs(1) np r m z ok(1) d] ok(2)
  obtain b row where b: "select_backend sample_world mock_context = Inr b"
    and row: "row \<in> set (builders (tabs (fst (backend sample_run_state))))" "br_IsActive row"
    "fst (sa_GetSecretValues (backend_service sample_ext sample_vault sample_aws b) (br_Name row) (snd (backend sample_run_state))) =
       Ret (Inr ''{}'')"
    unfolding ok(2) by blast
  have "b = MockBackend" using b by (simp add: select_backend_def mock_context_def)
  with row have "br_Name row = ''alpha''"
    by (simp add: backend_service_def lift_secrets_def inmem_service_def inmem_GetSecretValues_def sample_run_state_def
        split: if_splits)
  with row show ?thesis by (auto simp: sample_run_state_def)
qed

text \<open>The exception of the running program: a request with \<open>Connection: Upgrade\<close> and an attestation
  type that is not UTF-8 is answered with an empty 200, without any authentication.\<close>

lemma running_upgrade_panic:
  "let r = sample_request\<lparr>rq_Header := [(AttestationTypeHeader, [[CHR 0xFF]]), (MeasurementHeader, [''{}'']),
       (ForwardedHeader, [''10.0.0.99'']), (''Connection'', [''Upgrade''])]\<rparr>;
     (w, p, s') = chi_ServeHTTP sample_chi (GetRouter sample_ext sample_chi sample_run) r NewResponse sample_run_state
   in sent_status w = 200 \<and> rs_Body w = [] \<and> p = None"
  by code_simp

text \<open>Without a password hash the admin API of the running program is closed: as long as
  authentication is not disabled and bcrypt accepts no password for the empty hash, every
  request to the admin listener is answered with status 401 and changes nothing behind it. The
  hash is empty when the flag is not given.\<close>

theorem running_admin_closed:
  assumes "chi_contract c" "build_server x c kv sm wd cCtx = Inr (sv, ready)" "adminSrv sv = Some hs"
    and "\<not> cli_Bool cCtx ''disable-admin-auth''" "cli_String cCtx ''admin-basic-password-bcrypt'' = []"
    and "\<forall>p. bcrypt_Compare x [] p \<noteq> None"
  shows "(\<exists>w s'. hs_Handler hs r NewResponse s = (w, None, s') \<and> sent_status w = 401 \<and> backend s' = backend s) \<and>
    cli_String default_context ''admin-basic-password-bcrypt'' = []"
proof -
  have sv: "cfg sv = server_config cCtx" "hs_Handler hs = chi_ServeHTTP c (GetAdminRouter x c sv)"
    by (rule build_server_wires [OF assms(2)]; use assms(3) in auto)+
  have "\<not> AdminAuthDisabled (cfg sv)" "AdminPasswordBcrypt (cfg sv) = []"
    using assms(4,5) by (simp_all add: sv(1) server_config_def)
  with admin_denied [OF assms(1), of sv r x s] assms(6)
  have "\<exists>w s'. hs_Handler hs r NewResponse s = (w, None, s') \<and> sent_status w = 401 \<and> backend s' = backend s"
    unfolding sv(2) by auto
  moreover have "cli_String default_context ''admin-basic-password-bcrypt'' = []"
    by (simp add: default_context_def flag_default_def flags_def)
  ultimately show ?thesis by blast
qed

definition strict_ext :: ext where
  "strict_ext = sample_ext\<lparr>bcrypt_Compare := \<lambda>hash pass.
     if hash \<noteq> [] \<and> hash = pass then None else Some (ErrOther ''hashedSecret too short'')\<rparr>"

theorem running_admin_closed_witness:
  "\<exists>sv hs. build_server strict_ext sample_chi sample_vault sample_aws sample_world mock_context = Inr (sv, True) \<and>
     adminSrv sv = Some hs \<and> (\<exists>w s'. hs_Handler hs add_request NewResponse sample_run_state = (w, None, s') \<and> sent_status w = 401)"
proof -
  obtain sv where sv: "build_server strict_ext sample_chi sample_vault sample_aws sample_world mock_context = Inr (sv, True)"
    by (simp add: build_server_def NewDatabaseService_def select_backend_def sample_world_def mock_context_def
        NewHTTPServer_def Let_def)
  obtain hs where hs: "adminSrv sv = Some hs" by (rule build_server_wires [OF sv]) auto
  have "\<not> cli_Bool mock_context ''disable-admin-auth''" "cli_String mock_context ''admin-basic-password-bcrypt'' = []"
    "\<forall>p. bcrypt_Compare strict_ext [] p \<noteq> None"
    by (simp_all add: mock_context_def default_context_def flag_default_def flags_def strict_ext_def)
  from running_admin_closed [OF sample_chi_contract sv hs this] sv hs show ?thesis by blast
qed

end
